(* ===== verification/Prelude.thy ===== *)
theory Prelude
  imports Complex_Main
begin

text \<open>
  What every component of the payments processor shares: the rule collections, the
  result type in which a thrown error is a value, the table operations to which the
  queries of the data layer translate (SELECT, UPDATE .. WHERE .. RETURNING, ORDER BY,
  LIMIT on a list of rows), and JavaScript's decimal strings and paddings.
\<close>

named_theorems table_simps \<open>rewriting of table operations\<close>
named_theorems row_intros \<open>membership facts about updated tables\<close>

subsection \<open>Errors as values\<close>

text \<open>
  Everything the code throws: a plain \<open>Error\<close>, a Nest \<open>HttpException\<close> with its status
  and message (or list of validation messages), a unique-constraint violation of the
  database (SQLSTATE 23505), any other database error, and the bank timeout.
\<close>

datatype js_error =
    PlainError string
  | HttpException nat string
  | ValidationException "string list"
  | UniqueViolation
  | DbError string
  | BankTimeoutError int

type_synonym 'a result = "js_error + 'a"

fun bind_result :: "'a result \<Rightarrow> ('a \<Rightarrow> 'b result) \<Rightarrow> 'b result" where
  "bind_result (Inl e) f = Inl e"
| "bind_result (Inr a) f = f a"

lemma bind_result_Inr [simp]:
  "bind_result r f = Inr b \<longleftrightarrow> (\<exists>a. r = Inr a \<and> f a = Inr b)"
  by (cases r) auto

subsection \<open>Tables as lists of rows\<close>

definition select_where :: "('r \<Rightarrow> bool) \<Rightarrow> 'r list \<Rightarrow> 'r list" where
  "select_where p t = filter p t"

definition update_where :: "('r \<Rightarrow> bool) \<Rightarrow> ('r \<Rightarrow> 'r) \<Rightarrow> 'r list \<Rightarrow> 'r list" where
  "update_where p f t = map (\<lambda>r. if p r then f r else r) t"

definition returning :: "('r \<Rightarrow> bool) \<Rightarrow> ('r \<Rightarrow> 'r) \<Rightarrow> 'r list \<Rightarrow> 'r list" where
  "returning p f t = map f (filter p t)"

definition order_by :: "('r \<Rightarrow> 'k::linorder) \<Rightarrow> 'r list \<Rightarrow> 'r list" where
  "order_by key t = sort_key key t"

definition order_by_desc :: "('r \<Rightarrow> 'k::linorder) \<Rightarrow> 'r list \<Rightarrow> 'r list" where
  "order_by_desc key t = rev (sort_key key t)"

definition limit :: "nat \<Rightarrow> 'r list \<Rightarrow> 'r list" where
  "limit n t = take n t"

definition first_row :: "'r list \<Rightarrow> 'r option" where
  "first_row t = (case t of [] \<Rightarrow> None | r # _ \<Rightarrow> Some r)"

lemma first_row_simps [simp]:
  "first_row [] = None" "first_row (r # t) = Some r"
  by (simp_all add: first_row_def)

lemma first_row_Some_in: "first_row t = Some r \<Longrightarrow> r \<in> set t"
  by (cases t) auto

lemma first_row_None [simp]: "first_row t = None \<longleftrightarrow> t = []"
  by (cases t) auto

lemma set_select_where [simp]: "set (select_where p t) = {r \<in> set t. p r}"
  by (simp add: select_where_def)

lemma set_returning: "set (returning p f t) = f ` {r \<in> set t. p r}"
  by (auto simp: returning_def)

lemma returning_Nil: "returning p f t = [] \<longleftrightarrow> (\<forall>r \<in> set t. \<not> p r)"
  by (auto simp: returning_def filter_empty_conv)

lemma length_update_where [simp]: "length (update_where p f t) = length t"
  by (simp add: update_where_def)

lemma update_where_Nil [simp]: "update_where p f [] = []"
  by (simp add: update_where_def)

lemma update_where_Cons [table_simps]:
  "update_where p f (r # t) = (if p r then f r else r) # update_where p f t"
  by (simp add: update_where_def)

lemma set_update_where:
  "set (update_where p f t) = (\<lambda>r. if p r then f r else r) ` set t"
  by (simp add: update_where_def)

lemma in_update_where:
  "r' \<in> set (update_where p f t) \<longleftrightarrow>
   (\<exists>r \<in> set t. (p r \<and> r' = f r) \<or> (\<not> p r \<and> r' = r))"
  by (auto simp: set_update_where image_iff split: if_splits)

text \<open>Columns the update does not write keep their values, so a key stays a key.\<close>

lemma map_update_where [table_simps]:
  "(\<And>r. c (f r) = c r) \<Longrightarrow> map c (update_where p f t) = map c t"
  by (induction t) (auto simp: update_where_def)

lemma update_where_none:
  "(\<And>r. r \<in> set t \<Longrightarrow> \<not> p r) \<Longrightarrow> update_where p f t = t"
  by (induction t) (auto simp: update_where_def)

lemma select_where_update_where [table_simps]:
  "(\<And>r. q (f r) = q r) \<Longrightarrow>
   select_where q (update_where p f t) = update_where p f (select_where q t)"
  by (induction t) (auto simp: update_where_def select_where_def)

lemma set_limit: "set (limit n t) \<subseteq> set t"
  by (auto simp: limit_def dest: in_set_takeD)

lemma length_limit: "length (limit n t) \<le> n"
  by (simp add: limit_def)

lemma set_order_by [simp]: "set (order_by k t) = set t"
  by (simp add: order_by_def)

lemma set_order_by_desc [simp]: "set (order_by_desc k t) = set t"
  by (simp add: order_by_desc_def)

lemma singleton_list: "set xs = {x} \<Longrightarrow> distinct xs \<Longrightarrow> xs = [x]"
  by (cases xs) (auto simp: subset_singleton_iff)

text \<open>A row found by its key in a table whose key column has no duplicates.\<close>

lemma distinct_key_unique:
  assumes "distinct (map k t)" "r \<in> set t" "r' \<in> set t" "k r = k r'"
  shows "r = r'"
  using assms by (meson inj_onD distinct_map)

lemma first_row_select_key:
  assumes "distinct (map k t)" "r \<in> set t"
  shows "first_row (select_where (\<lambda>x. k x = k r) t) = Some r"
proof -
  have "r \<in> set (select_where (\<lambda>x. k x = k r) t)" using assms(2) by simp
  then obtain r' where r': "first_row (select_where (\<lambda>x. k x = k r) t) = Some r'"
    by (cases "select_where (\<lambda>x. k x = k r) t") auto
  from first_row_Some_in [OF this] have "r' \<in> set t" "k r' = k r" by auto
  with assms have "r' = r" by (blast intro: distinct_key_unique)
  with r' show ?thesis by simp
qed

lemma first_row_select_key_iff:
  assumes "distinct (map k t)"
  shows "first_row (select_where (\<lambda>x. k x = i) t) = Some r \<longleftrightarrow> r \<in> set t \<and> k r = i"
  using first_row_select_key [OF assms, of r]
  by (auto dest!: first_row_Some_in)

text \<open>
  The milliseconds \<open>setTimeout\<close> waits: a delay it cannot hold in 32 bits, or below one, is set to one.
\<close>

definition timer_ms :: "int \<Rightarrow> int" where
  "timer_ms ms = (if 1 \<le> ms \<and> ms \<le> 2147483647 then ms else 1)"

lemma timer_ms_pos [simp]: "1 \<le> timer_ms ms"
  by (simp add: timer_ms_def)

lemma timer_ms_low [simp]: "ms \<le> 1 \<Longrightarrow> timer_ms ms = 1"
  by (simp add: timer_ms_def)

lemma timer_ms_mono: "a \<le> b \<Longrightarrow> b \<le> 2147483647 \<Longrightarrow> timer_ms a \<le> timer_ms b"
  by (simp add: timer_ms_def)

text \<open>Counting rows: an update that keeps a predicate keeps the count of its rows.\<close>

definition count_where :: "('r \<Rightarrow> bool) \<Rightarrow> 'r list \<Rightarrow> nat" where
  "count_where p t = length (filter p t)"

lemma count_where_simps [simp]:
  "count_where p [] = 0"
  "count_where p (r # t) = (if p r then 1 else 0) + count_where p t"
  "count_where p (t @ u) = count_where p t + count_where p u"
  by (simp_all add: count_where_def)

lemma count_where_update [table_simps]:
  "(\<And>r. q (f r) = q r) \<Longrightarrow> count_where q (update_where p f t) = count_where q t"
  by (induction t) (auto simp: update_where_def)

lemma count_where_0: "count_where p t = 0 \<longleftrightarrow> (\<forall>r \<in> set t. \<not> p r)"
  by (induction t) auto

lemma count_where_le_length: "count_where p t \<le> length t"
  by (induction t) auto

lemma count_where_cong:
  "(\<And>r. r \<in> set t \<Longrightarrow> p r = q r) \<Longrightarrow> count_where p t = count_where q t"
  by (induction t) auto

subsection \<open>Decimal strings\<close>

definition is_digit :: "char \<Rightarrow> bool" where
  "is_digit c \<longleftrightarrow> 48 \<le> (of_char c :: nat) \<and> (of_char c :: nat) \<le> 57"

definition digit_val :: "char \<Rightarrow> nat" where
  "digit_val c = of_char c - 48"

definition digit_char :: "nat \<Rightarrow> char" where
  "digit_char d = char_of (48 + d)"

lemma digit_char_props [simp]:
  assumes "d < 10"
  shows "is_digit (digit_char d)" "digit_val (digit_char d) = d"
  using assms by (simp_all add: is_digit_def digit_val_def digit_char_def)

lemma digit_val_bound: "is_digit c \<Longrightarrow> digit_val c < 10"
  unfolding is_digit_def digit_val_def by linarith

lemma digit_char_val [simp]: "is_digit c \<Longrightarrow> digit_char (digit_val c) = c"
  by (simp add: is_digit_def digit_val_def digit_char_def)

text \<open>The value of a string of decimal digits, most significant first.\<close>

definition digits_val :: "string \<Rightarrow> nat" where
  "digits_val s = foldl (\<lambda>v c. 10 * v + digit_val c) 0 s"

lemma digits_val_Nil [simp]: "digits_val [] = 0"
  by (simp add: digits_val_def)

lemma digits_val_snoc [simp]: "digits_val (s @ [c]) = 10 * digits_val s + digit_val c"
  by (simp add: digits_val_def)

text \<open>\<open>Number.prototype.toString\<close> of a natural number below $10^{21}$: its decimal digits.\<close>

fun nat_str :: "nat \<Rightarrow> string" where
  "nat_str n = (if n < 10 then [digit_char n] else nat_str (n div 10) @ [digit_char (n mod 10)])"

declare nat_str.simps [simp del]

lemma nat_str_small: "n < 10 \<Longrightarrow> nat_str n = [digit_char n]"
  by (simp add: nat_str.simps)

lemma nat_str_step: "10 \<le> n \<Longrightarrow> nat_str n = nat_str (n div 10) @ [digit_char (n mod 10)]"
  by (subst nat_str.simps) simp

lemma nat_str_nonempty [simp]: "nat_str n \<noteq> []"
  by (subst nat_str.simps) simp

lemma nat_str_digits: "c \<in> set (nat_str n) \<Longrightarrow> is_digit c"
proof (induction n rule: nat_str.induct)
  case (1 n)
  show ?case
  proof (cases "n < 10")
    case True
    with "1.prems" show ?thesis by (simp add: nat_str_small)
  next
    case False
    with "1.prems" consider "c \<in> set (nat_str (n div 10))" | "c = digit_char (n mod 10)"
      by (auto simp: nat_str_step)
    then show ?thesis using "1.IH" False by cases simp_all
  qed
qed

lemma digits_val_nat_str [simp]: "digits_val (nat_str n) = n"
proof (induction n rule: nat_str.induct)
  case (1 n)
  show ?case
  proof (cases "n < 10")
    case True
    then show ?thesis by (simp add: nat_str_small digits_val_def)
  next
    case False
    then show ?thesis using "1.IH" by (simp add: nat_str_step)
  qed
qed

lemma length_nat_str: "n < 10 ^ k \<Longrightarrow> 0 < k \<Longrightarrow> length (nat_str n) \<le> k"
proof (induction k arbitrary: n)
  case 0
  then show ?case by simp
next
  case (Suc k)
  show ?case
  proof (cases "n < 10")
    case True
    then show ?thesis by (simp add: nat_str_small)
  next
    case False
    with Suc.prems have k: "0 < k" by (cases k) auto
    from Suc.prems have "n div 10 < 10 ^ k" by (simp add: less_mult_imp_div_less mult.commute)
    with Suc.IH k False show ?thesis by (simp add: nat_str_step)
  qed
qed

lemma inj_nat_str: "nat_str m = nat_str n \<Longrightarrow> m = n"
  by (metis digits_val_nat_str)

text \<open>\<open>padEnd\<close> and \<open>padStart\<close> with a one-character filler.\<close>

definition pad_end :: "nat \<Rightarrow> char \<Rightarrow> string \<Rightarrow> string" where
  "pad_end n c s = s @ replicate (n - length s) c"

definition pad_start :: "nat \<Rightarrow> char \<Rightarrow> string \<Rightarrow> string" where
  "pad_start n c s = replicate (n - length s) c @ s"

text \<open>A number printed with leading zeros to a fixed width.\<close>

lemma digits_val_zeros: "digits_val (replicate k (CHR ''0'') @ s) = digits_val s"
proof (induction s rule: rev_induct)
  case Nil
  have "digit_val (CHR ''0'') = 0" by (simp add: digit_val_def)
  then have "digits_val (replicate k (CHR ''0'')) = 0"
    by (induction k) (simp_all add: digits_val_def foldl_conv_fold)
  then show ?case by simp
next
  case (snoc c s)
  have "digits_val (replicate k (CHR ''0'') @ s @ [c]) = digits_val ((replicate k (CHR ''0'') @ s) @ [c])"
    by simp
  then show ?case using snoc by (simp only: digits_val_snoc)
qed

lemma pad_digits:
  assumes "n < 10 ^ k" "0 < k"
  shows "length (pad_start k (CHR ''0'') (nat_str n)) = k"
    and "list_all is_digit (pad_start k (CHR ''0'') (nat_str n))"
    and "digits_val (pad_start k (CHR ''0'') (nat_str n)) = n"
  using length_nat_str [OF assms] nat_str_digits [of _ n]
  by (auto simp: pad_start_def list_all_iff digits_val_zeros is_digit_def)

end
