(* ===== verification/Transitions.thy ===== *)
theory Transitions
  imports Prelude
begin

text \<open>
  The payment state machine of \<open>packages/shared/src/index.ts\<close>: the statuses, the
  transition map and \<open>canTransition\<close>; and audit trails, the sequences of
  from/to pairs that \<open>payment_events\<close> records. The locale \<open>status_machine\<close> is the
  interface the recording components rely on: terminal statuses have no exits. What
  follows for trails (at most one terminal event, nothing after it) is proved once in it
  and interpreted on \<open>canTransition\<close>.
\<close>

datatype payment_status = PENDING | PROCESSING | COMPLETED | FAILED | RETRYING

definition PAYMENT_STATUS :: "payment_status list" where
  "PAYMENT_STATUS = [PENDING, PROCESSING, COMPLETED, FAILED, RETRYING]"

fun transitionMap :: "payment_status \<Rightarrow> payment_status list" where
  "transitionMap PENDING = [PROCESSING]"
| "transitionMap PROCESSING = [COMPLETED, FAILED, RETRYING]"
| "transitionMap RETRYING = [PROCESSING]"
| "transitionMap COMPLETED = []"
| "transitionMap FAILED = []"

definition transitionSets :: "payment_status \<Rightarrow> payment_status set" where
  "transitionSets s = set (transitionMap s)"

definition canTransition :: "payment_status \<Rightarrow> payment_status \<Rightarrow> bool" where
  "canTransition from to = (to \<in> transitionSets from)"

fun status_str :: "payment_status \<Rightarrow> string" where
  "status_str PENDING = ''PENDING''"
| "status_str PROCESSING = ''PROCESSING''"
| "status_str COMPLETED = ''COMPLETED''"
| "status_str FAILED = ''FAILED''"
| "status_str RETRYING = ''RETRYING''"

definition is_terminal :: "payment_status \<Rightarrow> bool" where
  "is_terminal s \<longleftrightarrow> s = COMPLETED \<or> s = FAILED"

lemma set_PAYMENT_STATUS: "set PAYMENT_STATUS = UNIV"
proof -
  have "s \<in> set PAYMENT_STATUS" for s by (cases s) (simp_all add: PAYMENT_STATUS_def)
  then show ?thesis by blast
qed

lemma status_str_inj: "status_str a = status_str b \<longleftrightarrow> a = b"
  by (cases a; cases b) simp_all

lemma canTransition_simps [simp]:
  "canTransition PENDING t \<longleftrightarrow> t = PROCESSING"
  "canTransition PROCESSING t \<longleftrightarrow> t \<in> {COMPLETED, FAILED, RETRYING}"
  "canTransition RETRYING t \<longleftrightarrow> t = PROCESSING"
  "canTransition COMPLETED t \<longleftrightarrow> False"
  "canTransition FAILED t \<longleftrightarrow> False"
  by (auto simp: canTransition_def transitionSets_def)

lemma is_terminal_simps [simp]:
  "is_terminal COMPLETED" "is_terminal FAILED"
  "\<not> is_terminal PENDING" "\<not> is_terminal PROCESSING" "\<not> is_terminal RETRYING"
  by (simp_all add: is_terminal_def)

lemma to_PROCESSING: "canTransition s PROCESSING \<longleftrightarrow> s = PENDING \<or> s = RETRYING"
  by (cases s) auto

subsection \<open>Audit trails\<close>

text \<open>
  One event is a pair of the status before (absent for the creation) and the status
  after. A trail of a machine starts with the creation of the start status, and each
  later event leaves the status the one before it entered, by an allowed transition.
\<close>

fun chain :: "('s \<Rightarrow> 's \<Rightarrow> bool) \<Rightarrow> 's \<Rightarrow> ('s option \<times> 's) list \<Rightarrow> 's \<Rightarrow> bool" where
  "chain can a [] b \<longleftrightarrow> a = b"
| "chain can a ((f, t) # es) b \<longleftrightarrow> f = Some a \<and> can a t \<and> chain can t es b"

fun audit_trail :: "('s \<Rightarrow> 's \<Rightarrow> bool) \<Rightarrow> 's \<Rightarrow> ('s option \<times> 's) list \<Rightarrow> 's \<Rightarrow> bool" where
  "audit_trail can start [] s \<longleftrightarrow> False"
| "audit_trail can start (e # es) s \<longleftrightarrow> e = (None, start) \<and> chain can start es s"

lemma chain_snoc:
  "chain can a (es @ [(f, t)]) b \<longleftrightarrow> (\<exists>m. chain can a es m \<and> f = Some m \<and> can m t \<and> b = t)"
  by (induction can a es b rule: chain.induct) auto

lemma audit_trail_snoc:
  "audit_trail can start es m \<Longrightarrow> can m t \<Longrightarrow> audit_trail can start (es @ [(Some m, t)]) t"
  by (cases es) (auto simp: chain_snoc)

lemma audit_trail_start [simp]: "audit_trail can start [(None, start)] start"
  by simp

lemma audit_trail_nonempty: "audit_trail can start es s \<Longrightarrow> es \<noteq> []"
  by (cases es) auto

lemma chain_last: "chain can a es b \<Longrightarrow> es \<noteq> [] \<Longrightarrow> snd (last es) = b"
proof (induction can a es b rule: chain.induct)
  case (2 can a f t es b)
  then show ?case by (cases es) auto
qed simp

lemma audit_trail_last: "audit_trail can start es s \<Longrightarrow> snd (last es) = s"
  by (cases es) (auto simp: chain_last dest: chain_last)

locale status_machine =
  fixes can :: "'s \<Rightarrow> 's \<Rightarrow> bool"
    and start :: 's
    and terminal :: "'s \<Rightarrow> bool"
  assumes terminal_stuck: "terminal a \<Longrightarrow> \<not> can a b"
    and start_live: "\<not> terminal start"
begin

lemma chain_from_terminal: "chain can a es b \<Longrightarrow> terminal a \<Longrightarrow> es = [] \<and> b = a"
  by (cases es) (auto simp: terminal_stuck)

lemma chain_terminal_count:
  "chain can a es b \<Longrightarrow> \<not> terminal a \<Longrightarrow>
   count_where (\<lambda>e. terminal (snd e)) es = (if terminal b then 1 else 0)"
proof (induction es arbitrary: a)
  case Nil
  then show ?case by auto
next
  case (Cons e es)
  obtain f t where e: "e = (f, t)" by (cases e)
  with Cons.prems have c: "chain can t es b" by simp
  show ?case
  proof (cases "terminal t")
    case True
    with chain_from_terminal [OF c] e show ?thesis by simp
  next
    case False
    with Cons.IH [OF c] e show ?thesis by simp
  qed
qed

lemma trail_terminal_count:
  "audit_trail can start es s \<Longrightarrow>
   count_where (\<lambda>e. terminal (snd e)) es = (if terminal s then 1 else 0)"
  using start_live by (cases es) (auto simp: chain_terminal_count)

lemma trail_stops:
  assumes "audit_trail can start es m" "audit_trail can start (es @ fs) s" "terminal m"
  shows "fs = []"
proof -
  obtain es' where es: "es = (None, start) # es'" "chain can start es' m"
    using assms(1) by (cases es) auto
  with assms(2) have "chain can start (es' @ fs) s" by simp
  moreover have "chain can a (es' @ fs) s \<Longrightarrow> chain can a es' m \<Longrightarrow> chain can m fs s" for a
    by (induction es' arbitrary: a) auto
  ultimately have "chain can m fs s" using es by blast
  with assms(3) show ?thesis using chain_from_terminal by blast
qed

end

interpretation pay: status_machine canTransition PENDING is_terminal
proof unfold_locales
  show "is_terminal a \<Longrightarrow> \<not> canTransition a b" for a b by (cases a) auto
qed simp

end
