(* ===== verification/Schema.thy ===== *)
theory Schema
  imports Transitions
begin

text \<open>
  The tables of \<open>apps/api/src/database/schema.ts\<close> as lists of row records, the JSON values
  the code stores in them, and the inserts with the constraints the schema declares: a
  violated unique constraint or foreign key aborts the enclosing transaction, so an insert
  is a result. Timestamps are milliseconds; \<open>now()\<close> of the database is an argument
  of the operations that use a column default.
\<close>

datatype json =
    JNull | JBool bool | JNum int | JStr string
  | JArr "json list" | JObj "(string \<times> json) list"

datatype webhook_status = Pending | Delivered | Failed | Dead

datatype bank_mode =
  Always_authorize | Always_decline | Always_error | Fail_n_then_authorize

text \<open>
  The objects stored as outbox payload and carried as job data. The fields only some of
  them have are optional; an absent field reads as \<open>undefined\<close>.
\<close>

record job_data =
  jd_paymentId :: string
  jd_amountCents :: int
  jd_currency :: string
  jd_sourceAccount :: "string option"
  jd_destinationAccount :: "string option"
  jd_customerId :: "string option"
  jd_status :: "payment_status option"
  jd_correlationId :: "string option"

record payment =
  p_id :: string
  customerId :: string
  sourceAccount :: string
  destinationAccount :: string
  amountCents :: int
  currency :: string
  reference :: "string option"
  status :: payment_status
  version :: nat
  attemptCount :: nat
  lastErrorCode :: "string option"
  p_createdAt :: int
  p_updatedAt :: int

record payment_event =
  e_id :: string
  e_paymentId :: string
  fromStatus :: "payment_status option"
  toStatus :: payment_status
  e_correlationId :: "string option"
  metadata :: "json option"
  occurredAt :: int

record idempotency_key =
  i_customerId :: string
  idempotencyKey :: string
  requestHash :: string
  i_paymentId :: string
  responseStatus :: nat
  responseBody :: payment
  i_createdAt :: int

record outbox_row =
  o_id :: string
  aggregateType :: string
  aggregateId :: string
  eventType :: string
  payload :: job_data
  publishedAt :: "int option"
  webhookDispatchedAt :: "int option"
  o_createdAt :: int

record webhook_endpoint =
  w_id :: string
  url :: string
  secret :: string
  active :: bool
  w_createdAt :: int
  description :: "string option"

record webhook_delivery =
  d_id :: string
  endpointId :: string
  eventId :: string
  d_eventType :: string
  d_payload :: job_data
  d_status :: webhook_status
  attempts :: nat
  nextAttemptAt :: "int option"
  lastError :: "string option"
  d_createdAt :: int
  deliveredAt :: "int option"

record bank_config_row =
  b_id :: string
  mode :: bank_mode
  latencyMs :: int
  failN :: nat
  b_updatedAt :: int

record db =
  payments :: "payment list"
  paymentEvents :: "payment_event list"
  idempotencyKeys :: "idempotency_key list"
  outbox :: "outbox_row list"
  webhookEndpoints :: "webhook_endpoint list"
  webhookDeliveries :: "webhook_delivery list"
  bankConfig :: "bank_config_row list"

definition empty_db :: db where
  "empty_db = \<lparr>payments = [], paymentEvents = [], idempotencyKeys = [], outbox = [],
     webhookEndpoints = [], webhookDeliveries = [], bankConfig = []\<rparr>"

subsection \<open>Inserts and their constraints\<close>

definition insert_row :: "('r \<Rightarrow> 'k) \<Rightarrow> 'r \<Rightarrow> 'r list \<Rightarrow> 'r list result" where
  "insert_row key r t = (if key r \<in> set (map key t) then Inl UniqueViolation else Inr (t @ [r]))"

definition insert_payment :: "payment \<Rightarrow> db \<Rightarrow> db result" where
  "insert_payment r d =
     bind_result (insert_row p_id r (payments d)) (\<lambda>t. Inr (d\<lparr>payments := t\<rparr>))"

definition insert_event :: "payment_event \<Rightarrow> db \<Rightarrow> db result" where
  "insert_event r d =
     (if e_paymentId r \<notin> set (map p_id (payments d)) then Inl (DbError ''23503'')
      else bind_result (insert_row e_id r (paymentEvents d)) (\<lambda>t. Inr (d\<lparr>paymentEvents := t\<rparr>)))"

definition insert_idempotency_key :: "idempotency_key \<Rightarrow> db \<Rightarrow> db result" where
  "insert_idempotency_key r d =
     (if i_paymentId r \<notin> set (map p_id (payments d)) then Inl (DbError ''23503'')
      else bind_result (insert_row (\<lambda>k. (i_customerId k, idempotencyKey k)) r (idempotencyKeys d))
             (\<lambda>t. Inr (d\<lparr>idempotencyKeys := t\<rparr>)))"

definition insert_outbox :: "outbox_row \<Rightarrow> db \<Rightarrow> db result" where
  "insert_outbox r d =
     bind_result (insert_row (\<lambda>o'. (o_id o', o_createdAt o')) r (outbox d))
       (\<lambda>t. Inr (d\<lparr>outbox := t\<rparr>))"

definition insert_delivery :: "webhook_delivery \<Rightarrow> db \<Rightarrow> db result" where
  "insert_delivery r d =
     (if endpointId r \<notin> set (map w_id (webhookEndpoints d)) then Inl (DbError ''23503'')
      else if (eventId r, endpointId r) \<in> set (map (\<lambda>w. (eventId w, endpointId w)) (webhookDeliveries d))
      then Inl UniqueViolation
      else bind_result (insert_row d_id r (webhookDeliveries d))
             (\<lambda>t. Inr (d\<lparr>webhookDeliveries := t\<rparr>)))"

fun insert_events :: "payment_event list \<Rightarrow> db \<Rightarrow> db result" where
  "insert_events [] d = Inr d"
| "insert_events (r # rs) d = bind_result (insert_event r d) (insert_events rs)"

fun insert_deliveries :: "webhook_delivery list \<Rightarrow> db \<Rightarrow> db result" where
  "insert_deliveries [] d = Inr d"
| "insert_deliveries (r # rs) d = bind_result (insert_delivery r d) (insert_deliveries rs)"

lemma insert_row_Inr [simp]:
  "insert_row key r t = Inr t' \<longleftrightarrow> key r \<notin> key ` set t \<and> t' = t @ [r]"
  by (auto simp: insert_row_def)

lemma insert_payment_Inr [simp]:
  "insert_payment r d = Inr d' \<longleftrightarrow>
   p_id r \<notin> p_id ` set (payments d) \<and> d' = d\<lparr>payments := payments d @ [r]\<rparr>"
  by (auto simp: insert_payment_def)

lemma insert_event_Inr [simp]:
  "insert_event r d = Inr d' \<longleftrightarrow>
   e_paymentId r \<in> p_id ` set (payments d) \<and> e_id r \<notin> e_id ` set (paymentEvents d)
   \<and> d' = d\<lparr>paymentEvents := paymentEvents d @ [r]\<rparr>"
  by (auto simp: insert_event_def)

lemma insert_idempotency_key_Inr [simp]:
  "insert_idempotency_key r d = Inr d' \<longleftrightarrow>
   i_paymentId r \<in> p_id ` set (payments d)
   \<and> (i_customerId r, idempotencyKey r) \<notin> (\<lambda>k. (i_customerId k, idempotencyKey k)) ` set (idempotencyKeys d)
   \<and> d' = d\<lparr>idempotencyKeys := idempotencyKeys d @ [r]\<rparr>"
  by (auto simp: insert_idempotency_key_def)

lemma insert_outbox_Inr [simp]:
  "insert_outbox r d = Inr d' \<longleftrightarrow>
   (o_id r, o_createdAt r) \<notin> (\<lambda>x. (o_id x, o_createdAt x)) ` set (outbox d)
   \<and> d' = d\<lparr>outbox := outbox d @ [r]\<rparr>"
  by (auto simp: insert_outbox_def)

lemma insert_delivery_Inr [simp]:
  "insert_delivery r d = Inr d' \<longleftrightarrow>
   endpointId r \<in> w_id ` set (webhookEndpoints d)
   \<and> (eventId r, endpointId r) \<notin> (\<lambda>w. (eventId w, endpointId w)) ` set (webhookDeliveries d)
   \<and> d_id r \<notin> d_id ` set (webhookDeliveries d)
   \<and> d' = d\<lparr>webhookDeliveries := webhookDeliveries d @ [r]\<rparr>"
  by (auto simp: insert_delivery_def)

lemma insert_events_Inr:
  "insert_events rs d = Inr d' \<longleftrightarrow>
   (\<forall>r \<in> set rs. e_paymentId r \<in> p_id ` set (payments d))
   \<and> distinct (map e_id rs) \<and> e_id ` set rs \<inter> e_id ` set (paymentEvents d) = {}
   \<and> d' = d\<lparr>paymentEvents := paymentEvents d @ rs\<rparr>"
  by (induction rs arbitrary: d) (auto simp: image_iff)

lemma insert_deliveries_Inr:
  "insert_deliveries rs d = Inr d' \<Longrightarrow>
   d' = d\<lparr>webhookDeliveries := webhookDeliveries d @ rs\<rparr>
   \<and> (\<forall>r \<in> set rs. endpointId r \<in> w_id ` set (webhookEndpoints d))"
  by (induction rs arbitrary: d) fastforce+

end
