(* ===== verification/JsNumber.thy ===== *)
theory JsNumber
  imports Prelude
begin

text \<open>
  JavaScript's \<open>Number\<close>: an IEEE-754 binary64 value, kept as the rational it denotes.
  \<open>f64 x\<close> is the double nearest to \<open>x\<close> (ties to even, gradual underflow), so the
  language's \<open>a * b\<close> on finite doubles is \<open>f64 (a * b)\<close>, and so on. Overflow to infinity
  is added where a value can reach it (the parser of environment variables, theory
  \<open>Config\<close>); the negative zero is not distinguished from zero. The lemmas show
  that rounding is monotone, exact on integers up to $2^{53}$, and how large its error is.
\<close>

subsection \<open>Binary exponents\<close>

fun log2n :: "nat \<Rightarrow> nat" where
  "log2n n = (if n < 2 then 0 else Suc (log2n (n div 2)))"

declare log2n.simps [simp del]

lemma log2n_bounds: "0 < n \<Longrightarrow> 2 ^ log2n n \<le> n \<and> n < 2 ^ Suc (log2n n)"
proof (induction n rule: log2n.induct)
  case (1 n)
  show ?case
  proof (cases "n < 2")
    case True
    with "1.prems" have "n = 1" by simp
    then show ?thesis by (simp add: log2n.simps)
  next
    case False
    then have "2 ^ log2n (n div 2) \<le> n div 2 \<and> n div 2 < 2 ^ Suc (log2n (n div 2))"
      using "1.IH" by simp
    moreover have "log2n n = Suc (log2n (n div 2))"
      using False by (simp add: log2n.simps [of n])
    ultimately show ?thesis by auto
  qed
qed

definition floor_log2 :: "rat \<Rightarrow> int" where
  "floor_log2 x =
     (let (p, q) = quotient_of x; e = int (log2n (nat p)) - int (log2n (nat q))
      in if 2 powi e \<le> x then e else e - 1)"

lemma powi_two_mono: "a \<le> b \<Longrightarrow> (2::rat) powi a \<le> 2 powi b"
  by (rule power_int_increasing) auto

lemma powi_two_add: "(2::rat) powi (a + b) = 2 powi a * 2 powi b"
  by (simp add: power_int_add)

lemma powi_two_diff: "(2::rat) powi (a - b) = 2 powi a / 2 powi b"
  by (simp add: power_int_diff)

lemma floor_log2_bounds:
  assumes "0 < x"
  shows "2 powi floor_log2 x \<le> x" and "x < 2 powi (floor_log2 x + 1)"
proof -
  obtain p q where pq: "quotient_of x = (p, q)" by (cases "quotient_of x")
  have q: "0 < q" using pq by (rule quotient_of_denom_pos)
  have x: "x = of_int p / of_int q" using pq by (rule quotient_of_div)
  with assms q have p: "0 < p" by (simp add: zero_less_divide_iff)
  define a b where "a = log2n (nat p)" and "b = log2n (nat q)"
  define e where "e = int a - int b"
  have bnd: "2 ^ a \<le> nat p" "nat p < 2 ^ Suc a" "2 ^ b \<le> nat q" "nat q < 2 ^ Suc b"
    using log2n_bounds [of "nat p"] log2n_bounds [of "nat q"] p q by (auto simp: a_def b_def)
  have "2 ^ a \<le> p" "p < 2 ^ Suc a" "2 ^ b \<le> q" "q < 2 ^ Suc b"
    using bnd p q by (simp_all add: nat_less_iff le_nat_iff)
  then have "of_int (2 ^ a) \<le> (of_int p :: rat)" "(of_int p :: rat) < of_int (2 ^ Suc a)"
    "of_int (2 ^ b) \<le> (of_int q :: rat)" "(of_int q :: rat) < of_int (2 ^ Suc b)"
    by (simp_all only: of_int_le_iff of_int_less_iff)
  then have P: "2 ^ a \<le> (of_int p :: rat)" "(of_int p :: rat) < 2 * 2 ^ a"
    and Q: "2 ^ b \<le> (of_int q :: rat)" "(of_int q :: rat) < 2 * 2 ^ b"
    by simp_all
  have e2: "(2::rat) powi e = 2 ^ a / 2 ^ b"
    by (simp add: e_def powi_two_diff)
  have "x < (2 * 2 ^ a) / of_int q"
    using P q by (simp add: x divide_strict_right_mono)
  also have "\<dots> \<le> (2 * 2 ^ a) / 2 ^ b"
    using Q(1) by (intro divide_left_mono) (auto simp: q)
  finally have up: "x < 2 * 2 powi e" by (simp add: e2)
  have "2 ^ a / (2 * 2 ^ b) < (2::rat) ^ a / of_int q"
    using Q(2) q by (intro divide_strict_left_mono) auto
  also have "\<dots> \<le> x"
    using P(1) q by (simp add: x divide_right_mono)
  finally have lo: "2 powi e / 2 < x" by (simp add: e2)
  have fl: "floor_log2 x = (if 2 powi e \<le> x then e else e - 1)"
    by (simp add: floor_log2_def pq e_def a_def b_def)
  show "2 powi floor_log2 x \<le> x" "x < 2 powi (floor_log2 x + 1)"
    using up lo by (auto simp: fl powi_two_diff power_int_add)
qed

lemma floor_log2_le:
  assumes "0 < x" "x < 2 powi (k + 1)"
  shows "floor_log2 x \<le> k"
proof (rule ccontr)
  assume "\<not> floor_log2 x \<le> k"
  then have "(2::rat) powi (k + 1) \<le> 2 powi floor_log2 x" by (intro powi_two_mono) simp
  with floor_log2_bounds(1) [OF assms(1)] assms(2) show False by simp
qed

lemma floor_log2_mono:
  assumes "0 < x" "x \<le> y"
  shows "floor_log2 x \<le> floor_log2 y"
  using assms floor_log2_bounds [of y] by (intro floor_log2_le) auto

subsection \<open>Rounding to an integer, ties to even\<close>

definition round_even :: "rat \<Rightarrow> int" where
  "round_even x =
     (let f = \<lfloor>x\<rfloor>; d = x - of_int f
      in if d < 1 / 2 then f else if 1 / 2 < d then f + 1
         else if even f then f else f + 1)"

lemma round_even_of_int [simp]: "round_even (of_int n) = n"
  by (simp add: round_even_def)

lemma round_even_cases: "round_even x = \<lfloor>x\<rfloor> \<or> round_even x = \<lfloor>x\<rfloor> + 1"
  by (auto simp: round_even_def Let_def)

lemma round_even_error: "\<bar>of_int (round_even x) - x\<bar> \<le> 1 / 2"
proof -
  have "of_int \<lfloor>x\<rfloor> \<le> x" "x < of_int \<lfloor>x\<rfloor> + 1" by linarith+
  then show ?thesis by (auto simp: round_even_def Let_def abs_le_iff)
qed

lemma round_even_mono:
  assumes "x \<le> y"
  shows "round_even x \<le> round_even y"
proof (cases "\<lfloor>x\<rfloor> = \<lfloor>y\<rfloor>")
  case True
  with assms show ?thesis by (auto simp: round_even_def Let_def)
next
  case False
  with assms have "\<lfloor>x\<rfloor> + 1 \<le> \<lfloor>y\<rfloor>" using floor_mono [OF assms] by linarith
  with round_even_cases [of x] round_even_cases [of y] show ?thesis by auto
qed

subsection \<open>Rounding to a double\<close>

definition f64_exp :: "rat \<Rightarrow> int" where
  "f64_exp x = max (floor_log2 x - 52) (- 1074)"

definition f64_pos :: "rat \<Rightarrow> rat" where
  "f64_pos x = of_int (round_even (x / 2 powi f64_exp x)) * 2 powi f64_exp x"

definition f64 :: "rat \<Rightarrow> rat" where
  "f64 x = (if x = 0 then 0 else if 0 < x then f64_pos x else - f64_pos (- x))"

lemma f64_pos_error:
  "\<bar>f64_pos x - x\<bar> \<le> 2 powi f64_exp x / 2"
proof -
  let ?u = "(2::rat) powi f64_exp x"
  have "f64_pos x - x = (of_int (round_even (x / ?u)) - x / ?u) * ?u"
    by (simp add: f64_pos_def algebra_simps)
  then have "\<bar>f64_pos x - x\<bar> = \<bar>of_int (round_even (x / ?u)) - x / ?u\<bar> * ?u"
    by (simp add: abs_mult)
  also have "\<dots> \<le> 1 / 2 * ?u"
    by (intro mult_right_mono round_even_error) simp
  finally show ?thesis by simp
qed

lemma f64_pos_exact:
  assumes "x = of_int m * 2 powi k" "f64_exp x \<le> k"
  shows "f64_pos x = x"
proof -
  define e where "e = f64_exp x"
  have "(2::rat) powi k = 2 powi (k - e) * 2 powi e"
    by (simp flip: powi_two_add)
  also have "(2::rat) powi (k - e) = of_int (2 ^ nat (k - e))"
    using assms(2) by (simp add: power_int_def e_def)
  finally have "x / 2 powi e = of_int (m * 2 ^ nat (k - e))"
    by (simp add: assms(1))
  moreover from this have "x = of_int (m * 2 ^ nat (k - e)) * 2 powi e"
    by (simp add: field_simps)
  ultimately show ?thesis
    unfolding f64_pos_def e_def [symmetric] by (simp only: round_even_of_int)
qed

lemma f64_pos_mono:
  assumes "0 < x" "x \<le> y"
  shows "f64_pos x \<le> f64_pos y"
proof -
  let ?ex = "f64_exp x" and ?ey = "f64_exp y"
  have le: "?ex \<le> ?ey" using floor_log2_mono [OF assms] by (auto simp: f64_exp_def)
  show ?thesis
  proof (cases "?ex = ?ey")
    case True
    with assms show ?thesis
      by (simp add: f64_pos_def round_even_mono divide_right_mono)
  next
    case False
    with le have lt: "?ex < ?ey" by simp
    then have ey: "?ey = floor_log2 y - 52" by (auto simp: f64_exp_def)
    have "x < 2 powi (floor_log2 x + 1)" using floor_log2_bounds assms by simp
    also have "\<dots> \<le> 2 powi (53 + ?ex)" by (intro powi_two_mono) (simp add: f64_exp_def)
    finally have "x / 2 powi ?ex \<le> of_int (2 ^ 53)"
      by (simp add: powi_two_add pos_divide_le_eq)
    then have "round_even (x / 2 powi ?ex) \<le> 2 ^ 53"
      using round_even_mono [of _ "of_int (2 ^ 53)"] by (metis round_even_of_int)
    then have "(of_int (round_even (x / 2 powi ?ex)) :: rat) \<le> of_int (2 ^ 53)"
      by (simp only: of_int_le_iff)
    then have "f64_pos x \<le> 2 ^ 53 * 2 powi ?ex"
      unfolding f64_pos_def by (intro mult_right_mono) simp_all
    also have "\<dots> = 2 powi (53 + ?ex)" by (simp add: powi_two_add)
    also have "\<dots> \<le> 2 powi (52 + ?ey)" using lt by (intro powi_two_mono) simp
    also have "\<dots> \<le> f64_pos y"
    proof -
      have "2 powi (52 + ?ey) \<le> y" using floor_log2_bounds(1) [of y] assms ey by simp
      then have "of_int (2 ^ 52) \<le> y / 2 powi ?ey"
        by (simp add: powi_two_add pos_le_divide_eq)
      then have "2 ^ 52 \<le> round_even (y / 2 powi ?ey)"
        using round_even_mono [of "of_int (2 ^ 52)"] by (metis round_even_of_int)
      then have "(of_int (2 ^ 52) :: rat) \<le> of_int (round_even (y / 2 powi ?ey))"
        by (simp only: of_int_le_iff)
      then have "of_int (2 ^ 52) * 2 powi ?ey \<le> f64_pos y"
        unfolding f64_pos_def by (intro mult_right_mono) simp_all
      then show ?thesis by (simp add: powi_two_add)
    qed
    finally show ?thesis .
  qed
qed

lemma f64_pos_nonneg: "0 < x \<Longrightarrow> 0 \<le> f64_pos x"
  using round_even_mono [of 0 "x / 2 powi f64_exp x"] round_even_of_int [of 0]
  by (simp add: f64_pos_def)

theorem f64_mono: "x \<le> y \<Longrightarrow> f64 x \<le> f64 y"
  using f64_pos_mono [of x y] f64_pos_mono [of "- y" "- x"]
    f64_pos_nonneg [of y] f64_pos_nonneg [of "- x"]
  by (auto simp: f64_def)

lemma f64_0 [simp]: "f64 0 = 0"
  by (simp add: f64_def)

lemma f64_pos_int:
  assumes "0 < n" "n \<le> 2 ^ 53"
  shows "f64_pos (of_int n) = of_int n"
proof (cases "n = 2 ^ 53")
  case True
  then have "floor_log2 (of_int n) \<le> 53" by (intro floor_log2_le) simp_all
  moreover have "(of_int n :: rat) = of_int (2 ^ 52) * 2 powi 1" using True by simp
  ultimately show ?thesis by (intro f64_pos_exact [of _ "2 ^ 52" 1]) (simp_all add: f64_exp_def)
next
  case False
  with assms have "(of_int n :: rat) < of_int (2 ^ 53)" by (simp only: of_int_less_iff)
  then have "floor_log2 (of_int n) \<le> 52" using assms by (intro floor_log2_le) simp_all
  then show ?thesis by (intro f64_pos_exact [of _ n 0]) (simp_all add: f64_exp_def)
qed

lemma f64_int: "\<bar>n\<bar> \<le> 2 ^ 53 \<Longrightarrow> f64 (of_int n) = of_int n"
  using f64_pos_int [of n] f64_pos_int [of "- n"] by (auto simp: f64_def)

lemma f64_nat: "n \<le> 2 ^ 53 \<Longrightarrow> f64 (of_nat n) = of_nat n"
  using f64_int [of "int n"] by simp

lemma f64_ge_int: "of_int n \<le> x \<Longrightarrow> \<bar>n\<bar> \<le> 2 ^ 53 \<Longrightarrow> of_int n \<le> f64 x"
  using f64_mono [of "of_int n" x] by (simp add: f64_int)

lemma f64_le_int: "x \<le> of_int n \<Longrightarrow> \<bar>n\<bar> \<le> 2 ^ 53 \<Longrightarrow> f64 x \<le> of_int n"
  using f64_mono [of x "of_int n"] by (simp add: f64_int)

lemma f64_nonneg: "0 \<le> x \<Longrightarrow> 0 \<le> f64 x"
  using f64_ge_int [of 0 x] by simp

text \<open>
  Halving a double is exact (above the subnormal range), and so is the double's own
  value: what \<open>f64\<close> returns is a fixed point. Only the error bound below a power of two
  is needed here.
\<close>

lemma f64_error:
  assumes "0 < x" "x < 2 powi (k + 1)" "- 1022 \<le> k"
  shows "\<bar>f64 x - x\<bar> \<le> 2 powi (k - 53)"
proof -
  have "f64_exp x \<le> k - 52"
    using floor_log2_le [OF assms(1,2)] assms(3) by (simp add: f64_exp_def)
  then have "(2::rat) powi f64_exp x / 2 \<le> 2 powi (k - 52) / 2"
    using powi_two_mono by simp
  also have "\<dots> = 2 powi (k - 53)"
    using powi_two_diff [of "k - 52" 1] by simp
  finally show ?thesis
    using f64_pos_error [of x] assms(1) by (simp add: f64_def)
qed

text \<open>
  \<open>Math.floor(v / 100)\<close> on a safe integer is the integer quotient: although \<open>v / 100\<close>
  is rounded, the error stays below the distance to the next integer.
\<close>

lemma floor_f64_div100:
  assumes "v < 2 ^ 53"
  shows "\<lfloor>f64 (of_nat v / 100)\<rfloor> = int (v div 100)"
proof (cases "v = 0")
  case True
  then show ?thesis by simp
next
  case False
  let ?x = "(of_nat v :: rat) / 100"
  let ?k = "v div 100"
  have "(of_nat v :: rat) < of_nat (2 ^ 53)"
    using assms by (simp only: of_nat_less_iff)
  then have "?x < 2 powi (46 + 1)" by simp
  then have err: "\<bar>f64 ?x - ?x\<bar> \<le> 2 powi (46 - 53)"
    using False by (intro f64_error) simp_all
  have "v = 100 * ?k + v mod 100" by simp
  then have v: "(of_nat v :: rat) = 100 * of_nat ?k + of_nat (v mod 100)"
    by (metis of_nat_add of_nat_mult of_nat_numeral)
  have r: "v mod 100 \<le> 99" by (simp add: less_Suc_eq_le [symmetric])
  then have r': "(of_nat (v mod 100) :: rat) \<le> 99"
    by (metis of_nat_le_iff of_nat_numeral)
  have "?x \<le> of_nat ?k + 99 / 100" using v r' by simp
  moreover have "(2::rat) powi (46 - 53) = 1 / 128"
    by (simp add: power_int_def power_one_over)
  ultimately have up: "f64 ?x < of_nat ?k + 1" using err by linarith
  have "of_int (int ?k) \<le> ?x" using v by simp
  moreover have "\<bar>int ?k\<bar> \<le> 2 ^ 53" using assms by simp
  ultimately have "of_int (int ?k) \<le> f64 ?x" by (rule f64_ge_int)
  with up show ?thesis by (intro floor_unique) simp_all
qed

subsection \<open>Numbers that can leave the finite range\<close>

datatype js_number = Fin rat | Infinite bool | NaN

definition js_finite :: "rat \<Rightarrow> js_number" where
  "js_finite v = (let r = f64 v in if 2 ^ 1024 \<le> \<bar>r\<bar> then Infinite (0 < r) else Fin r)"

fun js_mul :: "js_number \<Rightarrow> js_number \<Rightarrow> js_number" where
  "js_mul NaN _ = NaN"
| "js_mul _ NaN = NaN"
| "js_mul (Fin a) (Fin b) = js_finite (a * b)"
| "js_mul (Fin a) (Infinite s) = (if a = 0 then NaN else Infinite (s = (0 < a)))"
| "js_mul (Infinite s) (Fin b) = (if b = 0 then NaN else Infinite (s = (0 < b)))"
| "js_mul (Infinite s) (Infinite t) = Infinite (s = t)"

text \<open>\<open>Math.min\<close> of two numbers.\<close>

fun js_min :: "js_number \<Rightarrow> js_number \<Rightarrow> js_number" where
  "js_min NaN _ = NaN"
| "js_min _ NaN = NaN"
| "js_min (Fin a) (Fin b) = Fin (min a b)"
| "js_min (Infinite True) y = y"
| "js_min (Infinite False) _ = Infinite False"
| "js_min x (Infinite True) = x"
| "js_min _ (Infinite False) = Infinite False"

lemma f64_half_nat:
  assumes "n \<le> 2 ^ 53"
  shows "f64 (of_nat n / 2) = of_nat n / 2"
proof (cases "n = 0 \<or> n = 2 ^ 53")
  case True
  moreover have "f64 (of_int (2 ^ 52)) = of_int (2 ^ 52)" by (rule f64_int) simp
  ultimately show ?thesis by auto
next
  case False
  with assms have n: "0 < n" "n < 2 ^ 53" by auto
  then have "(of_nat n :: rat) < of_nat (2 ^ 53)" by (simp only: of_nat_less_iff)
  then have "floor_log2 (of_nat n / 2) \<le> 51"
    using n by (intro floor_log2_le) simp_all
  then have "f64_exp (of_nat n / 2) \<le> - 1" by (simp add: f64_exp_def)
  then have "f64_pos (of_nat n / 2) = of_nat n / 2"
    by (intro f64_pos_exact [of _ "int n" "- 1"]) (simp_all add: power_int_minus field_simps)
  with n show ?thesis by (simp add: f64_def)
qed

lemma js_finite_small: "\<bar>n\<bar> \<le> 2 ^ 53 \<Longrightarrow> js_finite (of_int n) = Fin (of_int n)"
proof -
  assume n: "\<bar>n\<bar> \<le> 2 ^ 53"
  then have "\<bar>of_int n :: rat\<bar> \<le> of_int (2 ^ 53)" by (simp only: of_int_abs [symmetric] of_int_le_iff)
  also have "(of_int (2 ^ 53) :: rat) < 2 ^ 1024"
    using power_strict_increasing [of 53 1024 "2::rat"] by simp
  finally show ?thesis using n by (simp add: js_finite_def f64_int)
qed

lemma js_finite_small_nat: "n \<le> 2 ^ 53 \<Longrightarrow> js_finite (of_nat n) = Fin (of_nat n)"
  using js_finite_small [of "int n"] by simp

end
