(* ===== verification/NumberParse.thy ===== *)
theory NumberParse
  imports JsNumber
begin

text \<open>
  \<open>Number(s)\<close>, JavaScript's conversion of a string to a number, as the configuration
  readers and the query-string transformers call it.
\<close>

text \<open>
  The conversion of a string to a number: blanks around are ignored, the empty string is
  zero, \<open>0x\<close>, \<open>0o\<close> and \<open>0b\<close> prefixes give unsigned integers, and otherwise a signed decimal
  literal with optional fraction and exponent, or \<open>Infinity\<close>, is expected.
\<close>

definition is_js_blank :: "char \<Rightarrow> bool" where
  "is_js_blank c \<longleftrightarrow> (let n = of_char c :: nat in (9 \<le> n \<and> n \<le> 13) \<or> n = 32 \<or> n = 160)"

definition js_trim :: "string \<Rightarrow> string" where
  "js_trim s = rev (dropWhile is_js_blank (rev (dropWhile is_js_blank s)))"

definition radix_digit :: "char \<Rightarrow> nat" where
  "radix_digit c =
     (let n = of_char c :: nat
      in if is_digit c then n - 48
         else if 97 \<le> n \<and> n \<le> 102 then n - 87
         else if 65 \<le> n \<and> n \<le> 70 then n - 55
         else 99)"

definition radix_literal :: "nat \<Rightarrow> string \<Rightarrow> js_number" where
  "radix_literal b s =
     (if s \<noteq> [] \<and> list_all (\<lambda>c. radix_digit c < b) s
      then js_finite (of_nat (foldl (\<lambda>v c. b * v + radix_digit c) 0 s)) else NaN)"

fun exponent_part :: "string \<Rightarrow> int option" where
  "exponent_part [] = Some 0"
| "exponent_part (e # s) =
     (if e \<noteq> CHR ''e'' \<and> e \<noteq> CHR ''E'' then None
      else let (neg, ds) = (case s of
                 CHR ''-'' # t \<Rightarrow> (True, t)
               | CHR ''+'' # t \<Rightarrow> (False, t)
               | _ \<Rightarrow> (False, s))
           in if ds \<noteq> [] \<and> list_all is_digit ds
              then Some (if neg then - int (digits_val ds) else int (digits_val ds))
              else None)"

definition unsigned_decimal :: "string \<Rightarrow> rat option" where
  "unsigned_decimal s =
     (let ip = takeWhile is_digit s; r1 = dropWhile is_digit s;
          (fp, r2) = (case r1 of
              CHR ''.'' # t \<Rightarrow> (takeWhile is_digit t, dropWhile is_digit t)
            | _ \<Rightarrow> ([], r1))
      in if ip = [] \<and> fp = [] then None
         else map_option (\<lambda>e. of_nat (digits_val (ip @ fp)) * 10 powi (e - int (length fp)))
                (exponent_part r2))"

definition decimal_literal :: "string \<Rightarrow> js_number" where
  "decimal_literal s =
     (let (neg, u) = (case s of
              CHR ''-'' # t \<Rightarrow> (True, t)
            | CHR ''+'' # t \<Rightarrow> (False, t)
            | _ \<Rightarrow> (False, s))
      in if u = ''Infinity'' then Infinite (\<not> neg)
         else case unsigned_decimal u of
           None \<Rightarrow> NaN
         | Some v \<Rightarrow> js_finite (if neg then - v else v))"

definition to_number :: "string \<Rightarrow> js_number" where
  "to_number s =
     (case js_trim s of
        [] \<Rightarrow> Fin 0
      | CHR ''0'' # CHR ''x'' # t \<Rightarrow> radix_literal 16 t
      | CHR ''0'' # CHR ''X'' # t \<Rightarrow> radix_literal 16 t
      | CHR ''0'' # CHR ''o'' # t \<Rightarrow> radix_literal 8 t
      | CHR ''0'' # CHR ''O'' # t \<Rightarrow> radix_literal 8 t
      | CHR ''0'' # CHR ''b'' # t \<Rightarrow> radix_literal 2 t
      | CHR ''0'' # CHR ''B'' # t \<Rightarrow> radix_literal 2 t
      | t \<Rightarrow> decimal_literal t)"

lemma to_number_Nil [simp]: "to_number [] = Fin 0"
  by (simp add: to_number_def js_trim_def)

end
