(* ===== verification/Http.thy ===== *)
theory Http
  imports Schema NumberParse
begin

text \<open>
  The HTTP edge of the API: request fields as the validation pipe sees them, the checks the
  DTO decorators declare, the problem documents of
  \<open>apps/api/src/common/problem-detail.filter.ts\<close>, and the correlation id of
  \<open>app.module.ts\<close>. A validation message, which the validator package words, is represented by
  the name of the property it is about.
\<close>

type_synonym fields = "(string \<times> json) list"

subsection \<open>Decorators\<close>

text \<open>A property that \<open>@IsOptional\<close> lets through: absent or null.\<close>

definition is_absent :: "json option \<Rightarrow> bool" where
  "is_absent v \<longleftrightarrow> v = None \<or> v = Some JNull"

fun is_string :: "json option \<Rightarrow> bool" where
  "is_string (Some (JStr s)) = True"
| "is_string _ = False"

fun string_satisfies :: "(string \<Rightarrow> bool) \<Rightarrow> json option \<Rightarrow> bool" where
  "string_satisfies p (Some (JStr s)) = p s"
| "string_satisfies p _ = False"

fun int_between :: "int \<Rightarrow> int \<Rightarrow> json option \<Rightarrow> bool" where
  "int_between lo hi (Some (JNum n)) = (lo \<le> n \<and> n \<le> hi)"
| "int_between lo hi _ = False"

text \<open>
  The global pipe: \<open>checks\<close> pairs each declared property with its decorators' test;
  properties that are not declared are refused (\<open>forbidNonWhitelisted\<close>).
\<close>

definition validate :: "(string \<times> (json option \<Rightarrow> bool)) list \<Rightarrow> fields \<Rightarrow> string list" where
  "validate checks fs =
     map fst (filter (\<lambda>f. fst f \<notin> set (map fst checks)) fs)
     @ map fst (filter (\<lambda>(p, ok). \<not> ok (map_of fs p)) checks)"

text \<open>A property after transformation: undefined, null, or a value.\<close>

datatype 'a field = Undefined | Null | Given 'a

fun str_field :: "json option \<Rightarrow> string field" where
  "str_field (Some (JStr s)) = Given s"
| "str_field (Some JNull) = Null"
| "str_field _ = Undefined"

fun nat_field :: "json option \<Rightarrow> int field" where
  "nat_field (Some (JNum n)) = Given n"
| "nat_field (Some JNull) = Null"
| "nat_field _ = Undefined"

fun field_opt :: "'a field \<Rightarrow> 'a option" where
  "field_opt (Given a) = Some a"
| "field_opt _ = None"

fun the_str :: "json option \<Rightarrow> string" where
  "the_str (Some (JStr s)) = s"
| "the_str _ = []"

subsection \<open>Query-string limits\<close>

text \<open>
  \<open>@Type(() => Number) @IsInt @IsOptional @Min(1) @Max(100) limit = 20\<close>: the default when the
  parameter is absent, else its value as a number when that is an integer in range.
\<close>

definition parse_limit :: "string option \<Rightarrow> nat option" where
  "parse_limit q =
     (case q of
        None \<Rightarrow> Some 20
      | Some s \<Rightarrow>
          (case to_number s of
             Fin n \<Rightarrow> if of_int \<lfloor>n\<rfloor> = n \<and> 1 \<le> n \<and> n \<le> 100 then Some (nat \<lfloor>n\<rfloor>) else None
           | _ \<Rightarrow> None))"

lemma parse_limit_range:
  assumes "parse_limit q = Some n"
  shows "1 \<le> n \<and> n \<le> 100"
proof (cases q)
  case None
  with assms show ?thesis by (simp add: parse_limit_def)
next
  case (Some s)
  with assms show ?thesis
    by (auto simp: parse_limit_def split: js_number.splits if_splits)
qed

subsection \<open>Problem documents\<close>

record problem_doc =
  pd_type :: string
  pd_title :: "string option"
  pd_status :: nat
  pd_detail :: string
  pd_errors :: "string list option"
  pd_instance :: string

text \<open>The entries of Node's STATUS_CODES for the statuses the API answers with.\<close>

definition STATUS_CODES :: "nat \<Rightarrow> string option" where
  "STATUS_CODES s =
     map_of [(200, ''OK''), (201, ''Created''), (202, ''Accepted''), (204, ''No Content''), (400, ''Bad Request''),
       (404, ''Not Found''), (409, ''Conflict''), (500, ''Internal Server Error''),
       (503, ''Service Unavailable'')] s"

text \<open>
  \<open>ProblemDetailFilter.catch\<close>. A Nest exception built from a string answers with that string
  as \<open>message\<close>; the one of the validation pipe has status 400 and a list of messages.
\<close>

definition problem_of :: "string \<Rightarrow> js_error \<Rightarrow> problem_doc" where
  "problem_of inst ex =
     (let (st, detail, errors) =
        (case ex of
           HttpException s msg \<Rightarrow> (s, msg, None)
         | ValidationException msgs \<Rightarrow> (400, ''Validation Error'', Some msgs)
         | _ \<Rightarrow> (500, ''Internal server error occurred'', None))
      in \<lparr>pd_type = ''about:blank'', pd_title = STATUS_CODES st, pd_status = st,
          pd_detail = detail, pd_errors = errors, pd_instance = inst\<rparr>)"

lemma problem_status:
  "pd_status (problem_of u ex) = (case ex of HttpException s _ \<Rightarrow> s
     | ValidationException _ \<Rightarrow> 400 | _ \<Rightarrow> 500)"
  by (simp add: problem_of_def split: js_error.splits)

text \<open>No text of an internal error reaches the client.\<close>

lemma problem_opaque:
  "pd_status (problem_of u ex) = 500 \<Longrightarrow> (\<And>m. ex \<noteq> HttpException 500 m) \<Longrightarrow>
   pd_detail (problem_of u ex) = ''Internal server error occurred''"
  by (auto simp: problem_of_def split: js_error.splits)

subsection \<open>Correlation ids\<close>

text \<open>\<open>genReqId\<close>: the trimmed header when it is not blank, else a fresh ULID.\<close>

definition genReqId :: "string option \<Rightarrow> string \<Rightarrow> string" where
  "genReqId header fresh =
     (case header of
        Some h \<Rightarrow> if js_trim h = [] then fresh else js_trim h
      | None \<Rightarrow> fresh)"

lemma genReqId_nonempty: "fresh \<noteq> [] \<Longrightarrow> genReqId h fresh \<noteq> []"
  by (auto simp: genReqId_def split: option.splits)

end
