(* ===== verification/Money.thy ===== *)
theory Money
  imports JsNumber
begin

text \<open>
  The money mapper of \<open>packages/shared/src/index.ts\<close>: amounts are parsed from decimal
  strings to integer cents and printed back. The arithmetic is the one the code runs, on
  doubles; the lemmas show that it is exact wherever the result is accepted.
\<close>

definition MAX_SAFE_INTEGER :: int where
  "MAX_SAFE_INTEGER = 2 ^ 53 - 1"

definition isInteger :: "rat \<Rightarrow> bool" where
  "isInteger x = (of_int \<lfloor>x\<rfloor> = x)"

definition isSafeInteger :: "rat \<Rightarrow> bool" where
  "isSafeInteger x = (isInteger x \<and> \<bar>x\<bar> \<le> of_int MAX_SAFE_INTEGER)"

text \<open>
  \<open>amount.match(/^(\d+)(?:\.(\d{1,2}))?$/)\<close>: the two groups, the second absent
  when the optional part does not take part in the match.
\<close>

definition match_amount :: "string \<Rightarrow> (string \<times> string option) option" where
  "match_amount s =
     (let dollars = takeWhile is_digit s; rest = dropWhile is_digit s
      in if dollars = [] then None
         else case rest of
           [] \<Rightarrow> Some (dollars, None)
         | c # cents \<Rightarrow>
             if c = CHR ''.'' \<and> 1 \<le> length cents \<and> length cents \<le> 2
                \<and> list_all is_digit cents
             then Some (dollars, Some cents) else None)"

text \<open>\<open>Number(s)\<close> of a string of digits (at most 20 of them): the nearest double.\<close>

definition Number_digits :: "string \<Rightarrow> rat" where
  "Number_digits s = f64 (of_nat (digits_val s))"

definition convAmountToUnits :: "string \<Rightarrow> rat result" where
  "convAmountToUnits amount =
     (if length amount > 20 then Inl (PlainError ''Amount input string too long'')
      else case match_amount amount of
        None \<Rightarrow> Inl (PlainError (''Invalid amount string format: '' @ amount))
      | Some (dollars, cents) \<Rightarrow>
          let padCents = pad_end 2 (CHR ''0'') (case cents of None \<Rightarrow> [] | Some c \<Rightarrow> c);
              res = f64 (f64 (Number_digits dollars * 100) + Number_digits padCents)
          in if \<not> isSafeInteger res
             then Inl (PlainError (''Amount exceeds safe int range: '' @ amount))
             else Inr res)"

definition convUnitsToAmount :: "rat \<Rightarrow> string result" where
  "convUnitsToAmount cents =
     (if \<not> isInteger cents then Inl (PlainError ''Cents number must be integer'')
      else let val = \<bar>cents\<bar>;
               dollars = \<lfloor>f64 (val / 100)\<rfloor>;
               rem = \<lfloor>val\<rfloor> mod 100
           in Inr (nat_str (nat dollars) @ ''.''
                   @ pad_start 2 (CHR ''0'') (nat_str (nat rem))))"

subsection \<open>The arithmetic is exact\<close>

text \<open>The cents an accepted amount denotes, in exact arithmetic.\<close>

definition exact_cents :: "string \<Rightarrow> string option \<Rightarrow> nat" where
  "exact_cents dollars cents =
     digits_val dollars * 100
     + digits_val (pad_end 2 (CHR ''0'') (case cents of None \<Rightarrow> [] | Some c \<Rightarrow> c))"

lemma isInteger_of_nat [simp]: "isInteger (of_nat n)" "isInteger (of_int i)"
  by (simp_all add: isInteger_def)

lemma isSafeInteger_of_nat: "isSafeInteger (of_nat n) \<longleftrightarrow> n \<le> 2 ^ 53 - 1"
proof -
  have "(of_nat n :: rat) \<le> of_int (2 ^ 53 - 1) \<longleftrightarrow> int n \<le> 2 ^ 53 - 1"
    by (metis of_int_le_iff of_int_of_nat_eq)
  then show ?thesis
    by (auto simp: isSafeInteger_def MAX_SAFE_INTEGER_def simp del: of_int_diff)
qed

lemma not_isSafeInteger_ge: "2 ^ 53 \<le> x \<Longrightarrow> \<not> isSafeInteger x"
  by (simp add: isSafeInteger_def MAX_SAFE_INTEGER_def)

lemma f64_ge_53: "2 ^ 53 \<le> x \<Longrightarrow> 2 ^ 53 \<le> f64 x"
  using f64_ge_int [of "2 ^ 53" x] by simp

text \<open>
  The double computation of \<open>d * 100 + c\<close> gives the exact integer when that is safe, and
  an unsafe number when it is not: rounding never brings an unsafe amount back into range.
\<close>

lemma f64_cents:
  fixes d c :: nat
  assumes c: "c \<le> 99"
  defines "r \<equiv> f64 (f64 (f64 (of_nat d) * 100) + f64 (of_nat c))"
  shows "d * 100 + c \<le> 2 ^ 53 - 1 \<Longrightarrow> r = of_nat (d * 100 + c)"
    and "\<not> d * 100 + c \<le> 2 ^ 53 - 1 \<Longrightarrow> \<not> isSafeInteger r"
proof -
  have fc: "f64 (of_nat c) = of_nat c" using c by (intro f64_nat) simp
  {
    assume safe: "d * 100 + c \<le> 2 ^ 53 - 1"
    then have "f64 (of_nat d) = of_nat d" by (intro f64_nat) simp
    moreover have "f64 (of_nat (d * 100)) = of_nat (d * 100)"
      using safe by (intro f64_nat) simp
    moreover have "f64 (of_nat (d * 100 + c)) = of_nat (d * 100 + c)"
      using safe by (intro f64_nat) simp
    ultimately show "r = of_nat (d * 100 + c)" by (simp add: r_def fc)
  }
  {
    assume "\<not> d * 100 + c \<le> 2 ^ 53 - 1"
    then have big: "2 ^ 53 \<le> d * 100 + c" by simp
    have "2 ^ 53 \<le> f64 (f64 (of_nat d) * 100) + of_nat c"
    proof (cases "2 ^ 53 \<le> d * 100")
      case True
      have "of_nat (min d (2 ^ 53)) \<le> f64 (of_nat d)"
        using f64_ge_int [of "int (min d (2 ^ 53))" "of_nat d"] by simp
      then have "of_nat (min d (2 ^ 53) * 100) \<le> f64 (of_nat d) * 100"
        by (simp add: mult_right_mono)
      moreover have "2 ^ 53 \<le> min d (2 ^ 53) * 100" using True by simp
      then have "(of_nat (2 ^ 53) :: rat) \<le> of_nat (min d (2 ^ 53) * 100)"
        by (simp only: of_nat_le_iff)
      ultimately have "2 ^ 53 \<le> f64 (of_nat d) * 100" by simp
      then have "2 ^ 53 \<le> f64 (f64 (of_nat d) * 100)" by (rule f64_ge_53)
      then show ?thesis by (simp add: add_increasing2)
    next
      case False
      then have "f64 (of_nat d) = of_nat d" by (intro f64_nat) simp
      moreover have "f64 (of_nat (d * 100)) = of_nat (d * 100)"
        using False by (intro f64_nat) simp
      moreover have "(of_nat (2 ^ 53) :: rat) \<le> of_nat (d * 100 + c)"
        using big by (simp only: of_nat_le_iff)
      ultimately show ?thesis by simp
    qed
    then have "2 ^ 53 \<le> r" unfolding r_def fc by (rule f64_ge_53)
    then show "\<not> isSafeInteger r" by (rule not_isSafeInteger_ge)
  }
qed

subsection \<open>What the parser accepts\<close>

lemma match_amount_Some:
  "match_amount s = Some (d, c) \<longleftrightarrow>
   d \<noteq> [] \<and> list_all is_digit d \<and>
   (case c of None \<Rightarrow> s = d
    | Some f \<Rightarrow> s = d @ ''.'' @ f \<and> f \<noteq> [] \<and> length f \<le> 2 \<and> list_all is_digit f)"
  (is "?lhs \<longleftrightarrow> ?rhs")
proof
  assume l: ?lhs
  have app: "s = takeWhile is_digit s @ dropWhile is_digit s" by simp
  have dig: "list_all is_digit (takeWhile is_digit s)"
    by (auto simp: list_all_iff dest: set_takeWhileD)
  show ?rhs
  proof (cases "dropWhile is_digit s")
    case Nil
    with app have "takeWhile is_digit s = s" by simp
    with l dig Nil show ?thesis by (auto simp: match_amount_def Let_def split: if_splits)
  next
    case (Cons x f)
    then have "s = takeWhile is_digit s @ x # f" using app by simp
    with l dig Cons show ?thesis by (auto simp: match_amount_def Let_def split: if_splits)
  qed
next
  assume r: ?rhs
  then have d: "\<forall>x \<in> set d. is_digit x" by (simp add: list_all_iff)
  have dot: "\<not> is_digit (CHR ''.'')" by (simp add: is_digit_def)
  show ?lhs
  proof (cases c)
    case None
    with r have "s = d" by simp
    have tw: "takeWhile is_digit d = d" and dw: "dropWhile is_digit d = []" using d by auto
    show ?thesis
      unfolding match_amount_def Let_def \<open>s = d\<close> tw dw using r None by simp
  next
    case (Some f)
    with r have s: "s = d @ CHR ''.'' # f" by simp
    with d dot have "takeWhile is_digit s = d" "dropWhile is_digit s = CHR ''.'' # f"
      by (simp_all add: takeWhile_append2 dropWhile_append2)
    with r Some show ?thesis by (cases f) (auto simp: match_amount_def Let_def)
  qed
qed

lemma digits_val_append: "digits_val (s @ t) = digits_val s * 10 ^ length t + digits_val t"
proof (induction t rule: rev_induct)
  case (snoc c t)
  have "digits_val (s @ t @ [c]) = 10 * digits_val (s @ t) + digit_val c"
    using digits_val_snoc [of "s @ t" c] by simp
  with snoc show ?case by (simp add: algebra_simps)
qed simp

lemma digits_val_bound: "list_all is_digit s \<Longrightarrow> digits_val s < 10 ^ length s"
proof (induction s rule: rev_induct)
  case (snoc c s)
  then have "digits_val s + 1 \<le> 10 ^ length s" "digit_val c < 10"
    by (simp_all add: digit_val_bound)
  then show ?case by simp
qed simp

lemma cents_le_99:
  assumes "match_amount s = Some (d, c)"
  shows "digits_val (pad_end 2 (CHR ''0'') (case c of None \<Rightarrow> [] | Some f \<Rightarrow> f)) \<le> 99"
proof -
  let ?p = "pad_end 2 (CHR ''0'') (case c of None \<Rightarrow> [] | Some f \<Rightarrow> f)"
  have z: "is_digit (CHR ''0'')" by (simp add: is_digit_def)
  have "list_all is_digit ?p" and "length ?p = 2"
    using assms z by (auto simp: match_amount_Some pad_end_def list_all_iff split: option.splits)
  then have "digits_val ?p < 10 ^ 2" by (metis digits_val_bound)
  then show ?thesis by simp
qed

text \<open>\<open>convAmountToUnits\<close> computes the exact cents, or refuses.\<close>

lemma convAmountToUnits_exact:
  "convAmountToUnits s =
     (if length s > 20 then Inl (PlainError ''Amount input string too long'')
      else case match_amount s of
        None \<Rightarrow> Inl (PlainError (''Invalid amount string format: '' @ s))
      | Some (d, c) \<Rightarrow>
          if exact_cents d c \<le> 2 ^ 53 - 1 then Inr (of_nat (exact_cents d c))
          else Inl (PlainError (''Amount exceeds safe int range: '' @ s)))"
proof (cases "match_amount s")
  case None
  then show ?thesis by (simp add: convAmountToUnits_def)
next
  case (Some dc)
  obtain d c where dc: "match_amount s = Some (d, c)" using Some by (cases dc) auto
  define n where "n = digits_val (pad_end 2 (CHR ''0'') (case c of None \<Rightarrow> [] | Some f \<Rightarrow> f))"
  have n: "n \<le> 99" unfolding n_def by (rule cents_le_99 [OF dc])
  let ?r = "f64 (f64 (f64 (of_nat (digits_val d)) * 100) + f64 (of_nat n))"
  have ex: "exact_cents d c = digits_val d * 100 + n" by (simp add: exact_cents_def n_def)
  have "?r = of_nat (exact_cents d c)" if "exact_cents d c \<le> 2 ^ 53 - 1"
    using f64_cents(1) [OF n] that unfolding ex .
  moreover have "\<not> isSafeInteger ?r" if "\<not> exact_cents d c \<le> 2 ^ 53 - 1"
    using f64_cents(2) [OF n] that unfolding ex .
  moreover have "isSafeInteger (of_nat (exact_cents d c)) \<longleftrightarrow> exact_cents d c \<le> 2 ^ 53 - 1"
    by (rule isSafeInteger_of_nat)
  ultimately show ?thesis
    unfolding convAmountToUnits_def dc Number_digits_def Let_def
      option.case prod.case n_def [symmetric]
    by (cases "exact_cents d c \<le> 2 ^ 53 - 1") (simp_all del: One_nat_def)
qed

lemma convAmountToUnits_nonneg_int:
  assumes "convAmountToUnits s = Inr r"
  shows "\<exists>n :: nat. r = of_nat n \<and> n \<le> 2 ^ 53 - 1"
  using assms by (auto simp: convAmountToUnits_exact split: if_splits option.splits)

subsection \<open>Printing\<close>

text \<open>The string printed for a safe non-negative number of cents.\<close>

definition amount_str :: "nat \<Rightarrow> string" where
  "amount_str n = nat_str (n div 100) @ ''.'' @ pad_start 2 (CHR ''0'') (nat_str (n mod 100))"

lemma convUnitsToAmount_nat:
  assumes "n \<le> 2 ^ 53 - 1"
  shows "convUnitsToAmount (of_nat n) = Inr (amount_str n)"
proof -
  have "\<lfloor>f64 (of_nat n / 100)\<rfloor> = int (n div 100)"
    using assms by (intro floor_f64_div100) simp
  moreover have "\<lfloor>(of_nat n :: rat)\<rfloor> mod 100 = int (n mod 100)"
    by (simp add: zmod_int)
  ultimately show ?thesis
    by (simp add: convUnitsToAmount_def amount_str_def Let_def)
qed

lemma nat_str_two:
  assumes "r < 100"
  defines "p \<equiv> pad_start 2 (CHR ''0'') (nat_str r)"
  shows "length p = 2" "list_all is_digit p" "digits_val p = r"
  using pad_digits [of r 2] assms by simp_all

lemma match_amount_str:
  "match_amount (amount_str n)
   = Some (nat_str (n div 100), Some (pad_start 2 (CHR ''0'') (nat_str (n mod 100))))"
proof -
  have "list_all is_digit (nat_str (n div 100))" by (auto simp: list_all_iff nat_str_digits)
  then show ?thesis
    using nat_str_two [of "n mod 100"] by (auto simp: match_amount_Some amount_str_def)
qed

lemma length_amount_str:
  assumes "n \<le> 2 ^ 53 - 1"
  shows "length (amount_str n) \<le> 17"
proof -
  have "n div 100 < 10 ^ 14" using assms by simp
  then have "length (nat_str (n div 100)) \<le> 14" by (rule length_nat_str) simp
  then show ?thesis using nat_str_two(1) [of "n mod 100"] by (simp add: amount_str_def)
qed

lemma convAmountToUnits_amount_str:
  assumes "n \<le> 2 ^ 53 - 1"
  shows "convAmountToUnits (amount_str n) = Inr (of_nat n)"
proof -
  let ?p = "pad_start 2 (CHR ''0'') (nat_str (n mod 100))"
  have "pad_end 2 (CHR ''0'') ?p = ?p"
    using nat_str_two(1) [of "n mod 100"] by (simp add: pad_end_def)
  then have "exact_cents (nat_str (n div 100)) (Some ?p) = n"
    using nat_str_two(3) [of "n mod 100"] by (simp add: exact_cents_def)
  then show ?thesis
    using assms length_amount_str [OF assms]
    by (simp add: convAmountToUnits_exact match_amount_str)
qed

text \<open>A digit string without a leading zero is the print of its value.\<close>

definition canonical_digits :: "string \<Rightarrow> bool" where
  "canonical_digits d \<longleftrightarrow>
     d \<noteq> [] \<and> list_all is_digit d \<and> (hd d \<noteq> CHR ''0'' \<or> length d = 1)"

lemma digit_char_0: "digit_char 0 = CHR ''0''"
  by code_simp

lemma digit_val_0: "is_digit c \<Longrightarrow> digit_val c = 0 \<longleftrightarrow> c = CHR ''0''"
proof
  assume "is_digit c" "digit_val c = 0"
  then have "digit_char 0 = c" using digit_char_val by metis
  then show "c = CHR ''0''" by (simp add: digit_char_0)
qed (simp add: digit_val_def)

lemma nat_str_digits_val: "canonical_digits d \<Longrightarrow> nat_str (digits_val d) = d"
proof (induction d rule: rev_induct)
  case Nil
  then show ?case by (simp add: canonical_digits_def)
next
  case (snoc c d)
  have c: "is_digit c" and dd: "list_all is_digit d"
    using snoc.prems by (simp_all add: canonical_digits_def)
  show ?case
  proof (cases "d = []")
    case True
    with c show ?thesis
      by (simp add: digits_val_def nat_str_small digit_val_bound)
  next
    case False
    with snoc.prems have h: "hd d \<noteq> CHR ''0''" by (simp add: canonical_digits_def)
    then have "canonical_digits d" using False dd by (simp add: canonical_digits_def)
    then have IH: "nat_str (digits_val d) = d" by (rule snoc.IH)
    have "digits_val d \<noteq> 0"
    proof
      assume "digits_val d = 0"
      with IH have "d = [digit_char 0]" by (simp add: nat_str_small)
      with h show False by (simp add: digit_char_0)
    qed
    then show ?thesis using IH c by (simp add: nat_str_step digit_val_bound)
  qed
qed

lemma two_digits_canonical:
  assumes "length f = 2" "list_all is_digit f"
  shows "pad_start 2 (CHR ''0'') (nat_str (digits_val f)) = f"
proof -
  obtain a b where f: "f = [a, b]"
    using assms(1) by (auto simp: length_Suc_conv numeral_2_eq_2)
  show ?thesis
  proof (cases "a = CHR ''0''")
    case True
    with assms f have "digits_val f = digit_val b" "is_digit b"
      by (simp_all add: digits_val_def digit_val_def)
    with True f show ?thesis
      by (simp add: nat_str_small digit_val_bound pad_start_def)
  next
    case False
    then have "canonical_digits f" using assms f by (simp add: canonical_digits_def)
    then show ?thesis using assms(1) by (simp add: nat_str_digits_val pad_start_def)
  qed
qed

lemma print_parse_canonical:
  assumes "canonical_digits d" "length f = 2" "list_all is_digit f"
    and "convAmountToUnits (d @ ''.'' @ f) = Inr r"
  shows "convUnitsToAmount r = Inr (d @ ''.'' @ f)"
proof -
  have "match_amount (d @ ''.'' @ f) = Some (d, Some f)"
    using assms by (auto simp: match_amount_Some canonical_digits_def)
  moreover have "pad_end 2 (CHR ''0'') f = f" using assms(2) by (simp add: pad_end_def)
  ultimately have r: "r = of_nat (exact_cents d (Some f))"
    and le: "exact_cents d (Some f) \<le> 2 ^ 53 - 1"
    and ex: "exact_cents d (Some f) = digits_val d * 100 + digits_val f"
    using assms(4) by (auto simp: convAmountToUnits_exact exact_cents_def split: if_splits)
  have "digits_val f < 10 ^ 2" using digits_val_bound [OF assms(3)] assms(2) by simp
  then have "exact_cents d (Some f) div 100 = digits_val d"
    "exact_cents d (Some f) mod 100 = digits_val f" by (simp_all add: ex)
  then show ?thesis
    using le assms(1-3) by (simp add: r convUnitsToAmount_nat amount_str_def
        nat_str_digits_val two_digits_canonical)
qed

end
