(* ===== verification/Pagination.thy ===== *)
theory Pagination
  imports Prelude "HOL-Library.List_Lexorder" "HOL-Library.Char_ord"
begin

text \<open>
  Keyset pagination, as both list endpoints do it: the service selects one row more than
  the limit, in descending order of the id and below the cursor; the controller drops the
  extra row and hands out the id of the last row kept as the next cursor. The locale
  \<open>keyset_source\<close> is what the controller relies on; following the cursors from the start
  then lists every row exactly once. Ids are compared as the database compares them, here
  by the order of their characters.
\<close>

definition below_cursor :: "('r \<Rightarrow> string) \<Rightarrow> string option \<Rightarrow> 'r \<Rightarrow> bool" where
  "below_cursor key cur r = (case cur of None \<Rightarrow> True | Some c \<Rightarrow> key r < c)"

text \<open>The controllers' split of \<open>limit + 1\<close> rows into a page and its next cursor.\<close>

definition page_of :: "('r \<Rightarrow> string) \<Rightarrow> nat \<Rightarrow> 'r list \<Rightarrow> 'r list \<times> string option" where
  "page_of key psize rows =
     (if length rows = psize + 1
      then (take psize rows, Some (key (rows ! (length rows - 2))))
      else (rows, None))"

text \<open>A client that follows the cursors for at most \<open>fuel\<close> pages.\<close>

fun follow :: "(string option \<Rightarrow> 'r list \<times> string option) \<Rightarrow> nat \<Rightarrow> string option
  \<Rightarrow> 'r list list option" where
  "follow page 0 cur = None"
| "follow page (Suc fuel) cur =
     (case page cur of
        (rows, None) \<Rightarrow> Some [rows]
      | (rows, Some c) \<Rightarrow> map_option (\<lambda>ps. rows # ps) (follow page fuel (Some c)))"

lemma sorted_wrt_rev_sort_key:
  fixes key :: "'r \<Rightarrow> string"
  assumes "distinct (map key t)"
  shows "sorted_wrt (\<lambda>a b. key b < key a) (order_by_desc key t)"
proof -
  have "sorted (map key (sort_key key t))" by simp
  moreover have "distinct (map key (sort_key key t))" using assms by (simp add: distinct_map)
  ultimately have "sorted_wrt (<) (map key (sort_key key t))"
    by (simp add: strict_sorted_iff)
  then show ?thesis by (simp add: order_by_desc_def sorted_wrt_rev sorted_wrt_map)
qed

lemma filter_sort_key: "filter p (sort_key key t) = sort_key key (filter p t)"
  by (induction t) (auto simp: filter_insort_triv filter_insort)

lemma filter_order_by_desc: "filter p (order_by_desc key t) = order_by_desc key (filter p t)"
  by (simp add: order_by_desc_def rev_filter [symmetric] filter_sort_key)

lemma sorted_wrt_filter_below:
  fixes key :: "'r \<Rightarrow> string"
  assumes "sorted_wrt (\<lambda>a b. key b < key a) (xs @ x # ys)"
  shows "filter (\<lambda>r. key r < key x) (xs @ x # ys) = ys"
proof -
  have "\<forall>r \<in> set xs. \<not> key r < key x" "\<forall>r \<in> set ys. key r < key x"
    using assms by (auto simp: sorted_wrt_append)
  then show ?thesis by simp
qed

locale keyset_source =
  fixes key :: "'r \<Rightarrow> string"
    and query :: "'f \<Rightarrow> string option \<Rightarrow> nat \<Rightarrow> 't \<Rightarrow> 'r list"
    and rows :: "'f \<Rightarrow> 't \<Rightarrow> 'r list"
    and table_wf :: "'t \<Rightarrow> bool"
  assumes query_spec: "table_wf t \<Longrightarrow> cur \<noteq> Some [] \<Longrightarrow>
      query f cur n t = take (n + 1) (filter (below_cursor key cur) (rows f t))"
    and rows_desc: "table_wf t \<Longrightarrow> sorted_wrt (\<lambda>a b. key b < key a) (rows f t)"
    and rows_keys: "table_wf t \<Longrightarrow> r \<in> set (rows f t) \<Longrightarrow> key r \<noteq> []"
begin

lemma page_rest:
  assumes wf: "table_wf t" and cur: "cur \<noteq> Some []" and psz: "1 \<le> psize"
    and rest: "filter (below_cursor key cur) (rows f t) = rs"
    and page: "page_of key psize (query f cur psize t) = (p, nxt)"
  shows "case nxt of
      None \<Rightarrow> p = rs
    | Some c \<Rightarrow> p = take psize rs \<and> psize < length rs \<and> c \<noteq> []
        \<and> filter (below_cursor key (Some c)) (rows f t) = drop psize rs"
proof -
  have q: "query f cur psize t = take (psize + 1) rs"
    using query_spec [OF wf cur, of f psize] rest by simp
  have pg: "page_of key psize (take (psize + 1) rs) = (p, nxt)" using page unfolding q .
  show ?thesis
  proof (cases "psize < length rs")
    case False
    then show ?thesis using pg by (auto simp: page_of_def)
  next
    case True
    define x where "x = rs ! (psize - 1)"
    have "rs = take (psize - 1) rs @ x # drop psize rs"
      using True psz id_take_nth_drop [of "psize - 1" rs] by (simp add: x_def)
    moreover have "sorted_wrt (\<lambda>a b. key b < key a) rs"
      using sorted_wrt_filter [OF rows_desc [OF wf]] rest by metis
    ultimately have d: "filter (\<lambda>r. key r < key x) rs = drop psize rs"
      by (metis sorted_wrt_filter_below)
    have xin: "x \<in> set rs" using True psz by (simp add: x_def)
    then have xr: "x \<in> set (rows f t)" "below_cursor key cur x" using rest by auto
    have imp: "below_cursor key cur r" if "key r < key x" for r
      using xr(2) that by (auto simp: below_cursor_def split: option.splits)
    have "filter (below_cursor key (Some (key x))) (rows f t)
        = filter (\<lambda>r. key r < key x) (filter (below_cursor key cur) (rows f t))"
      using imp by (auto simp: below_cursor_def intro!: filter_cong)
    then have "filter (below_cursor key (Some (key x))) (rows f t) = drop psize rs"
      using d rest by simp
    moreover have "length (take (psize + 1) rs) = psize + 1" using True by simp
    then have "(p, nxt) = (take psize rs, Some (key (take (psize + 1) rs ! (psize - 1))))"
      using pg by (simp add: page_of_def min_def)
    then have "p = take psize rs" "nxt = Some (key x)"
      using psz by (simp_all add: x_def)
    ultimately show ?thesis using True rows_keys [OF wf xr(1)] by simp
  qed
qed

lemma follow_all:
  assumes wf: "table_wf t" and psz: "1 \<le> psize"
  shows "cur \<noteq> Some [] \<Longrightarrow> filter (below_cursor key cur) (rows f t) = rs \<Longrightarrow> length rs < fuel \<Longrightarrow>
    \<exists>ps. follow (\<lambda>c. page_of key psize (query f c psize t)) fuel cur = Some ps \<and> concat ps = rs
      \<and> (\<forall>p \<in> set ps. length p \<le> psize)"
proof (induction fuel arbitrary: cur rs)
  case 0
  then show ?case by simp
next
  case (Suc fuel)
  obtain p nxt where pg: "page_of key psize (query f cur psize t) = (p, nxt)" by fastforce
  note rest = page_rest [OF wf Suc.prems(1) psz Suc.prems(2) pg]
  show ?case
  proof (cases nxt)
    case None
    have "length (query f cur psize t) \<le> psize + 1"
      using query_spec [OF wf Suc.prems(1)] by simp
    then have "length p \<le> psize" using pg None by (auto simp: page_of_def split: if_splits)
    then show ?thesis using rest pg None by simp
  next
    case (Some c)
    with rest have c: "p = take psize rs" "psize < length rs" "Some c \<noteq> Some []"
      "filter (below_cursor key (Some c)) (rows f t) = drop psize rs" by auto
    have "length (drop psize rs) < fuel" using Suc.prems(3) c(2) psz by simp
    from Suc.IH [OF c(3,4) this] obtain ps where
      "follow (\<lambda>c. page_of key psize (query f c psize t)) fuel (Some c) = Some ps"
      "concat ps = drop psize rs" "\<forall>p \<in> set ps. length p \<le> psize" by blast
    then show ?thesis using pg Some c(1) by simp
  qed
qed

lemma follow_from_start:
  assumes "table_wf t" "1 \<le> psize"
  shows "\<exists>ps. follow (\<lambda>c. page_of key psize (query f c psize t)) (Suc (length (rows f t))) None
      = Some ps \<and> concat ps = rows f t \<and> (\<forall>p \<in> set ps. length p \<le> psize)"
proof -
  have "filter (below_cursor key None) (rows f t) = rows f t" by (simp add: below_cursor_def)
  then show ?thesis
    using follow_all [OF assms, of None f "rows f t" "Suc (length (rows f t))"]
    by (simp del: follow.simps)
qed

end

end
