(* ===== verification/Payments.thy ===== *)
theory Payments
  imports Http Money Pagination
begin

text \<open>
  The payments API: \<open>CreatePaymentDto\<close>, \<open>ListPaymentsQueryDto\<close>, the service
  \<open>apps/api/src/payments/payments.service.ts\<close> and its controller. The canonical JSON of a
  DTO and its SHA-256 digest come from packages and are one argument \<open>hash\<close>; ULIDs and the
  database clock are arguments of the operations.
\<close>

record create_payment_dto =
  dto_customerId :: string
  dto_sourceAccount :: string
  dto_destinationAccount :: string
  dto_amount :: string
  dto_currency :: "string field"
  dto_reference :: "string field"

subsection \<open>Validation\<close>

definition create_payment_checks :: "(string \<times> (json option \<Rightarrow> bool)) list" where
  "create_payment_checks =
     [(''customerId'', string_satisfies (\<lambda>s. s \<noteq> [])),
      (''sourceAccount'', string_satisfies (\<lambda>s. s \<noteq> [])),
      (''destinationAccount'', string_satisfies (\<lambda>s. s \<noteq> [])),
      (''amount'', string_satisfies (\<lambda>s. match_amount s \<noteq> None)),
      (''currency'', \<lambda>v. is_absent v \<or> string_satisfies (\<lambda>s. length s = 3) v),
      (''reference'', \<lambda>v. is_absent v \<or> is_string v)]"

definition to_create_payment :: "fields \<Rightarrow> create_payment_dto" where
  "to_create_payment fs =
     \<lparr>dto_customerId = the_str (map_of fs ''customerId''),
      dto_sourceAccount = the_str (map_of fs ''sourceAccount''),
      dto_destinationAccount = the_str (map_of fs ''destinationAccount''),
      dto_amount = the_str (map_of fs ''amount''),
      dto_currency = str_field (map_of fs ''currency''),
      dto_reference = str_field (map_of fs ''reference'')\<rparr>"

definition pipe_create_payment :: "fields \<Rightarrow> create_payment_dto result" where
  "pipe_create_payment fs =
     (case validate create_payment_checks fs of
        [] \<Rightarrow> Inr (to_create_payment fs)
      | errs \<Rightarrow> Inl (ValidationException errs))"

subsection \<open>Submission\<close>

text \<open>What the environment supplies to one submission: the ULIDs and the database time.\<close>

record submit_env =
  se_id :: string
  se_outbox_id :: string
  se_event_id :: string
  se_now :: int

record submit_result =
  replayed :: bool
  sr_status :: nat
  body :: payment

definition payment_row :: "create_payment_dto \<Rightarrow> int \<Rightarrow> submit_env \<Rightarrow> payment" where
  "payment_row dto cents env =
     \<lparr>p_id = se_id env, customerId = dto_customerId dto,
      sourceAccount = dto_sourceAccount dto, destinationAccount = dto_destinationAccount dto,
      amountCents = cents, currency = ''USD'', reference = field_opt (dto_reference dto),
      status = PENDING, version = 0, attemptCount = 0, lastErrorCode = None,
      p_createdAt = se_now env, p_updatedAt = se_now env\<rparr>"

definition submitted_event :: "payment \<Rightarrow> string \<Rightarrow> submit_env \<Rightarrow> payment_event" where
  "submitted_event row corr env =
     \<lparr>e_id = se_event_id env, e_paymentId = p_id row, fromStatus = None, toStatus = PENDING,
      e_correlationId = Some corr, metadata = Some (JObj [(''reason'', JStr ''submitted'')]),
      occurredAt = se_now env\<rparr>"

definition idem_row :: "create_payment_dto \<Rightarrow> string \<Rightarrow> string \<Rightarrow> payment \<Rightarrow> submit_env
  \<Rightarrow> idempotency_key" where
  "idem_row dto key h row env =
     \<lparr>i_customerId = dto_customerId dto, idempotencyKey = key, requestHash = h,
      i_paymentId = p_id row, responseStatus = 202, responseBody = row, i_createdAt = se_now env\<rparr>"

definition submitted_payload :: "payment \<Rightarrow> string \<Rightarrow> job_data" where
  "submitted_payload row corr =
     \<lparr>jd_paymentId = p_id row, jd_amountCents = amountCents row, jd_currency = currency row,
      jd_sourceAccount = Some (sourceAccount row),
      jd_destinationAccount = Some (destinationAccount row),
      jd_customerId = Some (customerId row), jd_status = None, jd_correlationId = Some corr\<rparr>"

definition submitted_outbox :: "payment \<Rightarrow> string \<Rightarrow> submit_env \<Rightarrow> outbox_row" where
  "submitted_outbox row corr env =
     \<lparr>o_id = se_outbox_id env, aggregateType = ''payment'', aggregateId = se_id env,
      eventType = ''payment.submitted'', payload = submitted_payload row corr,
      publishedAt = None, webhookDispatchedAt = None, o_createdAt = se_now env\<rparr>"

text \<open>The transaction: four inserts, all or none.\<close>

definition submit_txn :: "create_payment_dto \<Rightarrow> int \<Rightarrow> string \<Rightarrow> string \<Rightarrow> string \<Rightarrow> submit_env
  \<Rightarrow> db \<Rightarrow> (payment \<times> db) result" where
  "submit_txn dto cents key h corr env d =
     (let row = payment_row dto cents env
      in bind_result (insert_payment row d) (\<lambda>d1.
         bind_result (insert_event (submitted_event row corr env) d1) (\<lambda>d2.
         bind_result (insert_idempotency_key (idem_row dto key h row env) d2) (\<lambda>d3.
         bind_result (insert_outbox (submitted_outbox row corr env) d3) (\<lambda>d4.
         Inr (row, d4))))))"

definition find_key :: "string \<Rightarrow> string \<Rightarrow> db \<Rightarrow> idempotency_key option" where
  "find_key cust key d =
     first_row (select_where (\<lambda>k. i_customerId k = cust \<and> idempotencyKey k = key) (idempotencyKeys d))"

definition insert_txn :: "create_payment_dto \<Rightarrow> string \<Rightarrow> string \<Rightarrow> string \<Rightarrow> submit_env \<Rightarrow> db
  \<Rightarrow> submit_result result \<times> db" where
  "insert_txn dto key req_hash corr env d =
     (case convAmountToUnits (dto_amount dto) of
        Inl e \<Rightarrow> (Inl e, d)
      | Inr cents \<Rightarrow>
          (case submit_txn dto \<lfloor>cents\<rfloor> key req_hash corr env d of
             Inr (row, d') \<Rightarrow> (Inr \<lparr>replayed = False, sr_status = 202, body = row\<rparr>, d')
           | Inl e \<Rightarrow>
               if e = UniqueViolation
               then (case find_key (dto_customerId dto) key d of
                       None \<Rightarrow> (Inl (PlainError (''customer: '' @ dto_customerId dto
                          @ '' and idempotency key: '' @ key
                          @ '' did not exist in idempotencyKeys table'')), d)
                     | Some existing \<Rightarrow>
                         if requestHash existing \<noteq> req_hash
                         then (Inl (HttpException 409
                            ''Idempotency-Key reused with a different request payload''), d)
                         else (Inr \<lparr>replayed = True, sr_status = responseStatus existing,
                                   body = responseBody existing\<rparr>, d))
               else (Inl e, d)))"

subsection \<open>Queries\<close>

definition find_one :: "string \<Rightarrow> db \<Rightarrow> payment result" where
  "find_one i d =
     (case first_row (select_where (\<lambda>p. p_id p = i) (payments d)) of
        None \<Rightarrow> Inl (HttpException 404 ''Payment for given id was not found'')
      | Some row \<Rightarrow> Inr row)"

record list_query =
  lq_status :: "payment_status option"
  lq_cursor :: "string option"
  lq_limit :: nat

text \<open>An empty cursor is falsy and adds no condition.\<close>

definition list_payments :: "list_query \<Rightarrow> db \<Rightarrow> payment list" where
  "list_payments q d =
     limit (lq_limit q + 1) (order_by_desc p_id (select_where
       (\<lambda>p. (case lq_status q of None \<Rightarrow> True | Some s \<Rightarrow> status p = s)
          \<and> (case lq_cursor q of None \<Rightarrow> True | Some c \<Rightarrow> c = [] \<or> p_id p < c)) (payments d)))"

definition list_events :: "string \<Rightarrow> db \<Rightarrow> payment_event list result" where
  "list_events i d =
     bind_result (find_one i d) (\<lambda>_.
       Inr (order_by occurredAt (select_where (\<lambda>e. e_paymentId e = i) (paymentEvents d))))"

subsection \<open>The controller\<close>

record raw_list_query =
  rq_status :: "string option"
  rq_cursor :: "string option"
  rq_limit :: "string option"

definition parse_status :: "string \<Rightarrow> payment_status option" where
  "parse_status s = first_row (select_where (\<lambda>x. status_str x = s) PAYMENT_STATUS)"

definition pipe_list_query :: "raw_list_query \<Rightarrow> list_query result" where
  "pipe_list_query q =
     (let bad = (case rq_status q of Some s \<Rightarrow> parse_status s = None | None \<Rightarrow> False)
      in case parse_limit (rq_limit q) of
           None \<Rightarrow> Inl (ValidationException ((if bad then [''status''] else []) @ [''limit'']))
         | Some n \<Rightarrow>
             if bad then Inl (ValidationException [''status''])
             else Inr \<lparr>lq_status = Option.bind (rq_status q) parse_status,
                       lq_cursor = rq_cursor q, lq_limit = n\<rparr>)"

datatype submit_outcome = Accepted | Replayed | Errored

record accepted_response =
  ar_status :: nat
  ar_location :: string
  ar_body :: payment

text \<open>
  \<open>create_payment\<close>: the pipe runs before the handler; the handler wants a non-empty
  Idempotency-Key, and observes the outcome of the service call in a histogram (the third
  component; nothing is observed when the handler does not reach the call).
\<close>

definition create_payment :: "(create_payment_dto \<Rightarrow> string) \<Rightarrow> fields \<Rightarrow> string option \<Rightarrow> string
  \<Rightarrow> submit_env \<Rightarrow> db \<Rightarrow> accepted_response result \<times> db \<times> submit_outcome option" where
  "create_payment hash fs key reqId env d =
     (case pipe_create_payment fs of
        Inl e \<Rightarrow> (Inl e, d, None)
      | Inr dto \<Rightarrow>
          (case key of
             None \<Rightarrow> (Inl (HttpException 400 ''Idempotency-Key header required''), d, None)
           | Some k \<Rightarrow>
               if k = [] then (Inl (HttpException 400 ''Idempotency-Key header required''), d, None)
               else (case insert_txn dto k (hash dto) reqId env d of
                  (Inl e, d') \<Rightarrow> (Inl e, d', Some Errored)
                | (Inr r, d') \<Rightarrow>
                    (Inr \<lparr>ar_status = 202, ar_location = ''/v1/payments/'' @ p_id (body r),
                          ar_body = body r\<rparr>,
                     d', Some (if replayed r then Replayed else Accepted)))))"

definition controller_list :: "list_query \<Rightarrow> db \<Rightarrow> payment list \<times> string option" where
  "controller_list q d = page_of p_id (lq_limit q) (list_payments q d)"

record event_view =
  ev_id :: string
  ev_fromStatus :: "payment_status option"
  ev_toStatus :: payment_status
  ev_occurredAt :: int
  ev_metadata :: "json option"
  ev_correlationId :: "string option"

definition controller_list_events :: "string \<Rightarrow> db \<Rightarrow> event_view list result" where
  "controller_list_events i d =
     bind_result (list_events i d) (\<lambda>rows. Inr (map (\<lambda>row.
       \<lparr>ev_id = e_id row, ev_fromStatus = fromStatus row, ev_toStatus = toStatus row,
        ev_occurredAt = occurredAt row, ev_metadata = metadata row,
        ev_correlationId = e_correlationId row\<rparr>) rows))"

text \<open>The status of the response the client gets, errors through the problem filter.\<close>

definition submit_http_status :: "accepted_response result \<Rightarrow> nat" where
  "submit_http_status r = (case r of Inr a \<Rightarrow> ar_status a | Inl e \<Rightarrow> pd_status (problem_of [] e))"

subsection \<open>The service, branch by branch\<close>

definition submit_env_fresh :: "submit_env \<Rightarrow> db \<Rightarrow> bool" where
  "submit_env_fresh env d \<longleftrightarrow>
     se_id env \<notin> p_id ` set (payments d)
     \<and> se_event_id env \<notin> e_id ` set (paymentEvents d)
     \<and> (se_outbox_id env, se_now env) \<notin> (\<lambda>x. (o_id x, o_createdAt x)) ` set (outbox d)"

lemma payment_row_simps [simp]:
  "p_id (payment_row dto c env) = se_id env" "status (payment_row dto c env) = PENDING"
  "version (payment_row dto c env) = 0" "attemptCount (payment_row dto c env) = 0"
  "amountCents (payment_row dto c env) = c" "currency (payment_row dto c env) = ''USD''"
  "customerId (payment_row dto c env) = dto_customerId dto"
  by (simp_all add: payment_row_def)

lemma idem_row_simps [simp]:
  "i_customerId (idem_row dto key h row env) = dto_customerId dto"
  "idempotencyKey (idem_row dto key h row env) = key"
  "requestHash (idem_row dto key h row env) = h"
  "i_paymentId (idem_row dto key h row env) = p_id row"
  "responseStatus (idem_row dto key h row env) = 202"
  "responseBody (idem_row dto key h row env) = row"
  by (simp_all add: idem_row_def)

lemma find_key_None:
  "find_key c k d = None \<longleftrightarrow>
   (c, k) \<notin> (\<lambda>x. (i_customerId x, idempotencyKey x)) ` set (idempotencyKeys d)"
  by (auto simp: find_key_def select_where_def filter_empty_conv)

lemma find_key_Some_in:
  "find_key c k d = Some x \<Longrightarrow>
   x \<in> set (idempotencyKeys d) \<and> i_customerId x = c \<and> idempotencyKey x = k"
  by (auto simp: find_key_def dest!: first_row_Some_in)

lemma find_key_append:
  "find_key c k (d\<lparr>idempotencyKeys := idempotencyKeys d @ [x]\<rparr>) =
   (case find_key c k d of Some y \<Rightarrow> Some y
    | None \<Rightarrow> if i_customerId x = c \<and> idempotencyKey x = k then Some x else None)"
  by (auto simp: find_key_def select_where_def first_row_def split: list.splits option.splits)

lemma find_key_frame [simp]:
  "find_key c k (d\<lparr>payments := x1\<rparr>) = find_key c k d"
  "find_key c k (d\<lparr>paymentEvents := x2\<rparr>) = find_key c k d"
  "find_key c k (d\<lparr>outbox := x3\<rparr>) = find_key c k d"
  by (simp_all add: find_key_def)

definition submitted_db :: "create_payment_dto \<Rightarrow> int \<Rightarrow> string \<Rightarrow> string \<Rightarrow> string \<Rightarrow> submit_env
  \<Rightarrow> db \<Rightarrow> db" where
  "submitted_db dto cents key h corr env d =
     (let row = payment_row dto cents env
      in d\<lparr>payments := payments d @ [row],
           paymentEvents := paymentEvents d @ [submitted_event row corr env],
           idempotencyKeys := idempotencyKeys d @ [idem_row dto key h row env],
           outbox := outbox d @ [submitted_outbox row corr env]\<rparr>)"

lemma submit_txn_Inr:
  "submit_txn dto c key h corr env d = Inr (row, d') \<longleftrightarrow>
   submit_env_fresh env d \<and> find_key (dto_customerId dto) key d = None
   \<and> row = payment_row dto c env \<and> d' = submitted_db dto c key h corr env d"
  by (auto simp: submit_txn_def Let_def submit_env_fresh_def find_key_None submitted_db_def
      submitted_event_def idem_row_def submitted_outbox_def)

lemma submit_txn_used_key:
  assumes "find_key (dto_customerId dto) key d = Some x"
  shows "submit_txn dto c key h corr env d = Inl UniqueViolation"
proof -
  have "(dto_customerId dto, key) \<in> (\<lambda>x. (i_customerId x, idempotencyKey x)) ` set (idempotencyKeys d)"
    using assms by (metis find_key_None option.distinct(1))
  then show ?thesis
    by (auto simp: submit_txn_def Let_def insert_payment_def insert_event_def
        insert_idempotency_key_def insert_row_def submitted_event_def idem_row_def)
qed

lemma insert_txn_new:
  assumes "convAmountToUnits (dto_amount dto) = Inr c" "submit_env_fresh env d"
    and "find_key (dto_customerId dto) key d = None"
  shows "insert_txn dto key h corr env d =
    (Inr \<lparr>replayed = False, sr_status = 202, body = payment_row dto \<lfloor>c\<rfloor> env\<rparr>,
     submitted_db dto \<lfloor>c\<rfloor> key h corr env d)"
proof -
  have "submit_txn dto \<lfloor>c\<rfloor> key h corr env d
      = Inr (payment_row dto \<lfloor>c\<rfloor> env, submitted_db dto \<lfloor>c\<rfloor> key h corr env d)"
    using assms by (simp add: submit_txn_Inr)
  then show ?thesis using assms(1) by (simp add: insert_txn_def)
qed

lemma insert_txn_used_key:
  assumes "convAmountToUnits (dto_amount dto) = Inr c"
    and "find_key (dto_customerId dto) key d = Some x"
  shows "insert_txn dto key h corr env d =
    (if requestHash x \<noteq> h
     then Inl (HttpException 409 ''Idempotency-Key reused with a different request payload'')
     else Inr \<lparr>replayed = True, sr_status = responseStatus x, body = responseBody x\<rparr>, d)"
  using assms by (simp add: insert_txn_def submit_txn_used_key)

text \<open>A submission that does not answer with a new payment changes nothing.\<close>

lemma insert_txn_atomic:
  "insert_txn dto key h corr env d = (r, d') \<Longrightarrow>
   d' = d \<or> (\<exists>c. convAmountToUnits (dto_amount dto) = Inr c \<and> submit_env_fresh env d
     \<and> find_key (dto_customerId dto) key d = None
     \<and> d' = submitted_db dto \<lfloor>c\<rfloor> key h corr env d
     \<and> r = Inr \<lparr>replayed = False, sr_status = 202, body = payment_row dto \<lfloor>c\<rfloor> env\<rparr>)"
  by (auto simp: insert_txn_def submit_txn_Inr split: sum.splits option.splits if_splits)

lemma find_key_submitted_db:
  "find_key c k (submitted_db dto cents key h corr env d) =
   (case find_key c k d of Some y \<Rightarrow> Some y
    | None \<Rightarrow> if dto_customerId dto = c \<and> key = k
              then Some (idem_row dto key h (payment_row dto cents env) env) else None)"
proof -
  let ?x = "idem_row dto key h (payment_row dto cents env) env"
  have "find_key c k (submitted_db dto cents key h corr env d)
      = find_key c k (d\<lparr>idempotencyKeys := idempotencyKeys d @ [?x]\<rparr>)"
    by (simp add: submitted_db_def Let_def find_key_def)
  then show ?thesis by (cases "find_key c k d") (auto simp: find_key_append)
qed

text \<open>A recorded key is never overwritten.\<close>

lemma insert_txn_keeps_key:
  assumes "insert_txn dto key h corr env d = (r, d')" "find_key c k d = Some x"
  shows "find_key c k d' = Some x"
  using insert_txn_atomic [OF assms(1)] assms(2) by (auto simp: find_key_submitted_db)

text \<open>A successful answer is the one recorded under the key.\<close>

lemma insert_txn_answer:
  assumes "insert_txn dto key h corr env d = (Inr r, d')"
  shows "\<exists>x. find_key (dto_customerId dto) key d' = Some x \<and> responseBody x = body r"
proof (cases "find_key (dto_customerId dto) key d")
  case None
  then obtain c where "d' = submitted_db dto c key h corr env d" "body r = payment_row dto c env"
    using assms by (auto simp: insert_txn_def submit_txn_Inr split: sum.splits if_splits)
  with None show ?thesis by (simp add: find_key_submitted_db)
next
  case (Some x)
  moreover obtain c where "convAmountToUnits (dto_amount dto) = Inr c"
    using assms by (auto simp: insert_txn_def split: sum.splits)
  ultimately show ?thesis
    using assms insert_txn_used_key [of dto c key d x h corr env] by (auto split: if_splits)
qed

subsection \<open>Sequences of submissions\<close>

text \<open>
  The unique constraint orders concurrent submissions of a key: each transaction runs
  before or after the others. A run is the list of the submissions in that order.
\<close>

record submission =
  su_dto :: create_payment_dto
  su_key :: string
  su_hash :: string
  su_corr :: string
  su_env :: submit_env

definition submit :: "submission \<Rightarrow> db \<Rightarrow> submit_result result \<times> db" where
  "submit s d = insert_txn (su_dto s) (su_key s) (su_hash s) (su_corr s) (su_env s) d"

fun submit_all :: "submission list \<Rightarrow> db \<Rightarrow> submit_result result list \<times> db" where
  "submit_all [] d = ([], d)"
| "submit_all (s # ss) d =
     (let (r, d1) = submit s d; (rs, d2) = submit_all ss d1 in (r # rs, d2))"

lemma snd_submit_all [simp]: "snd (submit_all (s # ss) d) = snd (submit_all ss (snd (submit s d)))"
  by (simp split: prod.splits)

definition su_scope :: "submission \<Rightarrow> string \<times> string" where
  "su_scope s = (dto_customerId (su_dto s), su_key s)"

lemma submit_all_keeps_key:
  "find_key c k d = Some x \<Longrightarrow> find_key c k (snd (submit_all ss d)) = Some x"
proof (induction ss arbitrary: d)
  case (Cons s ss)
  have "find_key c k (snd (submit s d)) = Some x"
    using insert_txn_keeps_key [OF prod.collapse [symmetric] Cons.prems] by (simp add: submit_def)
  from Cons.IH [OF this] show ?case by (simp del: submit_all.simps)
qed simp

lemma submit_all_answer:
  "(s, Inr r) \<in> set (zip ss (fst (submit_all ss d))) \<Longrightarrow>
   \<exists>x. find_key (fst (su_scope s)) (snd (su_scope s)) (snd (submit_all ss d)) = Some x
     \<and> responseBody x = body r"
proof (induction ss arbitrary: d)
  case (Cons t ss)
  obtain r' d1 where 1: "submit t d = (r', d1)" by fastforce
  then have snd1: "snd (submit_all (t # ss) d) = snd (submit_all ss d1)"
    by (simp del: submit_all.simps)
  have "fst (submit_all (t # ss) d) = r' # fst (submit_all ss d1)"
    using 1 by (simp split: prod.splits)
  with Cons.prems consider "s = t" "r' = Inr r" | "(s, Inr r) \<in> set (zip ss (fst (submit_all ss d1)))"
    by auto
  then show ?case
  proof cases
    case first: 1
    then have "insert_txn (su_dto s) (su_key s) (su_hash s) (su_corr s) (su_env s) d = (Inr r, d1)"
      using 1 by (simp add: submit_def)
    from insert_txn_answer [OF this] obtain x
      where "find_key (fst (su_scope s)) (snd (su_scope s)) d1 = Some x" "responseBody x = body r"
      by (auto simp: su_scope_def)
    then show ?thesis unfolding snd1 using submit_all_keeps_key by blast
  next
    case 2
    then show ?thesis unfolding snd1 by (rule Cons.IH)
  qed
qed simp

lemma submit_all_one_body:
  assumes "(s, Inr r) \<in> set (zip ss (fst (submit_all ss d)))"
    and "(t, Inr q) \<in> set (zip ss (fst (submit_all ss d)))"
    and "su_scope s = su_scope t"
  shows "body r = body q"
  using submit_all_answer [OF assms(1)] submit_all_answer [OF assms(2)] assms(3) by auto

text \<open>Each payment has one idempotency row, in the order of creation, and no key has two.\<close>

definition keys_wf :: "db \<Rightarrow> bool" where
  "keys_wf d \<longleftrightarrow>
     distinct (map p_id (payments d))
     \<and> distinct (map (\<lambda>k. (i_customerId k, idempotencyKey k)) (idempotencyKeys d))
     \<and> map i_paymentId (idempotencyKeys d) = map p_id (payments d)"

lemma keys_wf_submitted_db:
  "keys_wf d \<Longrightarrow> submit_env_fresh env d \<Longrightarrow> find_key (dto_customerId dto) key d = None \<Longrightarrow>
   keys_wf (submitted_db dto c key h corr env d)"
  by (simp add: keys_wf_def submitted_db_def Let_def submit_env_fresh_def find_key_None idem_row_def)

lemma keys_wf_insert_txn:
  "keys_wf d \<Longrightarrow> insert_txn dto key h corr env d = (r, d') \<Longrightarrow> keys_wf d'"
  by (auto dest!: insert_txn_atomic simp: keys_wf_submitted_db)

lemma keys_wf_submit_all: "keys_wf d \<Longrightarrow> keys_wf (snd (submit_all ss d))"
proof (induction ss arbitrary: d)
  case (Cons s ss)
  have "keys_wf (snd (submit s d))"
    using keys_wf_insert_txn [OF Cons.prems prod.collapse [symmetric]] by (simp add: submit_def)
  from Cons.IH [OF this] show ?case by (simp del: submit_all.simps)
qed simp

subsection \<open>Listing\<close>

definition status_rows :: "payment_status option \<Rightarrow> db \<Rightarrow> payment list" where
  "status_rows st d = order_by_desc p_id
     (select_where (\<lambda>p. case st of None \<Rightarrow> True | Some s \<Rightarrow> status p = s) (payments d))"

definition ids_wf :: "db \<Rightarrow> bool" where
  "ids_wf d \<longleftrightarrow> distinct (map p_id (payments d)) \<and> (\<forall>p \<in> set (payments d). p_id p \<noteq> [])"

interpretation payment_pages: keyset_source p_id
  "\<lambda>st cur n d. list_payments \<lparr>lq_status = st, lq_cursor = cur, lq_limit = n\<rparr> d"
  status_rows ids_wf
proof unfold_locales
  fix d :: db and cur :: "string option" and st n
  assume wf: "ids_wf d" and cur: "cur \<noteq> Some []"
  have "select_where (\<lambda>p. (case st of None \<Rightarrow> True | Some s \<Rightarrow> status p = s)
        \<and> (case cur of None \<Rightarrow> True | Some c \<Rightarrow> c = [] \<or> p_id p < c)) (payments d)
      = filter (below_cursor p_id cur)
          (select_where (\<lambda>p. case st of None \<Rightarrow> True | Some s \<Rightarrow> status p = s) (payments d))"
    using cur by (auto simp: select_where_def below_cursor_def intro!: filter_cong split: option.splits)
  then show "list_payments \<lparr>lq_status = st, lq_cursor = cur, lq_limit = n\<rparr> d
      = take (n + 1) (filter (below_cursor p_id cur) (status_rows st d))"
    by (simp add: list_payments_def status_rows_def limit_def filter_order_by_desc)
next
  fix d :: db and st
  assume "ids_wf d"
  then show "sorted_wrt (\<lambda>a b. p_id b < p_id a) (status_rows st d)"
    unfolding status_rows_def select_where_def ids_wf_def
    by (intro sorted_wrt_rev_sort_key) (simp add: distinct_map_filter)
next
  fix d :: db and st r
  assume "ids_wf d" "r \<in> set (status_rows st d)"
  then show "p_id r \<noteq> []" by (auto simp: ids_wf_def status_rows_def)
qed

end
