(* ===== verification/PollLoop.thy ===== *)
theory PollLoop
  imports Prelude
begin

text \<open>
  The self-scheduling timer loop that the relay, the dispatcher, both reapers, the bank
  configuration sync and the outbox cleanup share: a tick awaits one poll, swallows its error
  and arms the next timer; shutdown clears the timer of the last arming. The locale
  \<open>poll_service\<close> lifts an invariant of one poll to every life of the loop; each service
  interprets it in its own theory.
\<close>

subsection \<open>The loop\<close>

text \<open>
  \<open>pl_timer\<close> is the field \<open>timer\<close>, a handle of \<open>setTimeout\<close> that is numbered in the order of
  arming; \<open>pl_armed\<close> are the handles the event loop has yet to fire, \<open>pl_running\<close> counts the
  ticks whose poll is awaited.
\<close>

record 'w poll_loop =
  pl_next :: nat
  pl_timer :: "nat option"
  pl_armed :: "nat list"
  pl_running :: nat
  pl_world :: 'w

definition new_loop :: "'w \<Rightarrow> 'w poll_loop" where
  "new_loop w = \<lparr>pl_next = 0, pl_timer = None, pl_armed = [], pl_running = 0, pl_world = w\<rparr>"

definition scheduleNext :: "'w poll_loop \<Rightarrow> 'w poll_loop" where
  "scheduleNext l =
     l\<lparr>pl_next := Suc (pl_next l), pl_timer := Some (pl_next l), pl_armed := pl_armed l @ [pl_next l]\<rparr>"

text \<open>Five services arm a timer when their module starts; the cleanup awaits a first tick.\<close>

definition onModuleInit :: "'w \<Rightarrow> 'w poll_loop" where
  "onModuleInit w = scheduleNext (new_loop w)"

definition eager_init :: "'w \<Rightarrow> 'w poll_loop" where
  "eager_init w = (new_loop w)\<lparr>pl_running := 1\<rparr>"

text \<open>A tick from the firing of its timer to its await, and from the end of its poll on.\<close>

definition tick_begin :: "nat \<Rightarrow> 'w poll_loop \<Rightarrow> 'w poll_loop" where
  "tick_begin h l =
     (if h \<in> set (pl_armed l)
      then l\<lparr>pl_armed := filter (\<lambda>k. k \<noteq> h) (pl_armed l), pl_running := Suc (pl_running l)\<rparr> else l)"

definition tick_end :: "('e \<Rightarrow> 'w \<Rightarrow> 'r result \<times> 'w) \<Rightarrow> 'e \<Rightarrow> 'w poll_loop \<Rightarrow> 'w poll_loop" where
  "tick_end poll e l =
     (case pl_running l of
        0 \<Rightarrow> l
      | Suc n \<Rightarrow> scheduleNext (l\<lparr>pl_running := n, pl_world := snd (poll e (pl_world l))\<rparr>))"

definition onApplicationShutdown :: "'w poll_loop \<Rightarrow> 'w poll_loop" where
  "onApplicationShutdown l =
     (case pl_timer l of
        None \<Rightarrow> l
      | Some h \<Rightarrow> l\<lparr>pl_armed := filter (\<lambda>k. k \<noteq> h) (pl_armed l)\<rparr>)"

datatype 'e loop_signal = Fires nat | PollEnds 'e | Shutdown

fun loop_step :: "('e \<Rightarrow> 'w \<Rightarrow> 'r result \<times> 'w) \<Rightarrow> 'e loop_signal \<Rightarrow> 'w poll_loop \<Rightarrow> 'w poll_loop" where
  "loop_step poll (Fires h) l = tick_begin h l"
| "loop_step poll (PollEnds e) l = tick_end poll e l"
| "loop_step poll Shutdown l = onApplicationShutdown l"

definition loop_run :: "('e \<Rightarrow> 'w \<Rightarrow> 'r result \<times> 'w) \<Rightarrow> 'e loop_signal list \<Rightarrow> 'w poll_loop \<Rightarrow> 'w poll_loop" where
  "loop_run poll sgs l = foldl (\<lambda>l sg. loop_step poll sg l) l sgs"

lemma loop_run_simps [simp]:
  "loop_run poll [] l = l"
  "loop_run poll (sg # sgs) l = loop_run poll sgs (loop_step poll sg l)"
  "loop_run poll (sgs @ sgs') l = loop_run poll sgs' (loop_run poll sgs l)"
  by (simp_all add: loop_run_def)

subsection \<open>One timer or one poll\<close>

text \<open>The armed timer, if any, is the one the field names, and it excludes a running poll.\<close>

definition loop_ok :: "'w poll_loop \<Rightarrow> bool" where
  "loop_ok l \<longleftrightarrow> (pl_armed l = [] \<or> (\<exists>h. pl_armed l = [h] \<and> pl_timer l = Some h))
     \<and> length (pl_armed l) + pl_running l \<le> 1"

definition loop_alive :: "'w poll_loop \<Rightarrow> bool" where
  "loop_alive l \<longleftrightarrow> length (pl_armed l) + pl_running l = 1"

lemma loop_ok_init [simp]:
  "loop_ok (onModuleInit w)" "loop_ok (eager_init w)" "loop_alive (onModuleInit w)" "loop_alive (eager_init w)"
  by (simp_all add: loop_ok_def loop_alive_def onModuleInit_def eager_init_def scheduleNext_def new_loop_def)

lemma loop_ok_step: "loop_ok l \<Longrightarrow> loop_ok (loop_step poll sg l)"
  by (cases sg)
    (auto simp: loop_ok_def tick_begin_def tick_end_def scheduleNext_def onApplicationShutdown_def
      split: nat.splits option.splits)

lemma loop_ok_run: "loop_ok l \<Longrightarrow> loop_ok (loop_run poll sgs l)"
  by (induction sgs arbitrary: l) (simp_all add: loop_ok_step)

lemma loop_alive_step: "loop_ok l \<Longrightarrow> loop_alive l \<Longrightarrow> sg \<noteq> Shutdown \<Longrightarrow> loop_alive (loop_step poll sg l)"
  by (cases sg) (auto simp: loop_ok_def loop_alive_def tick_begin_def tick_end_def scheduleNext_def split: nat.splits)

text \<open>Without a shutdown the loop never dies, whatever its polls throw.\<close>

lemma loop_alive_run:
  "loop_ok l \<Longrightarrow> loop_alive l \<Longrightarrow> Shutdown \<notin> set sgs \<Longrightarrow> loop_alive (loop_run poll sgs l)"
  by (induction sgs arbitrary: l) (auto simp: loop_ok_step loop_alive_step)

lemma loop_ok_cases:
  assumes "loop_ok l" "loop_alive l"
  obtains (waiting) h where "pl_armed l = [h]" "pl_timer l = Some h" "pl_running l = 0"
  | (polling) "pl_armed l = []" "pl_running l = 1"
  using assms by (auto simp: loop_ok_def loop_alive_def)

subsection \<open>Shutdown\<close>

text \<open>A loop without timers and polls stays as it is.\<close>

lemma loop_dead_run: "pl_armed l = [] \<Longrightarrow> pl_running l = 0 \<Longrightarrow> loop_run poll sgs l = l"
proof (induction sgs)
  case (Cons sg sgs)
  then have "loop_step poll sg l = l"
    by (cases sg) (auto simp: tick_begin_def tick_end_def onApplicationShutdown_def split: option.splits)
  with Cons show ?case by simp
qed simp

lemma shutdown_waiting:
  assumes "loop_ok l" "pl_running l = 0"
  shows "pl_world (loop_run poll (Shutdown # sgs) l) = pl_world l"
proof -
  have "pl_armed (onApplicationShutdown l) = []" "pl_running (onApplicationShutdown l) = 0"
    "pl_world (onApplicationShutdown l) = pl_world l"
    using assms by (auto simp: loop_ok_def onApplicationShutdown_def split: option.splits)
  then show ?thesis using loop_dead_run [of "onApplicationShutdown l" poll sgs] by simp
qed

text \<open>During a poll the timer to clear has fired: the end of the tick arms the next one.\<close>

lemma shutdown_polling:
  assumes "loop_ok l" "pl_running l = 1"
  shows "pl_armed (loop_run poll [Shutdown, PollEnds e] l) = [pl_next l]
    \<and> pl_world (loop_run poll [Shutdown, PollEnds e, Fires (pl_next l), PollEnds e'] l)
      = snd (poll e' (snd (poll e (pl_world l))))"
proof -
  have a: "pl_armed l = []" using assms by (auto simp: loop_ok_def)
  have s: "onApplicationShutdown l = l"
    using a by (simp add: onApplicationShutdown_def split: option.splits)
  show ?thesis using a assms(2) by (simp add: s tick_end_def tick_begin_def scheduleNext_def)
qed

subsection \<open>Services\<close>

locale poll_service =
  fixes poll :: "'e \<Rightarrow> 'w \<Rightarrow> 'r result \<times> 'w"
    and inv :: "'w \<Rightarrow> bool"
  assumes poll_inv: "inv w \<Longrightarrow> poll e w = (r, w') \<Longrightarrow> inv w'"
begin

lemma step_inv: "inv (pl_world l) \<Longrightarrow> inv (pl_world (loop_step poll sg l))"
proof (cases sg)
  case (PollEnds e)
  assume i: "inv (pl_world l)"
  have "inv (snd (poll e (pl_world l)))" by (rule poll_inv [OF i prod.collapse [symmetric]])
  with i PollEnds show ?thesis by (simp add: tick_end_def scheduleNext_def split: nat.splits)
qed (simp_all add: tick_begin_def onApplicationShutdown_def split: option.splits)

lemma run_inv: "inv (pl_world l) \<Longrightarrow> inv (pl_world (loop_run poll sgs l))"
  by (induction sgs arbitrary: l) (simp_all add: step_inv)

end

end
