(* ===== verification/Outbox.thy ===== *)
theory Outbox
  imports Schema JsNumber PollLoop
begin

text \<open>
  What the two consumers of the outbox table share: the claim of a batch of pending rows
  (\<open>FOR UPDATE SKIP LOCKED\<close>, oldest first, at most 100) and the marking of the claimed ids.
  Each consumer has its own marker column. The locale \<open>outbox_poller\<close> states what a marker
  must do; it shows that a poll marks only rows it claimed and that repeated polls drain
  the backlog. Rows another transaction has locked are an argument. Jobs handed to a queue
  are kept as the arguments of \<open>queue.add\<close>.
\<close>

record 'd job =
  job_name :: string
  job_payload :: 'd
  job_id :: string
  job_delay :: "js_number option"

definition claim_rows :: "(outbox_row \<Rightarrow> bool) \<Rightarrow> string set \<Rightarrow> outbox_row list \<Rightarrow> outbox_row list" where
  "claim_rows pending locked t =
     limit 100 (order_by o_createdAt (select_where (\<lambda>r. pending r \<and> o_id r \<notin> locked) t))"

definition mark_rows :: "(outbox_row \<Rightarrow> outbox_row) \<Rightarrow> string set \<Rightarrow> outbox_row list \<Rightarrow> outbox_row list" where
  "mark_rows mark is t = update_where (\<lambda>r. o_id r \<in> is) mark t"

lemma claim_rows_in:
  "r \<in> set (claim_rows pending locked t) \<Longrightarrow> r \<in> set t \<and> pending r \<and> o_id r \<notin> locked"
  by (auto simp: claim_rows_def limit_def select_where_def dest!: in_set_takeD)

lemma length_claim_rows: "length (claim_rows pending locked t) \<le> 100"
  by (simp add: claim_rows_def limit_def)

definition poll_mark :: "(outbox_row \<Rightarrow> bool) \<Rightarrow> (outbox_row \<Rightarrow> outbox_row) \<Rightarrow> string set
  \<Rightarrow> outbox_row list \<Rightarrow> outbox_row list" where
  "poll_mark pending mark locked t =
     mark_rows mark (o_id ` set (claim_rows pending locked t)) t"

fun poll_times :: "nat \<Rightarrow> (outbox_row \<Rightarrow> bool) \<Rightarrow> (outbox_row \<Rightarrow> outbox_row)
  \<Rightarrow> outbox_row list \<Rightarrow> outbox_row list" where
  "poll_times 0 pending mark t = t"
| "poll_times (Suc n) pending mark t = poll_times n pending mark (poll_mark pending mark {} t)"

locale outbox_poller =
  fixes pending :: "outbox_row \<Rightarrow> bool"
    and mark :: "outbox_row \<Rightarrow> outbox_row"
  assumes mark_id: "o_id (mark r) = o_id r"
    and mark_done: "\<not> pending (mark r)"
begin

lemma poll_mark_ids: "map o_id (poll_mark pending mark locked t) = map o_id t"
  by (simp add: poll_mark_def mark_rows_def map_update_where mark_id)

text \<open>What is no longer pending after a poll was claimed by it, under its id.\<close>

lemma poll_mark_claimed:
  assumes "r' \<in> set (poll_mark pending mark locked t)"
  shows "\<exists>r \<in> set t. o_id r = o_id r'
    \<and> (r' = r \<or> (r' = mark r \<and> o_id r \<in> o_id ` set (claim_rows pending locked t)))"
proof -
  let ?c = "o_id ` set (claim_rows pending locked t)"
  from assms obtain r where "r \<in> set t" "(o_id r \<in> ?c \<and> r' = mark r) \<or> (o_id r \<notin> ?c \<and> r' = r)"
    unfolding poll_mark_def mark_rows_def in_update_where by blast
  then show ?thesis using mark_id by (intro bexI [of _ r]) auto
qed

lemma count_pending_mark:
  "count_where pending (mark_rows mark is t) = length (filter (\<lambda>r. pending r \<and> o_id r \<notin> is) t)"
  by (induction t) (auto simp: mark_rows_def update_where_Cons mark_done)

lemma poll_progress:
  "count_where pending (poll_mark pending mark {} t) \<le> count_where pending t - 100"
proof -
  let ?P = "sort_key o_createdAt (filter pending t)"
  let ?is = "o_id ` set (claim_rows pending {} t)"
  have cl: "claim_rows pending {} t = take 100 ?P"
    by (simp add: claim_rows_def limit_def order_by_def select_where_def)
  have "count_where pending (poll_mark pending mark {} t)
      = length (filter (\<lambda>r. o_id r \<notin> ?is) (filter pending t))"
    by (simp add: poll_mark_def count_pending_mark conj_commute)
  also have "\<dots> = length (filter (\<lambda>r. o_id r \<notin> ?is) ?P)"
    by (metis filter_sort length_sort)
  also have "filter (\<lambda>r. o_id r \<notin> ?is) ?P
      = filter (\<lambda>r. o_id r \<notin> ?is) (take 100 ?P) @ filter (\<lambda>r. o_id r \<notin> ?is) (drop 100 ?P)"
    by (metis append_take_drop_id filter_append)
  also have "filter (\<lambda>r. o_id r \<notin> ?is) (take 100 ?P) = []"
    by (simp add: cl filter_empty_conv)
  also have "length ([] @ filter (\<lambda>r. o_id r \<notin> ?is) (drop 100 ?P))
      = length (filter (\<lambda>r. o_id r \<notin> ?is) (drop 100 ?P))" by simp
  also have "\<dots> \<le> length (drop 100 ?P)" by (rule length_filter_le)
  also have "\<dots> = count_where pending t - 100" by (simp add: count_where_def)
  finally show ?thesis .
qed

lemma poll_times_drains:
  "count_where pending t \<le> 100 * n \<Longrightarrow> count_where pending (poll_times n pending mark t) = 0"
proof (induction n arbitrary: t)
  case (Suc n)
  have "count_where pending (poll_mark pending mark {} t) \<le> 100 * n"
    using poll_progress [of t] Suc.prems by simp
  from Suc.IH [OF this] show ?case by simp
qed simp

end

end
