(* ===== verification/Relay.thy ===== *)
theory Relay
  imports Outbox
begin

text \<open>
  The relay \<open>apps/api/src/relay/relay.service.ts\<close>: one poll claims unpublished
  \<open>payment.submitted\<close> rows, adds one job per row (its id is the outbox id) and then marks
  the rows, in one transaction. \<open>refuses\<close> tells which additions the queue rejects; all are
  attempted before \<open>Promise.all\<close> fails and the transaction is rolled back. \<open>fails\<close> is set when the
  update or the commit after the additions throws, which rolls back as well and takes no job back.
\<close>

definition relay_pending :: "outbox_row \<Rightarrow> bool" where
  "relay_pending r \<longleftrightarrow> publishedAt r = None \<and> eventType r = ''payment.submitted''"

definition relay_mark :: "int \<Rightarrow> outbox_row \<Rightarrow> outbox_row" where
  "relay_mark now r = r\<lparr>publishedAt := Some now\<rparr>"

definition relay_job :: "outbox_row \<Rightarrow> job_data job" where
  "relay_job r = \<lparr>job_name = eventType r, job_payload = payload r, job_id = o_id r, job_delay = None\<rparr>"

definition relay_poll_once :: "string set \<Rightarrow> (job_data job \<Rightarrow> bool) \<Rightarrow> bool \<Rightarrow> int \<Rightarrow> db
  \<Rightarrow> nat result \<times> db \<times> job_data job list" where
  "relay_poll_once locked refuses fails now d =
     (let rows = claim_rows relay_pending locked (outbox d);
          adds = map relay_job rows
      in if list_ex refuses adds
         then (Inl (PlainError ''queue.add''), d, filter (\<lambda>a. \<not> refuses a) adds)
         else if fails then (Inl (PlainError ''update''), d, adds)
         else let published_ids = map o_id rows
              in if length published_ids = 0 then (Inr 0, d, adds)
                 else (Inr (length rows),
                       d\<lparr>outbox := mark_rows (relay_mark now) (set published_ids) (outbox d)\<rparr>, adds))"

interpretation relay: outbox_poller relay_pending "relay_mark now" for now
  by unfold_locales (simp_all add: relay_pending_def relay_mark_def)

lemma relay_poll_db:
  assumes "relay_poll_once locked refuses fails now d = (r, d', adds)"
  shows "case r of
      Inl e \<Rightarrow> d' = d
    | Inr n \<Rightarrow> adds = map relay_job (claim_rows relay_pending locked (outbox d))
        \<and> n = length adds
        \<and> d' = d\<lparr>outbox := poll_mark relay_pending (relay_mark now) locked (outbox d)\<rparr>"
proof -
  have "mark_rows (relay_mark now) {} t = t" for t
    by (simp add: mark_rows_def update_where_none)
  then show ?thesis
    using assms by (auto simp: relay_poll_once_def Let_def poll_mark_def split: if_splits)
qed

text \<open>Publish before mark: a row found marked was marked before, or its job was added.\<close>

lemma relay_no_loss:
  assumes "relay_poll_once locked refuses fails now d = (r, d', adds)"
    and "row' \<in> set (outbox d')" "publishedAt row' \<noteq> None" "eventType row' = ''payment.submitted''"
  shows "(\<exists>row \<in> set (outbox d). o_id row = o_id row' \<and> publishedAt row \<noteq> None)
    \<or> (\<exists>j \<in> set adds. job_id j = o_id row')"
proof (cases r)
  case (Inl e)
  then show ?thesis using relay_poll_db [OF assms(1)] assms(2,3) by auto
next
  case (Inr n)
  with relay_poll_db [OF assms(1)] have adds: "adds = map relay_job (claim_rows relay_pending locked (outbox d))"
    and d': "outbox d' = poll_mark relay_pending (relay_mark now) locked (outbox d)" by auto
  from relay.poll_mark_claimed [OF assms(2) [unfolded d']] obtain row where row:
    "row \<in> set (outbox d)" "o_id row = o_id row'"
    "row' = row \<or> (row' = relay_mark now row \<and> o_id row \<in> o_id ` set (claim_rows relay_pending locked (outbox d)))"
    by blast
  then show ?thesis using assms(3) by (auto simp: adds relay_job_def)
qed

lemma relay_poll_frame:
  assumes "relay_poll_once locked refuses fails now d = (r, d', adds)"
  shows "payments d' = payments d" "paymentEvents d' = paymentEvents d"
    "idempotencyKeys d' = idempotencyKeys d" "webhookDeliveries d' = webhookDeliveries d"
    "map o_id (outbox d') = map o_id (outbox d)"
  using relay_poll_db [OF assms] by (auto simp: relay.poll_mark_ids split: sum.splits)

fun relay_polls :: "nat \<Rightarrow> int \<Rightarrow> db \<Rightarrow> db \<times> job_data job list" where
  "relay_polls 0 now d = (d, [])"
| "relay_polls (Suc n) now d =
     (case relay_poll_once {} (\<lambda>_. False) False now d of
        (_, d1, adds) \<Rightarrow> (case relay_polls n now d1 of (d2, adds2) \<Rightarrow> (d2, adds @ adds2)))"

lemma relay_polls_db:
  "fst (relay_polls n now d) = d\<lparr>outbox := poll_times n relay_pending (relay_mark now) (outbox d)\<rparr>"
proof (induction n arbitrary: d)
  case (Suc n)
  obtain r d1 adds where 1: "relay_poll_once {} (\<lambda>_. False) False now d = (r, d1, adds)"
    by (cases "relay_poll_once {} (\<lambda>_. False) False now d") auto
  have "\<not> list_ex (\<lambda>_. False) xs" for xs :: "job_data job list" by (induction xs) auto
  then have "\<exists>n. r = Inr n" using 1 by (auto simp: relay_poll_once_def Let_def split: if_splits)
  with relay_poll_db [OF 1]
  have "d1 = d\<lparr>outbox := poll_mark relay_pending (relay_mark now) {} (outbox d)\<rparr>" by auto
  moreover have "fst (relay_polls (Suc n) now d) = fst (relay_polls n now d1)"
    using 1 by (simp split: prod.splits)
  ultimately show ?case using Suc.IH [of d1] by simp
qed simp

lemma relay_drains:
  "count_where relay_pending (outbox d) \<le> 100 * n \<Longrightarrow>
   count_where relay_pending (outbox (fst (relay_polls n now d))) = 0"
  by (simp add: relay_polls_db relay.poll_times_drains)

subsection \<open>The relay as a poll loop\<close>

text \<open>The world of the service: the database and every job it has added.\<close>

definition relay_service :: "string set \<times> (job_data job \<Rightarrow> bool) \<times> bool \<times> int \<Rightarrow> db \<times> job_data job list
  \<Rightarrow> nat result \<times> (db \<times> job_data job list)" where
  "relay_service e w =
     (case e of (locked, refuses, fails, now) \<Rightarrow>
       (case relay_poll_once locked refuses fails now (fst w) of
          (r, d', adds) \<Rightarrow> (r, (d', snd w @ adds))))"

definition published_have_jobs :: "db \<times> job_data job list \<Rightarrow> bool" where
  "published_have_jobs w \<longleftrightarrow> (\<forall>row \<in> set (outbox (fst w)).
     publishedAt row \<noteq> None \<and> eventType row = ''payment.submitted'' \<longrightarrow> o_id row \<in> job_id ` set (snd w))"

interpretation relay_loop: poll_service relay_service published_have_jobs
proof unfold_locales
  fix w w' :: "db \<times> job_data job list" and e r
  assume inv: "published_have_jobs w" and poll: "relay_service e w = (r, w')"
  obtain locked refuses fails now where e: "e = (locked, refuses, fails, now)" by (cases e)
  obtain d' adds where p: "relay_poll_once locked refuses fails now (fst w) = (r, d', adds)"
    and w': "w' = (d', snd w @ adds)"
    using poll by (auto simp: relay_service_def e split: prod.splits)
  show "published_have_jobs w'"
  proof (cases r)
    case (Inl x)
    with relay_poll_db [OF p] inv show ?thesis by (auto simp: w' published_have_jobs_def)
  next
    case (Inr n)
    with relay_poll_db [OF p] have adds: "adds = map relay_job (claim_rows relay_pending locked (outbox (fst w)))"
      and d': "outbox d' = poll_mark relay_pending (relay_mark now) locked (outbox (fst w))" by auto
    show ?thesis unfolding published_have_jobs_def w' fst_conv snd_conv
    proof (intro ballI impI)
      fix row' assume row': "row' \<in> set (outbox d')"
        and pub: "publishedAt row' \<noteq> None \<and> eventType row' = ''payment.submitted''"
      from relay.poll_mark_claimed [OF row' [unfolded d']] obtain row where
        "row \<in> set (outbox (fst w))" "o_id row = o_id row'"
        "row' = row \<or> (row' = relay_mark now row \<and> o_id row \<in> o_id ` set (claim_rows relay_pending locked (outbox (fst w))))"
        by blast
      then consider "row' \<in> set (outbox (fst w))"
        | "o_id row' \<in> o_id ` set (claim_rows relay_pending locked (outbox (fst w)))" by auto
      then show "o_id row' \<in> job_id ` set (snd w @ adds)"
      proof cases
        case 1
        with inv pub have "o_id row' \<in> job_id ` set (snd w)" unfolding published_have_jobs_def by blast
        then show ?thesis by auto
      next
        case 2
        moreover have "job_id ` set adds = o_id ` set (claim_rows relay_pending locked (outbox (fst w)))"
          by (simp add: adds image_image relay_job_def)
        ultimately show ?thesis by (simp add: image_Un)
      qed
    qed
  qed
qed

end
