(* ===== verification/Ledger.thy ===== *)
theory Ledger
  imports Schema
begin

text \<open>
  The contract every writer of payment statuses keeps: a payment's row is either left alone,
  or moved along one allowed transition while its version grows by one and exactly one
  event recording the move is appended, in the same transaction. \<open>audit_ok\<close> is the ledger
  invariant that follows: the events of a payment are a trail of the state machine that
  ends in its status, the version counts them, and the attempt counter counts the moves
  that consume the retry budget. The locale \<open>audited_writer\<close> lifts the contract to runs.
\<close>

definition events_of :: "string \<Rightarrow> payment_event list \<Rightarrow> payment_event list" where
  "events_of i es = select_where (\<lambda>e. e_paymentId e = i) es"

definition event_move :: "payment_event \<Rightarrow> payment_status option \<times> payment_status" where
  "event_move e = (fromStatus e, toStatus e)"

text \<open>The events written together with an increment of the attempt counter.\<close>

definition exhausted_metadata :: "string \<Rightarrow> json" where
  "exhausted_metadata reason = JObj [(''reason'', JStr reason), (''retriesExhausted'', JBool True)]"

definition budget_event :: "payment_event \<Rightarrow> bool" where
  "budget_event e \<longleftrightarrow> toStatus e = RETRYING
     \<or> (toStatus e = FAILED \<and> (\<exists>reason. metadata e = Some (exhausted_metadata reason)))"

definition same_terms :: "payment \<Rightarrow> payment \<Rightarrow> bool" where
  "same_terms p q \<longleftrightarrow> p_id p = p_id q \<and> customerId p = customerId q
     \<and> sourceAccount p = sourceAccount q \<and> destinationAccount p = destinationAccount q
     \<and> amountCents p = amountCents q \<and> currency p = currency q \<and> reference p = reference q
     \<and> p_createdAt p = p_createdAt q"

definition moved :: "payment \<Rightarrow> payment \<Rightarrow> payment_event \<Rightarrow> bool" where
  "moved p q e \<longleftrightarrow> fromStatus e = Some (status p) \<and> toStatus e = status q
     \<and> canTransition (status p) (status q) \<and> version q = version p + 1
     \<and> attemptCount q = attemptCount p + (if budget_event e then 1 else 0)"

text \<open>One transaction of a writer, from the database before to the one after.\<close>

definition audited_step :: "db \<Rightarrow> db \<Rightarrow> bool" where
  "audited_step d d' \<longleftrightarrow>
     map p_id (payments d') = map p_id (payments d)
     \<and> idempotencyKeys d' = idempotencyKeys d
     \<and> (\<exists>evs. paymentEvents d' = paymentEvents d @ evs
          \<and> (\<forall>e \<in> set evs. e_paymentId e \<in> p_id ` set (payments d))
          \<and> (\<forall>p \<in> set (payments d). \<exists>q \<in> set (payments d'). same_terms p q
               \<and> ((q = p \<and> events_of (p_id p) evs = [])
                  \<or> (\<exists>e. events_of (p_id p) evs = [e] \<and> moved p q e))))"

definition payment_audited :: "payment_event list \<Rightarrow> payment \<Rightarrow> bool" where
  "payment_audited es p \<longleftrightarrow>
     audit_trail canTransition PENDING (map event_move (events_of (p_id p) es)) (status p)
     \<and> version p + 1 = length (events_of (p_id p) es)
     \<and> attemptCount p = count_where budget_event (events_of (p_id p) es)"

definition audit_ok :: "db \<Rightarrow> bool" where
  "audit_ok d \<longleftrightarrow>
     distinct (map p_id (payments d))
     \<and> (\<forall>e \<in> set (paymentEvents d). e_paymentId e \<in> p_id ` set (payments d))
     \<and> (\<forall>p \<in> set (payments d). payment_audited (paymentEvents d) p)"

lemma events_of_append [simp]: "events_of i (es @ fs) = events_of i es @ events_of i fs"
  by (simp add: events_of_def select_where_def)

lemma events_of_Nil [simp]: "events_of i [] = []"
  by (simp add: events_of_def select_where_def)

lemma events_of_Cons [simp]:
  "events_of i (e # es) = (if e_paymentId e = i then e # events_of i es else events_of i es)"
  by (simp add: events_of_def select_where_def)

lemma events_of_none: "(\<And>e. e \<in> set es \<Longrightarrow> e_paymentId e \<noteq> i) \<Longrightarrow> events_of i es = []"
  by (auto simp: events_of_def select_where_def filter_empty_conv)

lemma same_terms_refl [simp]: "same_terms p p"
  by (simp add: same_terms_def)

lemma audited_step_refl [simp]: "audited_step d d"
  by (auto simp: audited_step_def)

lemma audited_step_frame:
  assumes "audited_step d d'"
  shows "map p_id (payments d') = map p_id (payments d)" "idempotencyKeys d' = idempotencyKeys d"
  using assms by (simp_all add: audited_step_def)

lemma payment_audited_moved:
  assumes "payment_audited es p" "moved p q e" "p_id q = p_id p" "e_paymentId e = p_id p"
  shows "payment_audited (es @ [e]) q"
  using assms audit_trail_snoc [of canTransition PENDING _ "status p" "status q"]
  by (auto simp: payment_audited_def moved_def event_move_def)

theorem audited_step_ok:
  assumes step: "audited_step d d'" and ok: "audit_ok d"
  shows "audit_ok d'"
proof -
  from step obtain evs where ids: "map p_id (payments d') = map p_id (payments d)"
    and evs: "paymentEvents d' = paymentEvents d @ evs"
      "\<forall>e \<in> set evs. e_paymentId e \<in> p_id ` set (payments d)"
    and pw: "\<And>p. p \<in> set (payments d) \<Longrightarrow> \<exists>q \<in> set (payments d'). same_terms p q
               \<and> ((q = p \<and> events_of (p_id p) evs = [])
                  \<or> (\<exists>e. events_of (p_id p) evs = [e] \<and> moved p q e))"
    unfolding audited_step_def by blast
  have dist: "distinct (map p_id (payments d'))" using ids ok by (simp add: audit_ok_def)
  have idset: "p_id ` set (payments d') = p_id ` set (payments d)"
    by (metis ids list.set_map)
  have "payment_audited (paymentEvents d') q" if q: "q \<in> set (payments d')" for q
  proof -
    from q idset obtain p where p: "p \<in> set (payments d)" "p_id p = p_id q" by (metis imageE imageI)
    from pw [OF p(1)] obtain q' where q': "q' \<in> set (payments d')" "same_terms p q'"
      "(q' = p \<and> events_of (p_id p) evs = []) \<or> (\<exists>e. events_of (p_id p) evs = [e] \<and> moved p q' e)"
      by blast
    have "q' = q" using distinct_key_unique [OF dist q'(1) q] q'(2) p(2) by (simp add: same_terms_def)
    have old: "payment_audited (paymentEvents d) p" using ok p(1) by (simp add: audit_ok_def)
    from q'(3) show ?thesis
    proof (elim disjE conjE exE)
      assume "q' = p" "events_of (p_id p) evs = []"
      with old \<open>q' = q\<close> show ?thesis by (simp add: payment_audited_def evs(1))
    next
      fix e assume e: "events_of (p_id p) evs = [e]" "moved p q' e"
      then have "e \<in> set (events_of (p_id p) evs)" by simp
      then have "e_paymentId e = p_id p" by (simp add: events_of_def)
      with payment_audited_moved [OF old e(2)] \<open>q' = q\<close> p(2)
      have "payment_audited (paymentEvents d @ [e]) q" by simp
      with e(1) p(2) \<open>e_paymentId e = p_id p\<close> show ?thesis by (simp add: payment_audited_def evs(1))
    qed
  qed
  with dist evs ok idset show ?thesis by (auto simp: audit_ok_def)
qed

subsection \<open>The usual writer: one compare-and-swap and one event\<close>

definition cas_pred :: "string \<Rightarrow> payment_status \<Rightarrow> payment \<Rightarrow> bool" where
  "cas_pred i s r \<longleftrightarrow> p_id r = i \<and> status r = s"

text \<open>
  An UPDATE of the row with id \<open>i\<close> in status \<open>s\<close> by \<open>f\<close>, followed by the insert of the
  event \<open>e\<close>, is an audited step if \<open>f\<close> moves the row the way \<open>e\<close> says.
\<close>

lemma audited_cas:
  assumes dist: "distinct (map p_id (payments d))"
    and row: "r \<in> set (payments d)" "cas_pred i s r"
    and f: "same_terms r (f r)" "moved r (f r) e" "e_paymentId e = i"
    and keep: "\<And>x. p_id (f x) = p_id x"
    and d': "payments d' = update_where (cas_pred i s) f (payments d)"
      "paymentEvents d' = paymentEvents d @ [e]" "idempotencyKeys d' = idempotencyKeys d"
  shows "audited_step d d'"
proof -
  have only: "x = r" if "x \<in> set (payments d)" "cas_pred i s x" for x
    using distinct_key_unique [OF dist that(1) row(1)] that(2) row(2) by (simp add: cas_pred_def)
  have ri: "p_id r = i" using row(2) by (simp add: cas_pred_def)
  have "\<exists>q \<in> set (payments d'). same_terms p q
      \<and> ((q = p \<and> events_of (p_id p) [e] = []) \<or> (\<exists>e'. events_of (p_id p) [e] = [e'] \<and> moved p q e'))"
    if p: "p \<in> set (payments d)" for p
  proof (cases "p = r")
    case True
    then have "f p \<in> set (payments d')" using p row(2) by (auto simp: d' in_update_where)
    then show ?thesis using True f ri by (intro bexI [of _ "f p"]) auto
  next
    case False
    then have "\<not> cas_pred i s p" using only p by blast
    then have "p \<in> set (payments d')" using p by (auto simp: d' in_update_where)
    moreover have "p_id p \<noteq> i" using distinct_key_unique [OF dist p row(1)] False ri by auto
    ultimately show ?thesis using f(3) by (intro bexI [of _ p]) auto
  qed
  moreover have "map p_id (payments d') = map p_id (payments d)"
    by (simp add: d' map_update_where keep)
  ultimately show ?thesis
    using d' row(1) ri f(3) by (auto simp: audited_step_def)
qed

locale audited_writer =
  fixes wr :: "'a \<Rightarrow> db \<Rightarrow> db result"
  assumes write_audited: "distinct (map p_id (payments d)) \<Longrightarrow> wr a d = Inr d' \<Longrightarrow> audited_step d d'"
begin

text \<open>A run of the writer: a call that throws has rolled its transaction back.\<close>

fun write_all :: "'a list \<Rightarrow> db \<Rightarrow> db" where
  "write_all [] d = d"
| "write_all (a # as) d = write_all as (case wr a d of Inl e \<Rightarrow> d | Inr d' \<Rightarrow> d')"

lemma write_ok:
  assumes "audit_ok d" "wr a d = Inr d'"
  shows "audit_ok d'"
proof -
  have "distinct (map p_id (payments d))" using assms(1) by (simp add: audit_ok_def)
  from audited_step_ok [OF write_audited [OF this assms(2)] assms(1)] show ?thesis .
qed

lemma write_all_ok: "audit_ok d \<Longrightarrow> audit_ok (write_all as d)"
  by (induction as arbitrary: d) (auto split: sum.splits intro: write_ok)

lemma write_keeps_terminal:
  assumes "distinct (map p_id (payments d))" "wr a d = Inr d'"
    and "p \<in> set (payments d)" "is_terminal (status p)"
  shows "p \<in> set (payments d')"
proof -
  from write_audited [OF assms(1,2)] assms(3) obtain evs q where
    "q \<in> set (payments d')" "(q = p \<and> events_of (p_id p) evs = [])
       \<or> (\<exists>e. events_of (p_id p) evs = [e] \<and> moved p q e)"
    unfolding audited_step_def by blast
  then show ?thesis using assms(4) pay.terminal_stuck by (auto simp: moved_def)
qed

end

end
