(* ===== verification/Reaper.thy ===== *)
theory Reaper
  imports Ledger Outbox
begin

text \<open>
  The payment reaper \<open>apps/api/src/relay/reaper.service.ts\<close>. One transaction claims payments
  in PROCESSING or RETRYING whose \<open>updated_at\<close> is older than the deadline and flips those in
  PROCESSING to RETRYING; after the commit one job per claimed payment is enqueued.
  \<open>fresh i\<close> is the ULID minted for the event of payment \<open>i\<close>.
\<close>

record reap_env =
  re_cutoff_now :: int
  re_update_now :: int
  re_db_now :: int
  re_enqueue_now :: nat
  re_fresh :: "string \<Rightarrow> string"

definition is_stuck :: "int \<Rightarrow> int \<Rightarrow> payment \<Rightarrow> bool" where
  "is_stuck deadline now p \<longleftrightarrow> status p \<in> {PROCESSING, RETRYING} \<and> p_updatedAt p < now - deadline"

definition claim_stuck :: "int \<Rightarrow> string set \<Rightarrow> int \<Rightarrow> payment list \<Rightarrow> payment list" where
  "claim_stuck deadline locked now t =
     limit 100 (select_where (\<lambda>p. is_stuck deadline now p \<and> p_id p \<notin> locked) t)"

definition reap_row :: "int \<Rightarrow> payment \<Rightarrow> payment" where
  "reap_row now p =
     p\<lparr>status := RETRYING, attemptCount := attemptCount p + 1, version := version p + 1,
       p_updatedAt := now\<rparr>"

definition reaped_event :: "reap_env \<Rightarrow> string \<Rightarrow> payment_event" where
  "reaped_event env i =
     \<lparr>e_id = re_fresh env i, e_paymentId = i, fromStatus = Some PROCESSING, toStatus = RETRYING,
      e_correlationId = None, metadata = Some (JObj [(''reason'', JStr ''reaped'')]),
      occurredAt = re_db_now env\<rparr>"

definition reap_txn :: "int \<Rightarrow> string set \<Rightarrow> reap_env \<Rightarrow> db \<Rightarrow> (payment list \<times> db) result" where
  "reap_txn deadline locked env d =
     (let stuck = claim_stuck deadline locked (re_cutoff_now env) (payments d)
      in if length stuck = 0 then Inr ([], d)
         else let processingIds = map p_id (filter (\<lambda>s. status s = PROCESSING) stuck)
              in if 0 < length processingIds
                 then bind_result
                    (insert_events (map (reaped_event env) processingIds)
                      (d\<lparr>payments := update_where (\<lambda>p. p_id p \<in> set processingIds)
                          (reap_row (re_update_now env)) (payments d)\<rparr>))
                    (\<lambda>d'. Inr (stuck, d'))
                 else Inr (stuck, d))"

definition reap_job :: "reap_env \<Rightarrow> payment \<Rightarrow> job_data job" where
  "reap_job env r =
     \<lparr>job_name = ''payment_reap'',
      job_payload = \<lparr>jd_paymentId = p_id r, jd_amountCents = amountCents r,
        jd_currency = currency r, jd_sourceAccount = None, jd_destinationAccount = None,
        jd_customerId = None, jd_status = None, jd_correlationId = None\<rparr>,
      job_id = p_id r @ '':reap:'' @ nat_str (re_enqueue_now env), job_delay = None\<rparr>"

definition reap_once :: "int \<Rightarrow> string set \<Rightarrow> reap_env \<Rightarrow> db
  \<Rightarrow> unit result \<times> db \<times> job_data job list" where
  "reap_once deadline locked env d =
     (case reap_txn deadline locked env d of
        Inl e \<Rightarrow> (Inl e, d, [])
      | Inr (claimed, d') \<Rightarrow> (Inr (), d', map (reap_job env) claimed))"

subsection \<open>The reaper is an audited writer\<close>

lemma claim_stuck_in:
  "p \<in> set (claim_stuck dl locked now t) \<Longrightarrow> p \<in> set t \<and> is_stuck dl now p \<and> p_id p \<notin> locked"
  by (auto simp: claim_stuck_def limit_def select_where_def dest!: in_set_takeD)

lemma distinct_claim_stuck:
  "distinct (map p_id t) \<Longrightarrow> distinct (map p_id (claim_stuck dl locked now t))"
  by (auto simp: claim_stuck_def limit_def select_where_def distinct_map_filter
      simp flip: take_map)

lemma reap_row_simps [simp]:
  "p_id (reap_row now p) = p_id p" "status (reap_row now p) = RETRYING"
  "attemptCount (reap_row now p) = attemptCount p + 1"
  "same_terms p (reap_row now p)" "amountCents (reap_row now p) = amountCents p"
  by (simp_all add: reap_row_def same_terms_def)

lemma reaped_moved: "status p = PROCESSING \<Longrightarrow> moved p (reap_row now p) (reaped_event env i)"
  by (simp add: moved_def reap_row_def reaped_event_def budget_event_def)

lemma events_of_reaped:
  "distinct is \<Longrightarrow> events_of i (map (reaped_event env) is) = (if i \<in> set is then [reaped_event env i] else [])"
  by (induction "is") (auto simp: events_of_def select_where_def reaped_event_def)

lemma reap_txn_Inr:
  assumes "reap_txn deadline locked env d = Inr (claimed, d')"
  defines "ids \<equiv> map p_id (filter (\<lambda>s. status s = PROCESSING) claimed)"
  shows "claimed = claim_stuck deadline locked (re_cutoff_now env) (payments d)"
    and "d' = d\<lparr>payments := update_where (\<lambda>p. p_id p \<in> set ids) (reap_row (re_update_now env)) (payments d),
            paymentEvents := paymentEvents d @ map (reaped_event env) ids\<rparr>"
proof -
  show c: "claimed = claim_stuck deadline locked (re_cutoff_now env) (payments d)"
    using assms(1) by (auto simp: reap_txn_def Let_def split: if_splits)
  show "d' = d\<lparr>payments := update_where (\<lambda>p. p_id p \<in> set ids) (reap_row (re_update_now env)) (payments d),
            paymentEvents := paymentEvents d @ map (reaped_event env) ids\<rparr>"
  proof (cases "ids = []")
    case True
    then have "\<not> 0 < length (map p_id (filter (\<lambda>s. status s = PROCESSING)
        (claim_stuck deadline locked (re_cutoff_now env) (payments d))))"
      unfolding ids_def c by simp
    with assms(1) have "d' = d" unfolding reap_txn_def Let_def by (simp split: if_splits)
    with True show ?thesis by (simp add: update_where_none)
  next
    case False
    then have ne: "0 < length (map p_id (filter (\<lambda>s. status s = PROCESSING)
        (claim_stuck deadline locked (re_cutoff_now env) (payments d))))"
      unfolding ids_def c by simp
    then have "length (claim_stuck deadline locked (re_cutoff_now env) (payments d)) \<noteq> 0" by auto
    with ne assms(1) have "insert_events (map (reaped_event env) ids)
        (d\<lparr>payments := update_where (\<lambda>p. p_id p \<in> set ids) (reap_row (re_update_now env)) (payments d)\<rparr>)
      = Inr d'"
      unfolding ids_def c reap_txn_def Let_def by (simp only: if_True if_False) (auto split: sum.splits)
    then show ?thesis by (auto simp: insert_events_Inr)
  qed
qed

lemma reap_txn_audited:
  assumes dist: "distinct (map p_id (payments d))"
    and reap: "reap_txn deadline locked env d = Inr (claimed, d')"
  shows "audited_step d d'"
proof -
  define ids where "ids = map p_id (filter (\<lambda>s. status s = PROCESSING) claimed)"
  note c = reap_txn_Inr(1) [OF reap]
  note d' = reap_txn_Inr(2) [OF reap, folded ids_def]
  have dids: "distinct ids" unfolding ids_def
    using distinct_claim_stuck [OF dist] by (simp add: c distinct_map_filter)
  have proc: "status p = PROCESSING" if "p \<in> set (payments d)" "p_id p \<in> set ids" for p
  proof -
    from that(2) obtain s where s: "s \<in> set claimed" "status s = PROCESSING" "p_id s = p_id p"
      by (auto simp: ids_def)
    then have "s \<in> set (payments d)" using claim_stuck_in by (simp add: c)
    then show ?thesis using distinct_key_unique [OF dist that(1)] s by metis
  qed
  have idsin: "\<forall>i \<in> set ids. i \<in> p_id ` set (payments d)"
    using claim_stuck_in by (fastforce simp: ids_def c)
  have "\<exists>q \<in> set (payments d'). same_terms p q
      \<and> ((q = p \<and> events_of (p_id p) (map (reaped_event env) ids) = [])
        \<or> (\<exists>e. events_of (p_id p) (map (reaped_event env) ids) = [e] \<and> moved p q e))"
    if p: "p \<in> set (payments d)" for p
  proof (cases "p_id p \<in> set ids")
    case True
    then have "reap_row (re_update_now env) p \<in> set (payments d')"
      using p by (auto simp: d' in_update_where)
    with True proc [OF p True] dids show ?thesis
      by (intro bexI [of _ "reap_row (re_update_now env) p"]) (auto simp: events_of_reaped reaped_moved)
  next
    case False
    then have "p \<in> set (payments d')" using p by (auto simp: d' in_update_where)
    with False dids show ?thesis by (intro bexI [of _ p]) (auto simp: events_of_reaped)
  qed
  moreover have "\<forall>e \<in> set (map (reaped_event env) ids). e_paymentId e \<in> p_id ` set (payments d)"
    using idsin by (auto simp: reaped_event_def)
  ultimately show ?thesis
    unfolding audited_step_def by (auto simp: d' map_update_where)
qed

definition reap_write :: "int \<times> string set \<times> reap_env \<Rightarrow> db \<Rightarrow> db result" where
  "reap_write a d = (case a of (dl, locked, env) \<Rightarrow>
     bind_result (reap_txn dl locked env d) (\<lambda>(claimed, d'). Inr d'))"

interpretation reap_writer: audited_writer reap_write
  by unfold_locales (auto simp: reap_write_def intro: reap_txn_audited)

subsection \<open>What a successful reap achieves\<close>

lemma reap_once_Inr:
  "reap_once dl locked env d = (Inr (), d', jobs) \<longleftrightarrow>
   (\<exists>claimed. reap_txn dl locked env d = Inr (claimed, d') \<and> jobs = map (reap_job env) claimed)"
  by (auto simp: reap_once_def split: sum.splits prod.splits)

text \<open>
  With at most 100 stuck payments, none of them locked, every stuck payment is in RETRYING
  afterwards and has a job that will drive it again.
\<close>

lemma reap_recovers:
  assumes dist: "distinct (map p_id (payments d))"
    and reap: "reap_once dl {} env d = (Inr (), d', jobs)"
    and few: "count_where (is_stuck dl (re_cutoff_now env)) (payments d) \<le> 100"
    and p: "p \<in> set (payments d)" "is_stuck dl (re_cutoff_now env) p"
  shows "(\<exists>q \<in> set (payments d'). same_terms p q \<and> status q = RETRYING
        \<and> attemptCount q = attemptCount p + (if status p = PROCESSING then 1 else 0))
    \<and> (\<exists>j \<in> set jobs. jd_paymentId (job_payload j) = p_id p
        \<and> jd_amountCents (job_payload j) = amountCents p)"
proof -
  from reap obtain claimed where c: "reap_txn dl {} env d = Inr (claimed, d')"
    and jobs: "jobs = map (reap_job env) claimed" unfolding reap_once_Inr by blast
  have "claimed = select_where (is_stuck dl (re_cutoff_now env)) (payments d)"
    using few by (simp add: reap_txn_Inr(1) [OF c] claim_stuck_def limit_def select_where_def count_where_def)
  then have pc: "p \<in> set claimed" using p by simp
  have "\<exists>q \<in> set (payments d'). same_terms p q \<and> status q = RETRYING
        \<and> attemptCount q = attemptCount p + (if status p = PROCESSING then 1 else 0)"
  proof (cases "status p = PROCESSING")
    case True
    with pc p(1) have "reap_row (re_update_now env) p \<in> set (payments d')"
      by (auto simp: reap_txn_Inr(2) [OF c] in_update_where)
    then show ?thesis using True by (intro bexI) auto
  next
    case False
    then have st: "status p = RETRYING" using p(2) by (simp add: is_stuck_def)
    have "p_id p \<notin> p_id ` set (filter (\<lambda>s. status s = PROCESSING) claimed)"
    proof
      assume "p_id p \<in> p_id ` set (filter (\<lambda>s. status s = PROCESSING) claimed)"
      then obtain s where s: "s \<in> set claimed" "status s = PROCESSING" "p_id s = p_id p" by auto
      then have "s \<in> set (payments d)" using reap_txn_Inr(1) [OF c] claim_stuck_in by auto
      from distinct_key_unique [OF dist this p(1) s(3)] s(2) st show False by simp
    qed
    then have "p \<in> set (payments d')" using p(1) by (auto simp: reap_txn_Inr(2) [OF c] in_update_where)
    with st show ?thesis by (intro bexI [of _ p]) simp_all
  qed
  moreover have "reap_job env p \<in> set jobs" using pc jobs by simp
  then have "\<exists>j \<in> set jobs. jd_paymentId (job_payload j) = p_id p
        \<and> jd_amountCents (job_payload j) = amountCents p"
    by (intro bexI [of _ "reap_job env p"]) (simp_all add: reap_job_def)
  ultimately show ?thesis by blast
qed

subsection \<open>The reaper as a poll loop\<close>

definition reaper_service :: "int \<times> string set \<times> reap_env \<Rightarrow> db \<times> job_data job list
  \<Rightarrow> unit result \<times> (db \<times> job_data job list)" where
  "reaper_service e w =
     (case e of (dl, locked, env) \<Rightarrow>
       (case reap_once dl locked env (fst w) of
          (r, d', adds) \<Rightarrow> (r, (d', snd w @ adds))))"

interpretation reaper_loop: poll_service reaper_service "\<lambda>w. audit_ok (fst w)"
proof unfold_locales
  fix w w' :: "db \<times> job_data job list" and e r
  assume ok: "audit_ok (fst w)" and poll: "reaper_service e w = (r, w')"
  obtain dl locked env where e: "e = (dl, locked, env)" by (cases e)
  show "audit_ok (fst w')"
  proof (cases "reap_txn dl locked env (fst w)")
    case (Inl x)
    with ok poll show ?thesis by (auto simp: reaper_service_def e reap_once_def)
  next
    case (Inr cd)
    then have "reap_write e (fst w) = Inr (snd cd)" by (simp add: reap_write_def e split: prod.splits)
    from reap_writer.write_ok [OF ok this] Inr poll show ?thesis
      by (auto simp: reaper_service_def e reap_once_def split: prod.splits)
  qed
qed

end
