(* ===== verification/Backoff.thy ===== *)
theory Backoff
  imports JsNumber
begin

text \<open>
  The retry delay \<open>apps/api/src/worker/backoff.ts\<close>, on doubles. \<open>base\<close> and \<open>cap\<close> are the
  configured BASE_MS and CAP_MS, \<open>rnd\<close> is what \<open>Math.random()\<close> returned.
\<close>

definition computeBackoffMs :: "rat \<Rightarrow> rat \<Rightarrow> rat \<Rightarrow> int \<Rightarrow> js_number result" where
  "computeBackoffMs base cap rnd attempt =
     (if attempt < 1 then Inl (PlainError ''Non Positive attempt number passed (<=0)'')
      else let ex = js_min (js_mul (Fin base) (js_finite (2 ^ nat (attempt - 1)))) (Fin cap)
           in Inr (case ex of
                Fin x \<Rightarrow> Fin (f64 (f64 (x / 2) + f64 (rnd * f64 (x / 2))))
              | _ \<Rightarrow> ex))"

text \<open>The exponential the delay is drawn from, in exact arithmetic.\<close>

definition backoff_exp :: "nat \<Rightarrow> nat \<Rightarrow> int \<Rightarrow> nat" where
  "backoff_exp base cap attempt = min (base * 2 ^ nat (attempt - 1)) cap"

lemma f64_two_power: "f64 (2 ^ k) = 2 ^ k"
proof -
  have "floor_log2 (2 ^ k) \<le> int k"
    by (intro floor_log2_le) (simp_all add: power_int_def nat_add_distrib)
  then have "f64_exp (2 ^ k) \<le> int k" by (simp add: f64_exp_def)
  then have "f64_pos (2 ^ k) = 2 ^ k" by (intro f64_pos_exact [of _ 1 "int k"]) simp_all
  then show ?thesis by (simp add: f64_def)
qed

lemma js_finite_big: "2 ^ 53 \<le> v \<Longrightarrow> \<exists>r. js_finite v = r \<and> (r = Infinite True \<or> (\<exists>w. r = Fin w \<and> 2 ^ 53 \<le> w))"
proof -
  assume "2 ^ 53 \<le> v"
  then have "2 ^ 53 \<le> f64 v" using f64_ge_int [of "2 ^ 53" v] by simp
  moreover from this have "0 < f64 v" by (rule less_le_trans [rotated]) simp
  ultimately show ?thesis by (simp add: js_finite_def Let_def)
qed

text \<open>The capped exponential is computed exactly, whatever the attempt.\<close>

lemma backoff_exponential:
  assumes "0 < base" "cap \<le> 2 ^ 53" "1 \<le> attempt"
  shows "js_min (js_mul (Fin (of_nat base)) (js_finite (2 ^ nat (attempt - 1)))) (Fin (of_nat cap))
    = Fin (of_nat (backoff_exp base cap attempt))"
proof -
  define k where "k = nat (attempt - 1)"
  define p where "p = base * 2 ^ k"
  have cap: "(of_nat cap :: rat) \<le> of_nat (2 ^ 53)" using assms(2) by (simp only: of_nat_le_iff)
  have pow: "js_finite (2 ^ k) = (if 2 ^ 1024 \<le> (2::rat) ^ k then Infinite True else Fin (2 ^ k))"
    by (simp add: js_finite_def Let_def f64_two_power)
  show ?thesis
  proof (cases "p \<le> 2 ^ 53")
    case True
    have "2 ^ k \<le> p" using assms(1) by (simp add: p_def)
    with True have "(2::nat) ^ k \<le> 2 ^ 53" by simp
    then have "k \<le> 53" by (simp only: power_increasing_iff)
    then have "(2::rat) ^ k < 2 ^ 1024" by (intro power_strict_increasing) simp_all
    then have "js_finite (2 ^ k) = Fin (2 ^ k)" by (simp add: pow)
    moreover have "js_finite (of_nat base * 2 ^ k) = Fin (of_nat p)"
      using js_finite_small_nat [OF True] by (simp add: p_def)
    ultimately show ?thesis by (simp add: backoff_exp_def k_def [symmetric] p_def [symmetric] min_def)
  next
    case False
    then have "(of_nat (2 ^ 53) :: rat) \<le> of_nat p" by (simp only: of_nat_le_iff)
    then have p: "2 ^ 53 \<le> of_nat base * (2::rat) ^ k" by (simp add: p_def)
    have m: "backoff_exp base cap attempt = cap"
      using False assms(2) by (simp add: backoff_exp_def k_def [symmetric] p_def [symmetric])
    show ?thesis
    proof (cases "(2::rat) ^ 1024 \<le> 2 ^ k")
      case True
      then show ?thesis using assms(1) m by (simp add: pow k_def [symmetric])
    next
      case small: False
      then have "js_mul (Fin (of_nat base)) (js_finite (2 ^ k)) = js_finite (of_nat base * 2 ^ k)"
        by (simp add: pow)
      with js_finite_big [OF p] cap m show ?thesis
        by (auto simp: k_def [symmetric])
    qed
  qed
qed

lemma computeBackoffMs_bounds:
  assumes "0 < base" "cap \<le> 2 ^ 53" "1 \<le> attempt" "0 \<le> rnd" "rnd \<le> 1"
  shows "\<exists>ms. computeBackoffMs (of_nat base) (of_nat cap) rnd attempt = Inr (Fin ms)
    \<and> of_nat (backoff_exp base cap attempt) / 2 \<le> ms
    \<and> ms \<le> of_nat (backoff_exp base cap attempt)"
proof -
  define x where "x = backoff_exp base cap attempt"
  have x: "x \<le> 2 ^ 53" using assms(2) by (simp add: x_def backoff_exp_def)
  let ?h = "(of_nat x :: rat) / 2"
  let ?j = "f64 (rnd * ?h)"
  have h: "f64 ?h = ?h" by (rule f64_half_nat [OF x])
  have "rnd * ?h \<le> 1 * ?h" using assms(5) by (intro mult_right_mono) simp_all
  then have j: "?j \<le> ?h" using f64_mono [of "rnd * ?h" ?h] h by simp
  have j0: "0 \<le> ?j" using assms(4) by (intro f64_nonneg) simp
  have "?h \<le> f64 (?h + ?j)" using f64_mono [of ?h "?h + ?j"] j0 h by simp
  moreover have "f64 (?h + ?j) \<le> f64 (of_nat x)" using j by (intro f64_mono) simp
  then have "f64 (?h + ?j) \<le> of_nat x" using f64_nat [OF x] by simp
  moreover have "computeBackoffMs (of_nat base) (of_nat cap) rnd attempt = Inr (Fin (f64 (?h + ?j)))"
    using assms(3) by (simp add: computeBackoffMs_def Let_def
        backoff_exponential [OF assms(1,2,3)] x_def [symmetric] h)
  ultimately show ?thesis by (auto simp: x_def)
qed

lemma backoff_exp_mono: "a \<le> b \<Longrightarrow> backoff_exp base cap a \<le> backoff_exp base cap b"
proof -
  assume "a \<le> b"
  then have "(2::nat) ^ nat (a - 1) \<le> 2 ^ nat (b - 1)" by (intro power_increasing) auto
  then show ?thesis unfolding backoff_exp_def by (intro min.mono mult_left_mono) simp_all
qed

end
