(* ===== verification/CircuitBreaker.thy ===== *)
theory CircuitBreaker
  imports Prelude
begin

text \<open>
  The circuit breaker \<open>apps/api/src/bank/circuit-breaker.ts\<close>. \<open>now\<close> is the time a call of
  \<open>new Date()\<close> returns, in milliseconds; the threshold and the cooldown are the configured
  FAILURE_THRESHOLD and OPEN_MS.
\<close>

datatype circuit_state = CLOSED | OPEN | HALF_OPEN

record breaker =
  cb_state :: circuit_state
  openedAt :: int
  failures :: nat

record breaker_config =
  FAILURE_THRESHOLD :: nat
  OPEN_MS :: int

definition new_breaker :: "int \<Rightarrow> breaker" where
  "new_breaker now = \<lparr>cb_state = CLOSED, openedAt = now, failures = 0\<rparr>"

definition cb_allow :: "breaker_config \<Rightarrow> int \<Rightarrow> breaker \<Rightarrow> bool \<times> breaker" where
  "cb_allow cfg now b =
     (case cb_state b of
        CLOSED \<Rightarrow> (True, b)
      | OPEN \<Rightarrow> if now - openedAt b \<ge> OPEN_MS cfg
                 then (True, b\<lparr>cb_state := HALF_OPEN\<rparr>) else (False, b)
      | HALF_OPEN \<Rightarrow> (False, b))"

definition getState :: "breaker \<Rightarrow> circuit_state" where
  "getState b = cb_state b"

definition cb_record :: "breaker_config \<Rightarrow> int \<Rightarrow> bool \<Rightarrow> breaker \<Rightarrow> breaker" where
  "cb_record cfg now success b =
     (if success then b\<lparr>cb_state := CLOSED, failures := 0\<rparr>
      else let b = b\<lparr>failures := failures b + 1\<rparr>
           in if cb_state b = HALF_OPEN then b\<lparr>cb_state := OPEN, openedAt := now\<rparr>
              else if failures b \<ge> FAILURE_THRESHOLD cfg
                   then b\<lparr>cb_state := OPEN, openedAt := now\<rparr> else b)"

subsection \<open>The state after any calls\<close>

datatype breaker_call = Allow int | Record int bool

fun breaker_step :: "breaker_config \<Rightarrow> breaker_call \<Rightarrow> breaker \<Rightarrow> breaker" where
  "breaker_step cfg (Allow now) b = snd (cb_allow cfg now b)"
| "breaker_step cfg (Record now ok) b = cb_record cfg now ok b"

definition breaker_run :: "breaker_config \<Rightarrow> breaker_call list \<Rightarrow> breaker \<Rightarrow> breaker" where
  "breaker_run cfg cs b = fold (breaker_step cfg) cs b"

text \<open>
  What the history of calls, latest first, means: the failures recorded since the last success, the
  time of the last failure, and whether a probe was let through since the last record.
\<close>

fun failures_since :: "breaker_call list \<Rightarrow> nat" where
  "failures_since [] = 0"
| "failures_since (Allow t # h) = failures_since h"
| "failures_since (Record t ok # h) = (if ok then 0 else Suc (failures_since h))"

fun last_failure :: "breaker_call list \<Rightarrow> int" where
  "last_failure [] = 0"
| "last_failure (Allow t # h) = last_failure h"
| "last_failure (Record t ok # h) = (if ok then last_failure h else t)"

fun probe_sent :: "breaker_config \<Rightarrow> breaker_call list \<Rightarrow> bool" where
  "probe_sent cfg [] = False"
| "probe_sent cfg (Allow t # h) \<longleftrightarrow> probe_sent cfg h
     \<or> FAILURE_THRESHOLD cfg \<le> failures_since h \<and> OPEN_MS cfg \<le> t - last_failure h"
| "probe_sent cfg (Record t ok # h) = False"

lemma breaker_run_snoc [simp]:
  "breaker_run cfg [] b = b" "breaker_run cfg (cs @ [c]) b = breaker_step cfg c (breaker_run cfg cs b)"
  by (simp_all add: breaker_run_def)

lemma breaker_run_spec:
  fixes t0 :: int
  assumes "1 \<le> FAILURE_THRESHOLD cfg"
  defines "b \<equiv> \<lambda>cs. breaker_run cfg cs (new_breaker t0)"
  shows "failures (b cs) = failures_since (rev cs)
    \<and> (FAILURE_THRESHOLD cfg \<le> failures_since (rev cs) \<longrightarrow> openedAt (b cs) = last_failure (rev cs))
    \<and> getState (b cs) = (if failures_since (rev cs) < FAILURE_THRESHOLD cfg then CLOSED
        else if probe_sent cfg (rev cs) then HALF_OPEN else OPEN)"
proof (induction cs rule: rev_induct)
  case Nil
  then show ?case using assms(1) by (simp add: b_def new_breaker_def getState_def)
next
  case (snoc c cs)
  show ?case
  proof (cases c)
    case (Allow t)
    have "probe_sent cfg (rev cs) \<Longrightarrow> FAILURE_THRESHOLD cfg \<le> failures_since (rev cs)"
    proof (induction "rev cs" arbitrary: cs rule: failures_since.induct)
      case (2 u h)
      then show ?case by (metis failures_since.simps(2) probe_sent.simps(2) rev_rev_ident)
    qed (metis probe_sent.simps)+
    with snoc show ?thesis
      by (auto simp: Allow b_def getState_def cb_allow_def split: if_splits)
  next
    case (Record t ok)
    with snoc show ?thesis
      using assms(1) by (auto simp: b_def getState_def cb_record_def Let_def split: if_splits)
  qed
qed

text \<open>What the breaker answers: it refuses from the threshold on, but for one probe per cooldown.\<close>

lemma breaker_run_allows:
  assumes "1 \<le> FAILURE_THRESHOLD cfg"
  shows "fst (cb_allow cfg now (breaker_run cfg cs (new_breaker t0))) \<longleftrightarrow>
    failures_since (rev cs) < FAILURE_THRESHOLD cfg
    \<or> \<not> probe_sent cfg (rev cs) \<and> OPEN_MS cfg \<le> now - last_failure (rev cs)"
  using breaker_run_spec [OF assms, of cs t0]
  by (auto simp: cb_allow_def getState_def split: circuit_state.splits if_splits)

subsection \<open>The cooldown and the probe\<close>

fun allow_all :: "breaker_config \<Rightarrow> int list \<Rightarrow> breaker \<Rightarrow> bool list \<times> breaker" where
  "allow_all cfg [] b = ([], b)"
| "allow_all cfg (t # ts) b =
     (let (r, b1) = cb_allow cfg t b; (rs, b2) = allow_all cfg ts b1 in (r # rs, b2))"

lemma allow_all_half_open:
  "cb_state b = HALF_OPEN \<Longrightarrow> allow_all cfg ts b = (replicate (length ts) False, b)"
  by (induction ts) (simp_all add: cb_allow_def)

lemma allow_all_waiting:
  "cb_state b = OPEN \<Longrightarrow> \<forall>t \<in> set ts. t - openedAt b < OPEN_MS cfg \<Longrightarrow>
   allow_all cfg ts b = (replicate (length ts) False, b)"
  by (induction ts) (simp_all add: cb_allow_def)

lemma allow_all_append:
  "allow_all cfg (ts @ us) b =
   (let (rs, b1) = allow_all cfg ts b; (qs, b2) = allow_all cfg us b1 in (rs @ qs, b2))"
  by (induction cfg ts b rule: allow_all.induct) (auto simp: Let_def split: prod.splits)

lemma one_probe:
  assumes "cb_state b = OPEN" "\<forall>t \<in> set ts. t - openedAt b < OPEN_MS cfg"
    and "OPEN_MS cfg \<le> t - openedAt b"
  shows "allow_all cfg (ts @ t # us) b
    = (replicate (length ts) False @ True # replicate (length us) False, b\<lparr>cb_state := HALF_OPEN\<rparr>)"
proof -
  have "cb_allow cfg t b = (True, b\<lparr>cb_state := HALF_OPEN\<rparr>)"
    using assms(1,3) by (simp add: cb_allow_def)
  moreover have "allow_all cfg us (b\<lparr>cb_state := HALF_OPEN\<rparr>)
      = (replicate (length us) False, b\<lparr>cb_state := HALF_OPEN\<rparr>)"
    by (rule allow_all_half_open) simp
  ultimately show ?thesis
    using allow_all_waiting [OF assms(1,2)] by (simp add: allow_all_append)
qed

end
