(* ===== verification/Bank.thy ===== *)
theory Bank
  imports Schema
begin

text \<open>
  The bank port \<open>apps/api/src/bank/bank.types.ts\<close>, its simulated adapter
  \<open>simulated-bank.adapter.ts\<close> and the timeout race \<open>bank.timeout.ts\<close>. The locale
  \<open>bank_port\<close> is the interface the worker relies on: an idempotency key is charged at most
  once, and only an authorization charges it. It is interpreted on the adapter.
\<close>

record bank_request =
  br_paymentId :: string
  br_amountCents :: int
  br_currency :: string
  br_idempotencyKey :: string

datatype bank_outcome =
    Authorized string
  | Declined string
  | BankError bool string

subsection \<open>The simulated adapter\<close>

record sim_bank =
  sb_mode :: bank_mode
  failCount :: nat
  sb_failN :: nat
  sb_latencyMs :: int
  store :: "string \<rightharpoonup> bank_outcome"
  charges :: nat

definition new_bank :: sim_bank where
  "new_bank = \<lparr>sb_mode = Always_authorize, failCount = 0, sb_failN = 2, sb_latencyMs = 200,
     store = Map.empty, charges = 0\<rparr>"

definition getCharges :: "sim_bank \<Rightarrow> nat" where
  "getCharges b = charges b"

text \<open>
  \<open>authorize\<close> after the simulated latency: the rest of the method runs without
  suspension, so it is one atomic step of the adapter.
\<close>

definition charge :: "string \<Rightarrow> sim_bank \<Rightarrow> bank_outcome \<times> sim_bank" where
  "charge key b =
     (let outcome = Authorized (''bank_'' @ key)
      in (outcome, b\<lparr>charges := charges b + 1, store := (store b)(key \<mapsto> outcome)\<rparr>))"

definition authorize :: "bank_request \<Rightarrow> sim_bank \<Rightarrow> bank_outcome \<times> sim_bank" where
  "authorize req b =
     (case store b (br_idempotencyKey req) of
        Some outcome \<Rightarrow> (outcome, b)
      | None \<Rightarrow>
          (case sb_mode b of
             Always_authorize \<Rightarrow> charge (br_idempotencyKey req) b
           | Always_decline \<Rightarrow> (Declined ''insufficient_funds'', b)
           | Always_error \<Rightarrow> (BankError True ''bank_unavailable'', b)
           | Fail_n_then_authorize \<Rightarrow>
               if failCount b < sb_failN b
               then (BankError True ''bank_unavailable'', b\<lparr>failCount := failCount b + 1\<rparr>)
               else charge (br_idempotencyKey req) (b\<lparr>failCount := 0\<rparr>)))"

definition setConfig :: "bank_mode option \<Rightarrow> nat option \<Rightarrow> int option \<Rightarrow> sim_bank \<Rightarrow> sim_bank" where
  "setConfig m n l b =
     (let b1 = (case m of Some x \<Rightarrow> b\<lparr>sb_mode := x, failCount := 0\<rparr> | None \<Rightarrow> b);
          b2 = (case n of Some x \<Rightarrow> b1\<lparr>sb_failN := x\<rparr> | None \<Rightarrow> b1)
      in (case l of Some x \<Rightarrow> b2\<lparr>sb_latencyMs := x\<rparr> | None \<Rightarrow> b2))"

subsection \<open>The timeout race\<close>

text \<open>
  \<open>withTimeout(p, ms)\<close>: the promise settles after \<open>delay\<close> milliseconds (or never) with an
  outcome or by throwing; the timer wins when it fires first, after the milliseconds that
  \<open>setTimeout\<close> makes of its argument. A promise created before the timer settles first when both are due.
\<close>

datatype 'a settled = Resolves 'a | Rejects js_error

definition withTimeout :: "(int \<times> 'a settled) option \<Rightarrow> int \<Rightarrow> 'a result" where
  "withTimeout p ms =
     (case p of
        None \<Rightarrow> Inl (BankTimeoutError ms)
      | Some (delay, r) \<Rightarrow>
          if delay \<le> timer_ms ms then (case r of Resolves a \<Rightarrow> Inr a | Rejects e \<Rightarrow> Inl e)
          else Inl (BankTimeoutError ms))"

subsection \<open>What the port promises\<close>

text \<open>A run of requests against an implementation of the port, with the outcomes.\<close>

fun auth_all :: "(bank_request \<Rightarrow> 'b \<Rightarrow> bank_outcome \<times> 'b) \<Rightarrow> bank_request list \<Rightarrow> 'b
  \<Rightarrow> bank_outcome list \<times> 'b" where
  "auth_all auth [] b = ([], b)"
| "auth_all auth (r # rs) b =
     (let (out, b1) = auth r b; (outs, b2) = auth_all auth rs b1 in (out # outs, b2))"

lemma snd_auth_all [simp]:
  "snd (auth_all auth (r # rs) b) = snd (auth_all auth rs (snd (auth r b)))"
  by (simp split: prod.splits)

locale bank_port =
  fixes auth :: "bank_request \<Rightarrow> 'b \<Rightarrow> bank_outcome \<times> 'b"
    and charged :: "'b \<Rightarrow> string set"
    and total :: "'b \<Rightarrow> nat"
    and bank_inv :: "'b \<Rightarrow> bool"
  assumes auth_inv: "bank_inv b \<Longrightarrow> auth r b = (out, b') \<Longrightarrow> bank_inv b'"
    and auth_charged: "bank_inv b \<Longrightarrow> auth r b = (out, b') \<Longrightarrow>
      charged b' = (case out of Authorized _ \<Rightarrow> insert (br_idempotencyKey r) (charged b) | _ \<Rightarrow> charged b)"
    and auth_total: "bank_inv b \<Longrightarrow> auth r b = (out, b') \<Longrightarrow>
      total b' = total b + (if charged b' = charged b then 0 else 1)"
    and auth_replay: "bank_inv b \<Longrightarrow> br_idempotencyKey r \<in> charged b \<Longrightarrow>
      auth r b = (out, b') \<Longrightarrow> b' = b \<and> (\<exists>ref. out = Authorized ref)"
begin

lemma auth_all_inv: "bank_inv b \<Longrightarrow> bank_inv (snd (auth_all auth rs b))"
proof (induction rs arbitrary: b)
  case (Cons r rs)
  have "bank_inv (snd (auth r b))" by (rule auth_inv [OF Cons.prems prod.collapse [symmetric]])
  then show ?case by (simp add: Cons.IH del: auth_all.simps)
qed simp

lemma auth_charged_subset:
  assumes "bank_inv b" "auth r b = (out, b')"
  shows "charged b \<subseteq> charged b'" "charged b' \<subseteq> insert (br_idempotencyKey r) (charged b)"
  using auth_charged [OF assms] by (auto split: bank_outcome.splits)

lemma auth_all_charged:
  "bank_inv b \<Longrightarrow> charged b \<subseteq> charged (snd (auth_all auth rs b))
   \<and> charged (snd (auth_all auth rs b)) \<subseteq> charged b \<union> br_idempotencyKey ` set rs"
proof (induction rs arbitrary: b)
  case (Cons r rs)
  obtain out b1 where 1: "auth r b = (out, b1)" by (cases "auth r b")
  with Cons.IH [OF auth_inv [OF Cons.prems 1]] auth_charged_subset [OF Cons.prems 1]
  show ?case by (auto simp del: auth_all.simps)
qed simp

text \<open>Whatever the number of requests, each key is charged at most once.\<close>

lemma auth_all_total:
  "bank_inv b \<Longrightarrow> finite (charged b) \<Longrightarrow>
   total (snd (auth_all auth rs b)) = total b + (card (charged (snd (auth_all auth rs b))) - card (charged b))"
proof (induction rs arbitrary: b)
  case (Cons r rs)
  obtain out b1 where 1: "auth r b = (out, b1)" by (cases "auth r b")
  note inv1 = auth_inv [OF Cons.prems(1) 1]
  note sub = auth_charged_subset [OF Cons.prems(1) 1]
  have fin1: "finite (charged b1)" using sub(2) Cons.prems(2) finite_subset by blast
  note IH = Cons.IH [OF inv1 fin1]
  have fin2: "finite (charged (snd (auth_all auth rs b1)))"
    using auth_all_charged [OF inv1, of rs] fin1 by (meson finite_UnI finite_imageI finite_set finite_subset)
  have le: "card (charged b1) \<le> card (charged (snd (auth_all auth rs b1)))"
    using auth_all_charged [OF inv1] fin2 by (intro card_mono) auto
  have "total b1 = total b + (card (charged b1) - card (charged b))"
  proof (cases "charged b1 = charged b")
    case True
    then show ?thesis using auth_total [OF Cons.prems(1) 1] by simp
  next
    case False
    then have "charged b1 = insert (br_idempotencyKey r) (charged b)"
      "br_idempotencyKey r \<notin> charged b" using sub by auto
    then have "card (charged b1) = Suc (card (charged b))" using Cons.prems(2) by simp
    then show ?thesis using auth_total [OF Cons.prems(1) 1] False by simp
  qed
  moreover have "card (charged b) \<le> card (charged b1)" using sub fin1 by (intro card_mono)
  ultimately have "total (snd (auth_all auth rs b1))
      = total b + (card (charged (snd (auth_all auth rs b1))) - card (charged b))"
    using IH le by simp
  then show ?case using 1 by (simp del: auth_all.simps)
qed simp

end

subsection \<open>The adapter keeps the promise\<close>

definition sim_bank_inv :: "sim_bank \<Rightarrow> bool" where
  "sim_bank_inv b \<longleftrightarrow>
     finite (dom (store b)) \<and> charges b = card (dom (store b))
     \<and> (\<forall>k out. store b k = Some out \<longrightarrow> out = Authorized (''bank_'' @ k))"

definition charged_keys :: "sim_bank \<Rightarrow> string set" where
  "charged_keys b = dom (store b)"

lemma sim_bank_inv_new [simp]: "sim_bank_inv new_bank"
  by (simp add: sim_bank_inv_def new_bank_def)

lemma charged_keys_new [simp]: "charged_keys new_bank = {}"
  by (simp add: charged_keys_def new_bank_def)

lemma sim_bank_inv_setConfig [simp]: "sim_bank_inv (setConfig m n l b) \<longleftrightarrow> sim_bank_inv b"
  by (auto simp: setConfig_def sim_bank_inv_def Let_def split: option.splits)

lemma charged_keys_setConfig [simp]: "charged_keys (setConfig m n l b) = charged_keys b"
  by (auto simp: setConfig_def charged_keys_def Let_def split: option.splits)

lemma charge_simps [simp]:
  "fst (charge k b) = Authorized (''bank_'' @ k)"
  "store (snd (charge k b)) = (store b)(k \<mapsto> Authorized (''bank_'' @ k))"
  "charges (snd (charge k b)) = charges b + 1"
  by (simp_all add: charge_def Let_def)

lemma authorize_cases:
  assumes "authorize r b = (out, b')"
  obtains (replay) "store b (br_idempotencyKey r) = Some out" "b' = b"
    | (charged) "store b (br_idempotencyKey r) = None"
        "out = Authorized (''bank_'' @ br_idempotencyKey r)"
        "store b' = (store b)(br_idempotencyKey r \<mapsto> out)" "charges b' = charges b + 1"
    | (refused) "store b (br_idempotencyKey r) = None" "\<And>ref. out \<noteq> Authorized ref"
        "store b' = store b" "charges b' = charges b"
  using assms
  by (auto simp: authorize_def charge_def Let_def split: option.splits bank_mode.splits if_splits)

interpretation sim: bank_port authorize charged_keys charges sim_bank_inv
proof unfold_locales
  fix b b' :: sim_bank and r out
  assume inv: "sim_bank_inv b" and a: "authorize r b = (out, b')"
  from a show "sim_bank_inv b'"
    by (cases rule: authorize_cases) (use inv in \<open>auto simp: sim_bank_inv_def domIff insert_absorb\<close>)
  from a show "charged_keys b' = (case out of Authorized _ \<Rightarrow>
      insert (br_idempotencyKey r) (charged_keys b) | _ \<Rightarrow> charged_keys b)"
    by (cases rule: authorize_cases)
      (use inv in \<open>auto simp: sim_bank_inv_def charged_keys_def split: bank_outcome.splits\<close>)
  from a show "charges b' = charges b + (if charged_keys b' = charged_keys b then 0 else 1)"
    by (cases rule: authorize_cases) (auto simp: charged_keys_def)
  assume "br_idempotencyKey r \<in> charged_keys b"
  then obtain o' where o': "store b (br_idempotencyKey r) = Some o'" by (auto simp: charged_keys_def)
  with a inv show "b' = b \<and> (\<exists>ref. out = Authorized ref)"
    by (auto simp: authorize_def sim_bank_inv_def)
qed

subsection \<open>Failing a number of times, then authorizing\<close>

text \<open>In mode \<open>fail_n_then_authorize\<close> a fresh key fails until the counter is used up.\<close>

fun authorize_n :: "nat \<Rightarrow> bank_request \<Rightarrow> sim_bank \<Rightarrow> bank_outcome list \<times> sim_bank" where
  "authorize_n 0 r b = ([], b)"
| "authorize_n (Suc n) r b =
     (let (out, b1) = authorize r b; (outs, b2) = authorize_n n r b1 in (out # outs, b2))"

lemma fail_n_heals:
  assumes "sb_mode b = Fail_n_then_authorize" "store b (br_idempotencyKey r) = None"
    and "failCount b + k = sb_failN b"
  shows "fst (authorize_n (Suc k) r b)
    = replicate k (BankError True ''bank_unavailable'') @ [Authorized (''bank_'' @ br_idempotencyKey r)]
    \<and> charges (snd (authorize_n (Suc k) r b)) = charges b + 1"
  using assms
proof (induction k arbitrary: b)
  case 0
  then show ?case by (simp add: authorize_def charge_def Let_def)
next
  case (Suc k)
  let ?b1 = "b\<lparr>failCount := failCount b + 1\<rparr>"
  have a: "authorize r b = (BankError True ''bank_unavailable'', ?b1)"
    using Suc.prems by (simp add: authorize_def)
  have "fst (authorize_n (Suc k) r ?b1)
      = replicate k (BankError True ''bank_unavailable'') @ [Authorized (''bank_'' @ br_idempotencyKey r)]
    \<and> charges (snd (authorize_n (Suc k) r ?b1)) = charges ?b1 + 1"
    using Suc.prems by (intro Suc.IH) simp_all
  then show ?case
    unfolding authorize_n.simps(2) [of "Suc k"] a by (simp split: prod.splits)
qed

end
