(* ===== verification/PaymentWorker.thy ===== *)
theory PaymentWorker
  imports Ledger Outbox Backoff CircuitBreaker Bank
begin

text \<open>
  The payment worker \<open>apps/api/src/worker/payment.processor.ts\<close>. A job runs a claim
  transaction (read the status, compare-and-swap to PROCESSING), asks the bank through the
  breaker and the timeout, and settles the answer in a second transaction: to COMPLETED or
  FAILED with an outbox row, or to RETRYING (FAILED when the budget is used up) with a
  delayed job. The transactions are separate definitions because other processes run
  between them; \<open>process\<close> is the handler when nothing runs in between. Times, ULIDs and
  the random number are the fields of \<open>handler_env\<close>.
\<close>

record processor_config =
  MAX_RETRIES :: nat
  BANK_TIMEOUT_MS :: int
  BASE_MS :: rat
  CAP_MS :: rat
  breaker_cfg :: breaker_config

record txn_env =
  tx_time :: int
  tx_db_now :: int
  tx_event :: string
  tx_outbox :: string

subsection \<open>Transaction 1: the claim\<close>

definition claim_read :: "string \<Rightarrow> db \<Rightarrow> payment_status option" where
  "claim_read pid d = map_option status (first_row (select_where (\<lambda>p. p_id p = pid) (payments d)))"

definition claim_row :: "int \<Rightarrow> payment \<Rightarrow> payment" where
  "claim_row now p = p\<lparr>status := PROCESSING, version := version p + 1, p_updatedAt := now\<rparr>"

definition claim_event :: "job_data \<Rightarrow> payment_status \<Rightarrow> txn_env \<Rightarrow> payment_event" where
  "claim_event jd s env =
     \<lparr>e_id = tx_event env, e_paymentId = jd_paymentId jd, fromStatus = Some s,
      toStatus = PROCESSING, e_correlationId = jd_correlationId jd, metadata = None,
      occurredAt = tx_db_now env\<rparr>"

definition claim_cas :: "job_data \<Rightarrow> payment_status \<Rightarrow> txn_env \<Rightarrow> db \<Rightarrow> db result" where
  "claim_cas jd s env d =
     (let here = cas_pred (jd_paymentId jd) s; upd = claim_row (tx_time env)
      in if length (returning here upd (payments d)) = 0 then Inr d
         else insert_event (claim_event jd s env) (d\<lparr>payments := update_where here upd (payments d)\<rparr>))"

text \<open>The statements after the read, given what it returned.\<close>

definition claim_rest :: "job_data \<Rightarrow> payment_status option \<Rightarrow> txn_env \<Rightarrow> db \<Rightarrow> db result" where
  "claim_rest jd found env d =
     (case found of
        None \<Rightarrow> Inr d
      | Some s \<Rightarrow> if \<not> canTransition s PROCESSING then Inr d else claim_cas jd s env d)"

definition claim_txn :: "job_data \<Rightarrow> txn_env \<Rightarrow> db \<Rightarrow> db result" where
  "claim_txn jd env d = claim_rest jd (claim_read (jd_paymentId jd) d) env d"

subsection \<open>The bank\<close>

datatype disposition = Complete json | Fail json | Retry string

definition authorize_request :: "job_data \<Rightarrow> bank_request" where
  "authorize_request jd =
     \<lparr>br_paymentId = jd_paymentId jd, br_amountCents = jd_amountCents jd,
      br_currency = jd_currency jd, br_idempotencyKey = jd_paymentId jd\<rparr>"

fun disposition_of :: "bank_outcome \<Rightarrow> disposition" where
  "disposition_of (Authorized ref) = Complete (JObj [(''bankRef'', JStr ref)])"
| "disposition_of (Declined reason) = Fail (JObj [(''reason'', JStr reason)])"
| "disposition_of (BankError retryable reason) =
     (if retryable then Retry reason else Fail (JObj [(''reason'', JStr reason)]))"

fun outcome_label :: "bank_outcome \<Rightarrow> string" where
  "outcome_label (Authorized _) = ''authorized''"
| "outcome_label (Declined _) = ''declined''"
| "outcome_label (BankError _ _) = ''error''"

fun is_retry :: "disposition \<Rightarrow> bool" where
  "is_retry (Retry _) = True"
| "is_retry _ = False"

text \<open>
  The settling of a call: the disposition or the error rethrown, whether the breaker
  records, and the label counted. \<open>call\<close> is what the promise of the port does.
\<close>

definition settle_call :: "processor_config \<Rightarrow> (int \<times> bank_outcome settled) option
  \<Rightarrow> disposition result \<times> string list" where
  "settle_call cfg call =
     (case withTimeout call (BANK_TIMEOUT_MS cfg) of
        Inr out \<Rightarrow> (Inr (disposition_of out), [outcome_label out])
      | Inl (BankTimeoutError _) \<Rightarrow> (Inr (Retry ''bank_timeout''), [''timeout''])
      | Inl e \<Rightarrow> (Inl e, []))"

record bank_env =
  bk_allow_time :: int
  bk_record_time :: int

definition bank_phase :: "processor_config \<Rightarrow> (bank_request \<Rightarrow> 'b \<Rightarrow> (int \<times> bank_outcome settled) option \<times> 'b)
  \<Rightarrow> bank_env \<Rightarrow> job_data \<Rightarrow> breaker \<Rightarrow> 'b
  \<Rightarrow> disposition result \<times> breaker \<times> 'b \<times> string list" where
  "bank_phase cfg call env jd br b =
     (let (allowed, br1) = cb_allow (breaker_cfg cfg) (bk_allow_time env) br
      in if \<not> allowed then (Inr (Retry ''circuit_open''), br1, b, [''circuit_open''])
         else let (p, b1) = call (authorize_request jd) b
              in (case settle_call cfg p of
                    (Inl e, ls) \<Rightarrow> (Inl e, br1, b1, ls)
                  | (Inr dis, ls) \<Rightarrow>
                      (Inr dis, cb_record (breaker_cfg cfg) (bk_record_time env) (\<not> is_retry dis) br1,
                       b1, ls)))"

subsection \<open>Transaction 2, retry\<close>

definition retry_status :: "nat \<Rightarrow> payment \<Rightarrow> payment_status" where
  "retry_status mx p = (if attemptCount p + 1 > mx then FAILED else RETRYING)"

definition retry_row :: "nat \<Rightarrow> string \<Rightarrow> int \<Rightarrow> payment \<Rightarrow> payment" where
  "retry_row mx reason now p =
     p\<lparr>attemptCount := attemptCount p + 1, lastErrorCode := Some reason,
       version := version p + 1, p_updatedAt := now, status := retry_status mx p\<rparr>"

definition retry_event :: "job_data \<Rightarrow> payment \<Rightarrow> string \<Rightarrow> txn_env \<Rightarrow> payment_event" where
  "retry_event jd row reason env =
     \<lparr>e_id = tx_event env, e_paymentId = jd_paymentId jd, fromStatus = Some PROCESSING,
      toStatus = (if status row = FAILED then FAILED else RETRYING),
      e_correlationId = jd_correlationId jd,
      metadata = Some (if status row = FAILED then exhausted_metadata reason
        else JObj [(''reason'', JStr reason), (''attempt'', JNum (int (attemptCount row)))]),
      occurredAt = tx_db_now env\<rparr>"

text \<open>The attempt to schedule, when there is one, and the database.\<close>

definition retry_txn :: "nat \<Rightarrow> job_data \<Rightarrow> string \<Rightarrow> txn_env \<Rightarrow> db \<Rightarrow> (nat option \<times> db) result" where
  "retry_txn mx jd reason env d =
     (if \<not> canTransition PROCESSING RETRYING \<or> \<not> canTransition PROCESSING FAILED
      then Inl (PlainError ''Invalid state transition from PROCESSING'')
      else let here = cas_pred (jd_paymentId jd) PROCESSING; upd = retry_row mx reason (tx_time env)
           in (case first_row (returning here upd (payments d)) of
                 None \<Rightarrow> Inr (None, d)
               | Some row \<Rightarrow>
                   bind_result (insert_event (retry_event jd row reason env)
                       (d\<lparr>payments := update_where here upd (payments d)\<rparr>))
                     (\<lambda>d'. Inr (if status row = FAILED then None else Some (attemptCount row), d'))))"

definition retry_job :: "job_data \<Rightarrow> nat \<Rightarrow> js_number \<Rightarrow> job_data job" where
  "retry_job jd n delay =
     \<lparr>job_name = ''payment_retry'', job_payload = jd,
      job_id = jd_paymentId jd @ '':retry:'' @ nat_str n, job_delay = Some delay\<rparr>"

definition schedule_retry :: "processor_config \<Rightarrow> rat \<Rightarrow> job_data \<Rightarrow> nat option
  \<Rightarrow> job_data job list result" where
  "schedule_retry cfg rnd jd scheduled =
     (case scheduled of
        None \<Rightarrow> Inr []
      | Some n \<Rightarrow> bind_result (computeBackoffMs (BASE_MS cfg) (CAP_MS cfg) rnd (int n))
                    (\<lambda>delay. Inr [retry_job jd n delay]))"

subsection \<open>Transaction 2, final\<close>

fun target :: "disposition \<Rightarrow> payment_status" where
  "target (Complete _) = COMPLETED"
| "target (Fail _) = FAILED"
| "target (Retry _) = RETRYING"

fun dis_metadata :: "disposition \<Rightarrow> json" where
  "dis_metadata (Complete m) = m"
| "dis_metadata (Fail m) = m"
| "dis_metadata (Retry _) = JNull"

definition final_row :: "payment_status \<Rightarrow> int \<Rightarrow> payment \<Rightarrow> payment" where
  "final_row s now p = p\<lparr>status := s, version := version p + 1, p_updatedAt := now\<rparr>"

definition final_event :: "job_data \<Rightarrow> disposition \<Rightarrow> txn_env \<Rightarrow> payment_event" where
  "final_event jd dis env =
     \<lparr>e_id = tx_event env, e_paymentId = jd_paymentId jd, fromStatus = Some PROCESSING,
      toStatus = target dis, e_correlationId = jd_correlationId jd,
      metadata = Some (dis_metadata dis), occurredAt = tx_db_now env\<rparr>"

definition final_outbox :: "job_data \<Rightarrow> disposition \<Rightarrow> txn_env \<Rightarrow> outbox_row" where
  "final_outbox jd dis env =
     \<lparr>o_id = tx_outbox env, aggregateType = ''payment'', aggregateId = jd_paymentId jd,
      eventType = (if target dis = COMPLETED then ''payment.completed'' else ''payment.failed''),
      payload = \<lparr>jd_paymentId = jd_paymentId jd, jd_amountCents = jd_amountCents jd,
        jd_currency = jd_currency jd, jd_sourceAccount = None, jd_destinationAccount = None,
        jd_customerId = None, jd_status = Some (target dis), jd_correlationId = jd_correlationId jd\<rparr>,
      publishedAt = None, webhookDispatchedAt = None, o_createdAt = tx_db_now env\<rparr>"

definition final_txn :: "job_data \<Rightarrow> disposition \<Rightarrow> txn_env \<Rightarrow> db \<Rightarrow> db result" where
  "final_txn jd dis env d =
     (if \<not> canTransition PROCESSING (target dis)
      then Inl (PlainError (''Invalid state transition from PROCESSING to '' @ status_str (target dis)))
      else let here = cas_pred (jd_paymentId jd) PROCESSING; upd = final_row (target dis) (tx_time env)
           in if length (returning here upd (payments d)) = 0 then Inr d
              else bind_result (insert_event (final_event jd dis env)
                       (d\<lparr>payments := update_where here upd (payments d)\<rparr>))
                     (insert_outbox (final_outbox jd dis env)))"

subsection \<open>The handler\<close>

record handler_env =
  claim_env :: txn_env
  call_env :: bank_env
  settle_env :: txn_env
  rnd :: rat

record 'b worker_state =
  ws_db :: db
  ws_breaker :: breaker
  ws_bank :: 'b
  ws_jobs :: "job_data job list"
  bankAttempts :: "string list"

definition settle :: "processor_config \<Rightarrow> handler_env \<Rightarrow> job_data \<Rightarrow> disposition \<Rightarrow> db
  \<Rightarrow> unit result \<times> db \<times> job_data job list" where
  "settle cfg env jd dis d =
     (case dis of
        Retry reason \<Rightarrow>
          (case retry_txn (MAX_RETRIES cfg) jd reason (settle_env env) d of
             Inl e \<Rightarrow> (Inl e, d, [])
           | Inr (scheduled, d') \<Rightarrow>
               (case schedule_retry cfg (rnd env) jd scheduled of
                  Inl e \<Rightarrow> (Inl e, d', [])
                | Inr adds \<Rightarrow> (Inr (), d', adds)))
      | _ \<Rightarrow>
          (case final_txn jd dis (settle_env env) d of
             Inl e \<Rightarrow> (Inl e, d, [])
           | Inr d' \<Rightarrow> (Inr (), d', [])))"

definition process :: "processor_config \<Rightarrow> (bank_request \<Rightarrow> 'b \<Rightarrow> (int \<times> bank_outcome settled) option \<times> 'b)
  \<Rightarrow> handler_env \<Rightarrow> job_data \<Rightarrow> 'b worker_state \<Rightarrow> unit result \<times> 'b worker_state" where
  "process cfg call env jd w =
     (case claim_txn jd (claim_env env) (ws_db w) of
        Inl e \<Rightarrow> (Inl e, w)
      | Inr d1 \<Rightarrow>
          (case bank_phase cfg call (call_env env) jd (ws_breaker w) (ws_bank w) of
             (r, br, b, ls) \<Rightarrow>
               (let w1 = w\<lparr>ws_db := d1, ws_breaker := br, ws_bank := b,
                           bankAttempts := bankAttempts w @ ls\<rparr>
                in case r of
                     Inl e \<Rightarrow> (Inl e, w1)
                   | Inr dis \<Rightarrow>
                       (case settle cfg env jd dis d1 of
                          (res, d2, adds) \<Rightarrow>
                            (res, w1\<lparr>ws_db := d2, ws_jobs := ws_jobs w @ adds\<rparr>)))))"

text \<open>The simulated adapter as the port: it answers after its latency.\<close>

definition sim_call :: "bank_request \<Rightarrow> sim_bank \<Rightarrow> (int \<times> bank_outcome settled) option \<times> sim_bank" where
  "sim_call r b = (case authorize r b of (out, b') \<Rightarrow> (Some (timer_ms (sb_latencyMs b), Resolves out), b'))"

subsection \<open>Each transaction is an audited step\<close>

lemma claim_row_simps [simp]:
  "p_id (claim_row t p) = p_id p" "status (claim_row t p) = PROCESSING" "same_terms p (claim_row t p)"
  "version (claim_row t p) = version p + 1" "attemptCount (claim_row t p) = attemptCount p"
  by (simp_all add: claim_row_def same_terms_def)

lemma retry_row_simps [simp]:
  "p_id (retry_row mx r t p) = p_id p" "status (retry_row mx r t p) = retry_status mx p"
  "same_terms p (retry_row mx r t p)" "version (retry_row mx r t p) = version p + 1"
  "attemptCount (retry_row mx r t p) = attemptCount p + 1"
  by (simp_all add: retry_row_def same_terms_def)

lemma final_row_simps [simp]:
  "p_id (final_row s t p) = p_id p" "status (final_row s t p) = s" "same_terms p (final_row s t p)"
  "version (final_row s t p) = version p + 1" "attemptCount (final_row s t p) = attemptCount p"
  by (simp_all add: final_row_def same_terms_def)

text \<open>A compare-and-swap that fires found its one row.\<close>

lemma cas_found:
  assumes "distinct (map p_id t)"
  shows "returning (cas_pred i s) f t
    = (case first_row (select_where (cas_pred i s) t) of None \<Rightarrow> [] | Some r \<Rightarrow> [f r])"
proof -
  have "length (filter (cas_pred i s) t) \<le> 1"
    using assms by (induction t) (auto simp: cas_pred_def filter_empty_conv image_iff)
  then show ?thesis
    by (cases "filter (cas_pred i s) t") (auto simp: returning_def select_where_def)
qed

lemma first_row_cas:
  "first_row (select_where (cas_pred i s) t) = Some r \<Longrightarrow> r \<in> set t \<and> cas_pred i s r"
  by (auto dest!: first_row_Some_in)

lemma claim_cas_Inr:
  assumes "claim_cas jd s env d = Inr d'"
  shows "(d' = d \<and> (\<forall>p \<in> set (payments d). \<not> cas_pred (jd_paymentId jd) s p))
    \<or> ((\<exists>r \<in> set (payments d). cas_pred (jd_paymentId jd) s r)
      \<and> tx_event env \<notin> e_id ` set (paymentEvents d)
      \<and> d' = d\<lparr>payments := update_where (cas_pred (jd_paymentId jd) s) (claim_row (tx_time env)) (payments d),
              paymentEvents := paymentEvents d @ [claim_event jd s env]\<rparr>)"
  using assms
  by (auto simp: claim_cas_def Let_def returning_Nil claim_event_def split: if_splits)

lemma claim_cas_audited:
  assumes "distinct (map p_id (payments d))" "canTransition s PROCESSING" "claim_cas jd s env d = Inr d'"
  shows "audited_step d d'"
  using claim_cas_Inr [OF assms(3)]
proof (elim disjE conjE bexE)
  fix r assume r: "r \<in> set (payments d)" "cas_pred (jd_paymentId jd) s r"
    and d': "d' = d\<lparr>payments := update_where (cas_pred (jd_paymentId jd) s) (claim_row (tx_time env)) (payments d),
              paymentEvents := paymentEvents d @ [claim_event jd s env]\<rparr>"
  have "moved r (claim_row (tx_time env) r) (claim_event jd s env)"
    using r(2) assms(2) by (auto simp: moved_def claim_event_def budget_event_def cas_pred_def)
  then show ?thesis
    by (intro audited_cas [OF assms(1) r, where f = "claim_row (tx_time env)" and e = "claim_event jd s env"])
      (simp_all add: d' claim_event_def)
qed simp

lemma claim_rest_audited:
  assumes "distinct (map p_id (payments d))" "claim_rest jd found env d = Inr d'"
  shows "audited_step d d'"
  using assms claim_cas_audited
  by (auto simp: claim_rest_def split: option.splits if_splits)

lemma retry_txn_Inr:
  assumes "retry_txn mx jd reason env d = Inr (sch, d')"
  shows "(d' = d \<and> sch = None \<and> (\<forall>p \<in> set (payments d). \<not> cas_pred (jd_paymentId jd) PROCESSING p))
    \<or> (\<exists>r. first_row (select_where (cas_pred (jd_paymentId jd) PROCESSING) (payments d)) = Some r
      \<and> tx_event env \<notin> e_id ` set (paymentEvents d)
      \<and> sch = (if attemptCount r + 1 > mx then None else Some (attemptCount r + 1))
      \<and> d' = d\<lparr>payments := update_where (cas_pred (jd_paymentId jd) PROCESSING)
                (retry_row mx reason (tx_time env)) (payments d),
              paymentEvents := paymentEvents d @
                [retry_event jd (retry_row mx reason (tx_time env) r) reason env]\<rparr>)"
proof -
  let ?c = "cas_pred (jd_paymentId jd) PROCESSING"
  have fr: "first_row (returning ?c f t) = map_option f (first_row (select_where ?c t))" for f t
    by (simp add: returning_def select_where_def first_row_def split: list.splits)
  show ?thesis
  proof (cases "first_row (select_where ?c (payments d))")
    case None
    then show ?thesis
      using assms by (auto simp: retry_txn_def Let_def fr select_where_def filter_empty_conv)
  next
    case (Some r)
    with assms show ?thesis
      by (auto simp: retry_txn_def Let_def fr retry_event_def retry_status_def split: if_splits)
  qed
qed

lemma retry_txn_audited:
  assumes "distinct (map p_id (payments d))" "retry_txn mx jd reason env d = Inr (sch, d')"
  shows "audited_step d d'"
  using retry_txn_Inr [OF assms(2)]
proof (elim disjE conjE exE)
  fix r assume r: "first_row (select_where (cas_pred (jd_paymentId jd) PROCESSING) (payments d)) = Some r"
    and d': "d' = d\<lparr>payments := update_where (cas_pred (jd_paymentId jd) PROCESSING)
                (retry_row mx reason (tx_time env)) (payments d),
              paymentEvents := paymentEvents d @
                [retry_event jd (retry_row mx reason (tx_time env) r) reason env]\<rparr>"
  note r' = first_row_cas [OF r]
  have "moved r (retry_row mx reason (tx_time env) r)
      (retry_event jd (retry_row mx reason (tx_time env) r) reason env)"
    using r' by (auto simp: moved_def retry_event_def budget_event_def cas_pred_def retry_status_def)
  then show ?thesis
    by (intro audited_cas [OF assms(1) r' [THEN conjunct1] r' [THEN conjunct2],
          where f = "retry_row mx reason (tx_time env)"])
      (simp_all add: d' retry_event_def)
qed simp

lemma final_txn_Inr:
  assumes "final_txn jd dis env d = Inr d'"
  shows "canTransition PROCESSING (target dis) \<and>
    ((d' = d \<and> (\<forall>p \<in> set (payments d). \<not> cas_pred (jd_paymentId jd) PROCESSING p))
    \<or> ((\<exists>r \<in> set (payments d). cas_pred (jd_paymentId jd) PROCESSING r)
      \<and> tx_event env \<notin> e_id ` set (paymentEvents d)
      \<and> d' = d\<lparr>payments := update_where (cas_pred (jd_paymentId jd) PROCESSING)
                (final_row (target dis) (tx_time env)) (payments d),
              paymentEvents := paymentEvents d @ [final_event jd dis env],
              outbox := outbox d @ [final_outbox jd dis env]\<rparr>))"
  using assms
  by (auto simp: final_txn_def Let_def returning_Nil final_event_def split: if_splits)

lemma final_event_budget:
  "dis = Complete m \<or> dis = Fail (JObj [(''reason'', JStr s)]) \<Longrightarrow> \<not> budget_event (final_event jd dis env)"
  by (auto simp: budget_event_def final_event_def exhausted_metadata_def)

text \<open>The dispositions a bank outcome can give.\<close>

definition bank_disposition :: "disposition \<Rightarrow> bool" where
  "bank_disposition dis \<longleftrightarrow> (\<exists>m. dis = Complete m) \<or> (\<exists>s. dis = Fail (JObj [(''reason'', JStr s)]))"

lemma disposition_of_shape: "is_retry (disposition_of out) \<or> bank_disposition (disposition_of out)"
  by (cases out) (auto simp: bank_disposition_def)

lemma final_txn_audited:
  assumes "distinct (map p_id (payments d))" "bank_disposition dis" "final_txn jd dis env d = Inr d'"
  shows "audited_step d d'"
  using final_txn_Inr [OF assms(3)]
proof (elim disjE conjE bexE)
  fix r assume r: "r \<in> set (payments d)" "cas_pred (jd_paymentId jd) PROCESSING r"
    and ct: "canTransition PROCESSING (target dis)"
    and d': "d' = d\<lparr>payments := update_where (cas_pred (jd_paymentId jd) PROCESSING)
                (final_row (target dis) (tx_time env)) (payments d),
              paymentEvents := paymentEvents d @ [final_event jd dis env],
              outbox := outbox d @ [final_outbox jd dis env]\<rparr>"
  have "\<not> budget_event (final_event jd dis env)"
    using assms(2) final_event_budget by (auto simp: bank_disposition_def)
  then have "moved r (final_row (target dis) (tx_time env) r) (final_event jd dis env)"
    using r(2) ct by (auto simp: moved_def final_event_def cas_pred_def)
  then show ?thesis
    by (intro audited_cas [OF assms(1) r, where f = "final_row (target dis) (tx_time env)"])
      (simp_all add: d' final_event_def)
qed simp

definition claim_write :: "job_data \<times> payment_status option \<times> txn_env \<Rightarrow> db \<Rightarrow> db result" where
  "claim_write a d = (case a of (jd, found, env) \<Rightarrow> claim_rest jd found env d)"

definition retry_write :: "nat \<times> job_data \<times> string \<times> txn_env \<Rightarrow> db \<Rightarrow> db result" where
  "retry_write a d = (case a of (mx, jd, reason, env) \<Rightarrow>
     bind_result (retry_txn mx jd reason env d) (\<lambda>(sch, d'). Inr d'))"

definition final_write :: "job_data \<times> bank_outcome \<times> txn_env \<Rightarrow> db \<Rightarrow> db result" where
  "final_write a d = (case a of (jd, out, env) \<Rightarrow>
     if is_retry (disposition_of out) then Inr d else final_txn jd (disposition_of out) env d)"

interpretation claim_writer: audited_writer claim_write
  by unfold_locales (auto simp: claim_write_def intro: claim_rest_audited)

interpretation retry_writer: audited_writer retry_write
  by unfold_locales (auto simp: retry_write_def intro: retry_txn_audited)

lemma final_write_audited:
  assumes "distinct (map p_id (payments d))" "final_write (jd, out, env) d = Inr d'"
  shows "audited_step d d'"
proof (cases "is_retry (disposition_of out)")
  case False
  then have "bank_disposition (disposition_of out)" using disposition_of_shape by blast
  from final_txn_audited [OF assms(1) this] assms(2) False show ?thesis by (simp add: final_write_def)
qed (use assms in \<open>simp add: final_write_def\<close>)

interpretation final_writer: audited_writer final_write
  by unfold_locales (auto intro: final_write_audited)

subsection \<open>What the transactions do to the payment of the job\<close>

definition row_update :: "string \<Rightarrow> (payment \<Rightarrow> payment) \<Rightarrow> db \<Rightarrow> db" where
  "row_update pid f d = d\<lparr>payments := update_where (\<lambda>x. p_id x = pid) f (payments d)\<rparr>"

lemma row_update_frame [simp]:
  "paymentEvents (row_update pid f d) = paymentEvents d" "outbox (row_update pid f d) = outbox d"
  "payments (row_update pid f d) = update_where (\<lambda>x. p_id x = pid) f (payments d)"
  by (simp_all add: row_update_def)

lemma row_update_twice:
  assumes "\<And>x. p_id (f x) = p_id x"
  shows "update_where (\<lambda>x. p_id x = pid) g (update_where (\<lambda>x. p_id x = pid) f t)
    = update_where (\<lambda>x. p_id x = pid) (g \<circ> f) t"
  by (induction t) (auto simp: update_where_def assms)

lemma cas_at:
  assumes "distinct (map p_id t)" "p \<in> set t" "p_id p = pid"
  shows "update_where (cas_pred pid (status p)) f t = update_where (\<lambda>x. p_id x = pid) f t"
    and "select_where (cas_pred pid (status p)) t = select_where (\<lambda>x. p_id x = pid) t"
    and "first_row (select_where (\<lambda>x. p_id x = pid) t) = Some p"
proof -
  have "cas_pred pid (status p) x \<longleftrightarrow> p_id x = pid" if "x \<in> set t" for x
    using distinct_key_unique [OF assms(1) that assms(2)] assms(3) by (auto simp: cas_pred_def)
  then show "update_where (cas_pred pid (status p)) f t = update_where (\<lambda>x. p_id x = pid) f t"
    "select_where (cas_pred pid (status p)) t = select_where (\<lambda>x. p_id x = pid) t"
    by (auto simp: update_where_def select_where_def intro: filter_cong)
  show "first_row (select_where (\<lambda>x. p_id x = pid) t) = Some p"
    using first_row_select_key [OF assms(1,2)] assms(3) by simp
qed

lemma claim_ok:
  assumes "distinct (map p_id (payments d))" "p \<in> set (payments d)" "p_id p = jd_paymentId jd"
    and "canTransition (status p) PROCESSING" "tx_event env \<notin> e_id ` set (paymentEvents d)"
  shows "claim_txn jd env d = Inr ((row_update (p_id p) (claim_row (tx_time env)) d)
    \<lparr>paymentEvents := paymentEvents d @ [claim_event jd (status p) env]\<rparr>)"
proof -
  note cas = cas_at [OF assms(1-3)]
  have read: "claim_read (jd_paymentId jd) d = Some (status p)" using cas(3) by (simp add: claim_read_def)
  have "p \<in> {x \<in> set (payments d). cas_pred (jd_paymentId jd) (status p) x}"
    using assms(2,3) by (simp add: cas_pred_def)
  then have "returning (cas_pred (jd_paymentId jd) (status p)) f (payments d) \<noteq> []" for f :: "payment \<Rightarrow> payment"
    by (auto simp: returning_Nil)
  moreover have "jd_paymentId jd \<in> p_id ` set (payments d)" using assms(2,3) by force
  ultimately show ?thesis
    using assms read cas(1)
    by (auto simp: claim_txn_def claim_rest_def claim_cas_def Let_def claim_event_def row_update_def
        insert_event_def insert_row_def map_update_where)
qed

text \<open>A job whose payment cannot be claimed leaves the database alone in transaction 1.\<close>

lemma claim_not_startable:
  assumes "distinct (map p_id (payments d))"
    and "\<forall>p \<in> set (payments d). p_id p = jd_paymentId jd \<longrightarrow> \<not> canTransition (status p) PROCESSING"
  shows "claim_txn jd env d = Inr d"
proof (cases "first_row (select_where (\<lambda>p. p_id p = jd_paymentId jd) (payments d))")
  case (Some p)
  then have "p \<in> set (payments d)" "p_id p = jd_paymentId jd" by (auto dest!: first_row_Some_in)
  with assms(2) Some show ?thesis by (simp add: claim_txn_def claim_read_def claim_rest_def)
qed (simp add: claim_txn_def claim_read_def claim_rest_def)

lemma final_ok:
  assumes "distinct (map p_id (payments d))" "p \<in> set (payments d)" "p_id p = jd_paymentId jd"
    and "status p = PROCESSING" "\<not> is_retry dis" "tx_event env \<notin> e_id ` set (paymentEvents d)"
    and "(tx_outbox env, tx_db_now env) \<notin> (\<lambda>x. (o_id x, o_createdAt x)) ` set (outbox d)"
  shows "final_txn jd dis env d = Inr ((row_update (p_id p) (final_row (target dis) (tx_time env)) d)
    \<lparr>paymentEvents := paymentEvents d @ [final_event jd dis env],
     outbox := outbox d @ [final_outbox jd dis env]\<rparr>)"
proof -
  note cas = cas_at [OF assms(1-3), unfolded assms(4)]
  have "p \<in> {x \<in> set (payments d). cas_pred (jd_paymentId jd) PROCESSING x}"
    using assms(2-4) by (simp add: cas_pred_def)
  then have "returning (cas_pred (jd_paymentId jd) PROCESSING) f (payments d) \<noteq> []" for f :: "payment \<Rightarrow> payment"
    by (auto simp: returning_Nil)
  moreover have "jd_paymentId jd \<in> p_id ` set (payments d)" using assms(2,3) by force
  moreover have "canTransition PROCESSING (target dis)" using assms(5) by (cases dis) auto
  ultimately show ?thesis
    using assms cas(1)
    by (auto simp: final_txn_def Let_def final_event_def final_outbox_def row_update_def
        insert_event_def insert_outbox_def insert_row_def map_update_where)
qed

lemma retry_ok:
  assumes "distinct (map p_id (payments d))" "p \<in> set (payments d)" "p_id p = jd_paymentId jd"
    and "status p = PROCESSING" "tx_event env \<notin> e_id ` set (paymentEvents d)"
  shows "retry_txn mx jd reason env d
    = Inr (if attemptCount p + 1 > mx then None else Some (attemptCount p + 1),
      (row_update (p_id p) (retry_row mx reason (tx_time env)) d)
        \<lparr>paymentEvents := paymentEvents d @ [retry_event jd (retry_row mx reason (tx_time env) p) reason env]\<rparr>)"
proof -
  note cas = cas_at [OF assms(1-3), unfolded assms(4)]
  have "first_row (returning (cas_pred (jd_paymentId jd) PROCESSING) f (payments d)) = Some (f p)" for f :: "payment \<Rightarrow> payment"
    using cas(2,3) by (simp add: returning_def select_where_def first_row_def split: list.splits)
  moreover have "jd_paymentId jd \<in> p_id ` set (payments d)" using assms(2,3) by force
  ultimately show ?thesis
    using assms(3,5) cas(1)
    by (auto simp: retry_txn_def Let_def retry_event_def row_update_def retry_status_def
        insert_event_def insert_row_def map_update_where)
qed

subsection \<open>The handler, branch by branch\<close>

definition env_fresh :: "handler_env \<Rightarrow> db \<Rightarrow> bool" where
  "env_fresh env d \<longleftrightarrow>
     tx_event (claim_env env) \<notin> e_id ` set (paymentEvents d)
     \<and> tx_event (settle_env env) \<notin> e_id ` set (paymentEvents d)
     \<and> tx_event (claim_env env) \<noteq> tx_event (settle_env env)
     \<and> (tx_outbox (settle_env env), tx_db_now (settle_env env))
         \<notin> (\<lambda>x. (o_id x, o_createdAt x)) ` set (outbox d)"

lemma bank_phase_answer:
  assumes "cb_allow (breaker_cfg cfg) (bk_allow_time env) br = (True, br1)"
    and "call (authorize_request jd) b = (p, b1)" "settle_call cfg p = (Inr dis, ls)"
  shows "bank_phase cfg call env jd br b
    = (Inr dis, cb_record (breaker_cfg cfg) (bk_record_time env) (\<not> is_retry dis) br1, b1, ls)"
  using assms by (simp add: bank_phase_def Let_def)

lemma bank_phase_open:
  assumes "cb_allow (breaker_cfg cfg) (bk_allow_time env) br = (False, br1)"
  shows "bank_phase cfg call env jd br b = (Inr (Retry ''circuit_open''), br1, b, [''circuit_open''])"
  using assms by (simp add: bank_phase_def)

lemma settle_call_answer:
  "t \<le> timer_ms (BANK_TIMEOUT_MS cfg) \<Longrightarrow>
   settle_call cfg (Some (t, Resolves out)) = (Inr (disposition_of out), [outcome_label out])"
  by (simp add: settle_call_def withTimeout_def)

lemma settle_call_late:
  "timer_ms (BANK_TIMEOUT_MS cfg) < t \<Longrightarrow>
   settle_call cfg (Some (t, r)) = (Inr (Retry ''bank_timeout''), [''timeout''])"
  by (simp add: settle_call_def withTimeout_def)

text \<open>What the settling finds after the claim.\<close>

lemma after_claim:
  fixes d p env jd
  defines "d1 \<equiv> (row_update (p_id p) (claim_row (tx_time (claim_env env))) d)
    \<lparr>paymentEvents := paymentEvents d @ [claim_event jd (status p) (claim_env env)]\<rparr>"
  assumes "distinct (map p_id (payments d))" "p \<in> set (payments d)" "env_fresh env d"
  shows "distinct (map p_id (payments d1))"
    and "claim_row (tx_time (claim_env env)) p \<in> set (payments d1)"
    and "tx_event (settle_env env) \<notin> e_id ` set (paymentEvents d1)"
    and "(tx_outbox (settle_env env), tx_db_now (settle_env env))
           \<notin> (\<lambda>x. (o_id x, o_createdAt x)) ` set (outbox d1)"
  using assms by (auto simp: env_fresh_def map_update_where claim_event_def in_update_where)

lemma process_final:
  assumes dist: "distinct (map p_id (payments (ws_db w)))"
    and p: "p \<in> set (payments (ws_db w))" "p_id p = jd_paymentId jd" "canTransition (status p) PROCESSING"
    and fresh: "env_fresh env (ws_db w)"
    and bank: "bank_phase cfg call (call_env env) jd (ws_breaker w) (ws_bank w) = (Inr dis, br, b, ls)"
    and dis: "\<not> is_retry dis"
  shows "process cfg call env jd w =
    (Inr (), w\<lparr>ws_db := (row_update (p_id p)
          (final_row (target dis) (tx_time (settle_env env)) \<circ> claim_row (tx_time (claim_env env))) (ws_db w))
        \<lparr>paymentEvents := paymentEvents (ws_db w)
            @ [claim_event jd (status p) (claim_env env), final_event jd dis (settle_env env)],
         outbox := outbox (ws_db w) @ [final_outbox jd dis (settle_env env)]\<rparr>,
      ws_breaker := br, ws_bank := b, bankAttempts := bankAttempts w @ ls\<rparr>)"
proof -
  let ?d1 = "(row_update (p_id p) (claim_row (tx_time (claim_env env))) (ws_db w))
    \<lparr>paymentEvents := paymentEvents (ws_db w) @ [claim_event jd (status p) (claim_env env)]\<rparr>"
  note after = after_claim [OF dist p(1) fresh, where jd = jd]
  have 1: "claim_txn jd (claim_env env) (ws_db w) = Inr ?d1"
    using fresh by (intro claim_ok [OF dist p]) (simp add: env_fresh_def)
  have 2: "final_txn jd dis (settle_env env) ?d1
      = Inr ((row_update (p_id p) (final_row (target dis) (tx_time (settle_env env))) ?d1)
        \<lparr>paymentEvents := paymentEvents ?d1 @ [final_event jd dis (settle_env env)],
         outbox := outbox ?d1 @ [final_outbox jd dis (settle_env env)]\<rparr>)"
    using final_ok [OF after(1,2), of jd dis] after(3,4) dis p(2) by simp
  show ?thesis using dis 2
    unfolding process_def 1 bank
    by (cases dis) (simp_all add: settle_def Let_def row_update_def row_update_twice)
qed

lemma process_retry:
  assumes dist: "distinct (map p_id (payments (ws_db w)))"
    and p: "p \<in> set (payments (ws_db w))" "p_id p = jd_paymentId jd" "canTransition (status p) PROCESSING"
    and fresh: "env_fresh env (ws_db w)"
    and bank: "bank_phase cfg call (call_env env) jd (ws_breaker w) (ws_bank w) = (Inr (Retry reason), br, b, ls)"
  defines "upd \<equiv> retry_row (MAX_RETRIES cfg) reason (tx_time (settle_env env))
      \<circ> claim_row (tx_time (claim_env env))"
    and "sch \<equiv> (if attemptCount p + 1 > MAX_RETRIES cfg then None else Some (attemptCount p + 1))"
  shows "process cfg call env jd w =
    (case schedule_retry cfg (rnd env) jd sch of Inl e \<Rightarrow> Inl e | Inr _ \<Rightarrow> Inr (),
     w\<lparr>ws_db := (row_update (p_id p) upd (ws_db w))
        \<lparr>paymentEvents := paymentEvents (ws_db w)
            @ [claim_event jd (status p) (claim_env env), retry_event jd (upd p) reason (settle_env env)]\<rparr>,
       ws_breaker := br, ws_bank := b, bankAttempts := bankAttempts w @ ls,
       ws_jobs := ws_jobs w @ (case schedule_retry cfg (rnd env) jd sch of Inl e \<Rightarrow> [] | Inr adds \<Rightarrow> adds)\<rparr>)"
proof -
  let ?d1 = "(row_update (p_id p) (claim_row (tx_time (claim_env env))) (ws_db w))
    \<lparr>paymentEvents := paymentEvents (ws_db w) @ [claim_event jd (status p) (claim_env env)]\<rparr>"
  let ?c = "claim_row (tx_time (claim_env env)) p"
  note after = after_claim [OF dist p(1) fresh, where jd = jd]
  have 1: "claim_txn jd (claim_env env) (ws_db w) = Inr ?d1"
    using fresh by (intro claim_ok [OF dist p]) (simp add: env_fresh_def)
  have 2: "retry_txn (MAX_RETRIES cfg) jd reason (settle_env env) ?d1 = Inr (sch,
      (row_update (p_id p) (retry_row (MAX_RETRIES cfg) reason (tx_time (settle_env env))) ?d1)
        \<lparr>paymentEvents := paymentEvents ?d1 @ [retry_event jd (upd p) reason (settle_env env)]\<rparr>)"
    using retry_ok [OF after(1,2), of jd] after(3) p(2) by (simp add: upd_def sch_def)
  show ?thesis using 2
    unfolding process_def 1 bank
    by (simp add: settle_def Let_def row_update_def row_update_twice upd_def split: sum.splits)
qed

text \<open>
  A job for a payment that is finished, in progress or unknown still asks the bank; then its
  second transaction finds no row in PROCESSING unless another worker holds the payment.
\<close>

lemma process_terminal:
  assumes dist: "distinct (map p_id (payments (ws_db w)))"
    and fin: "\<forall>p \<in> set (payments (ws_db w)). p_id p = jd_paymentId jd \<longrightarrow> is_terminal (status p)"
    and bank: "bank_phase cfg call (call_env env) jd (ws_breaker w) (ws_bank w) = (Inr dis, br, b, ls)"
  shows "process cfg call env jd w =
    (Inr (), w\<lparr>ws_breaker := br, ws_bank := b, bankAttempts := bankAttempts w @ ls\<rparr>)"
proof -
  have 1: "claim_txn jd (claim_env env) (ws_db w) = Inr (ws_db w)"
    using fin pay.terminal_stuck by (intro claim_not_startable [OF dist]) blast
  have none: "returning (cas_pred (jd_paymentId jd) PROCESSING) f (payments (ws_db w)) = []"
    for f :: "payment \<Rightarrow> payment"
    using fin by (auto simp: returning_Nil cas_pred_def)
  show ?thesis
    unfolding process_def 1 bank
    by (cases dis) (simp_all add: settle_def Let_def final_txn_def retry_txn_def none schedule_retry_def)
qed

end
