(* ===== verification/System.thy ===== *)
theory System
  imports Payments Relay Reaper PaymentWorker
begin

text \<open>
  The processes together: the API, the relay, the reaper and any number of worker processes as
  one step relation over the database, the payments queue and what each worker is doing. A worker
  process takes one job at a time and has a breaker and a simulated bank of its own, in memory. One
  step is one transaction, one queue operation or one bank call, so the steps of different
  processes interleave freely. The queue delivers at least once (a dequeued job may be delivered
  again), a handler may throw anywhere, a worker process may crash anywhere and restart without
  its memory, and a bank call that was issued may take effect after the worker has given up on
  it. Invariants are proved by rule induction.
\<close>

datatype worker_pc =
    Idle
  | Claiming job_data "payment_status option"
  | Claimed job_data
  | Waiting job_data
  | Settling job_data disposition

text \<open>
  \<open>s_calls\<close> are the calls in flight, each with the worker whose adapter has it; \<open>s_lives\<close> counts the
  restarts of a worker. \<open>s_charged\<close> and \<open>s_charge_count\<close> are history variables that no step reads:
  which life of which worker has charged which key, and how many charges adapters ever made.
\<close>

record system =
  s_db :: db
  s_banks :: "nat \<Rightarrow> sim_bank"
  s_queue :: "job_data job list"
  s_workers :: "nat \<Rightarrow> worker_pc"
  s_breakers :: "nat \<Rightarrow> breaker"
  s_calls :: "(nat \<times> bank_request) list"
  s_lives :: "nat \<Rightarrow> nat"
  s_charged :: "(nat \<times> nat \<times> string) set"
  s_charge_count :: nat

definition set_worker :: "nat \<Rightarrow> worker_pc \<Rightarrow> system \<Rightarrow> system" where
  "set_worker i pc s = s\<lparr>s_workers := (s_workers s)(i := pc)\<rparr>"

definition set_breaker :: "nat \<Rightarrow> breaker \<Rightarrow> system \<Rightarrow> system" where
  "set_breaker i br s = s\<lparr>s_breakers := (s_breakers s)(i := br)\<rparr>"

text \<open>The bank of a worker after an authorization, and what it has newly charged.\<close>

definition set_bank :: "nat \<Rightarrow> sim_bank \<Rightarrow> system \<Rightarrow> system" where
  "set_bank i b s = s\<lparr>s_banks := (s_banks s)(i := b),
     s_charged := s_charged s \<union> (\<lambda>k. (i, s_lives s i, k)) ` (charged_keys b - charged_keys (s_banks s i)),
     s_charge_count := s_charge_count s + (getCharges b - getCharges (s_banks s i))\<rparr>"

text \<open>A worker process dies and is started again: its job, breaker, bank and calls are gone.\<close>

definition restart :: "nat \<Rightarrow> int \<Rightarrow> system \<Rightarrow> system" where
  "restart i now s = s\<lparr>s_workers := (s_workers s)(i := Idle), s_breakers := (s_breakers s)(i := new_breaker now),
     s_banks := (s_banks s)(i := new_bank), s_calls := filter (\<lambda>c. fst c \<noteq> i) (s_calls s),
     s_lives := (s_lives s)(i := s_lives s i + 1)\<rparr>"

text \<open>The keys charged so far, by whatever worker.\<close>

definition charged :: "system \<Rightarrow> string set" where
  "charged s = (\<lambda>(i, n, k). k) ` s_charged s"

definition initial :: "int \<Rightarrow> system" where
  "initial t0 = \<lparr>s_db = empty_db, s_banks = (\<lambda>_. new_bank), s_queue = [], s_workers = (\<lambda>_. Idle),
     s_breakers = (\<lambda>_. new_breaker t0), s_calls = [], s_lives = (\<lambda>_. 0), s_charged = {}, s_charge_count = 0\<rparr>"

inductive sys_step :: "processor_config \<Rightarrow> system \<Rightarrow> system \<Rightarrow> bool" for cfg where
  step_submit: "submit su (s_db s) = (r, d') \<Longrightarrow> sys_step cfg s (s\<lparr>s_db := d'\<rparr>)"
| step_relay: "relay_poll_once locked refuses fails now (s_db s) = (r, d', adds) \<Longrightarrow>
    sys_step cfg s (s\<lparr>s_db := d', s_queue := s_queue s @ adds\<rparr>)"
| step_reap: "reap_once deadline locked env (s_db s) = (r, d', adds) \<Longrightarrow> set adds' \<subseteq> set adds \<Longrightarrow>
    sys_step cfg s (s\<lparr>s_db := d', s_queue := s_queue s @ adds'\<rparr>)"
| step_dequeue: "s_workers s i = Idle \<Longrightarrow> j \<in> set (s_queue s) \<Longrightarrow> jd = job_payload j \<Longrightarrow>
    sys_step cfg s (set_worker i (Claiming jd (claim_read (jd_paymentId jd) (s_db s))) s)"
| step_claim: "s_workers s i = Claiming jd found \<Longrightarrow> claim_rest jd found env (s_db s) = Inr d' \<Longrightarrow>
    sys_step cfg s (set_worker i (Claimed jd) (s\<lparr>s_db := d'\<rparr>))"
| step_refused: "s_workers s i = Claimed jd \<Longrightarrow>
    cb_allow (breaker_cfg cfg) now (s_breakers s i) = (False, br) \<Longrightarrow>
    sys_step cfg s (set_worker i (Settling jd (Retry ''circuit_open'')) (set_breaker i br s))"
| step_call: "s_workers s i = Claimed jd \<Longrightarrow>
    cb_allow (breaker_cfg cfg) now (s_breakers s i) = (True, br) \<Longrightarrow>
    sys_step cfg s (set_worker i (Waiting jd) (set_breaker i br
      (s\<lparr>s_calls := (i, authorize_request jd) # s_calls s\<rparr>)))"
| step_answer: "s_workers s i = Waiting jd \<Longrightarrow> (i, authorize_request jd) \<in> set (s_calls s) \<Longrightarrow>
    authorize (authorize_request jd) (s_banks s i) = (out, b') \<Longrightarrow> dis = disposition_of out \<Longrightarrow>
    br = cb_record (breaker_cfg cfg) now (\<not> is_retry dis) (s_breakers s i) \<Longrightarrow>
    sys_step cfg s (set_worker i (Settling jd dis) (set_breaker i br
      (set_bank i b' (s\<lparr>s_calls := remove1 (i, authorize_request jd) (s_calls s)\<rparr>))))"
| step_late: "(i, req) \<in> set (s_calls s) \<Longrightarrow> authorize req (s_banks s i) = (out, b') \<Longrightarrow>
    sys_step cfg s (set_bank i b' (s\<lparr>s_calls := remove1 (i, req) (s_calls s)\<rparr>))"
| step_timeout: "s_workers s i = Waiting jd \<Longrightarrow>
    br = cb_record (breaker_cfg cfg) now False (s_breakers s i) \<Longrightarrow>
    sys_step cfg s (set_worker i (Settling jd (Retry ''bank_timeout'')) (set_breaker i br s))"
| step_settle: "s_workers s i = Settling jd dis \<Longrightarrow>
    settle cfg env jd dis (s_db s) = (r, d', adds) \<Longrightarrow> adds' = adds \<or> adds' = [] \<Longrightarrow>
    sys_step cfg s (set_worker i Idle (s\<lparr>s_db := d', s_queue := s_queue s @ adds'\<rparr>))"
| step_throw: "sys_step cfg s (set_worker i Idle s)"
| step_crash: "sys_step cfg s (restart i now s)"
| step_chaos: "sys_step cfg s (s\<lparr>s_banks := (s_banks s)(i := setConfig m n l (s_banks s i))\<rparr>)"

inductive reachable :: "processor_config \<Rightarrow> system \<Rightarrow> bool" for cfg where
  reach_init: "reachable cfg (initial t0)"
| reach_step: "reachable cfg s \<Longrightarrow> sys_step cfg s s' \<Longrightarrow> reachable cfg s'"

inductive_cases sys_stepE: "sys_step cfg s s'"

lemma set_worker_simps [simp]:
  "s_db (set_worker i pc s) = s_db s" "s_banks (set_worker i pc s) = s_banks s"
  "s_queue (set_worker i pc s) = s_queue s" "s_calls (set_worker i pc s) = s_calls s"
  "s_workers (set_worker i pc s) = (s_workers s)(i := pc)"
  "s_breakers (set_worker i pc s) = s_breakers s" "s_lives (set_worker i pc s) = s_lives s"
  "s_charged (set_worker i pc s) = s_charged s" "s_charge_count (set_worker i pc s) = s_charge_count s"
  by (simp_all add: set_worker_def)

lemma set_breaker_simps [simp]:
  "s_db (set_breaker i br s) = s_db s" "s_banks (set_breaker i br s) = s_banks s"
  "s_queue (set_breaker i br s) = s_queue s" "s_calls (set_breaker i br s) = s_calls s"
  "s_workers (set_breaker i br s) = s_workers s"
  "s_breakers (set_breaker i br s) = (s_breakers s)(i := br)" "s_lives (set_breaker i br s) = s_lives s"
  "s_charged (set_breaker i br s) = s_charged s" "s_charge_count (set_breaker i br s) = s_charge_count s"
  by (simp_all add: set_breaker_def)

lemma set_bank_simps [simp]:
  "s_db (set_bank i b s) = s_db s" "s_banks (set_bank i b s) = (s_banks s)(i := b)"
  "s_queue (set_bank i b s) = s_queue s" "s_calls (set_bank i b s) = s_calls s"
  "s_workers (set_bank i b s) = s_workers s" "s_breakers (set_bank i b s) = s_breakers s"
  "s_lives (set_bank i b s) = s_lives s"
  by (simp_all add: set_bank_def)

lemma restart_simps [simp]:
  "s_db (restart i now s) = s_db s" "s_banks (restart i now s) = (s_banks s)(i := new_bank)"
  "s_queue (restart i now s) = s_queue s" "s_calls (restart i now s) = filter (\<lambda>c. fst c \<noteq> i) (s_calls s)"
  "s_workers (restart i now s) = (s_workers s)(i := Idle)"
  "s_breakers (restart i now s) = (s_breakers s)(i := new_breaker now)"
  "s_lives (restart i now s) = (s_lives s)(i := s_lives s i + 1)"
  "s_charged (restart i now s) = s_charged s" "s_charge_count (restart i now s) = s_charge_count s"
  by (simp_all add: restart_def)

lemma set_worker_restart [simp]: "set_worker i Idle (restart i now s) = restart i now s"
  by (simp add: set_worker_def restart_def)

lemma charged_simps [simp]:
  "charged (set_worker i pc s) = charged s" "charged (set_breaker i br s) = charged s"
  "charged (restart i now s) = charged s" "charged (s\<lparr>s_db := d\<rparr>) = charged s" "charged (s\<lparr>s_queue := q\<rparr>) = charged s"
  "charged (s\<lparr>s_calls := cs\<rparr>) = charged s" "charged (s\<lparr>s_banks := bs\<rparr>) = charged s"
  "charged (set_bank i b s) = charged s \<union> (charged_keys b - charged_keys (s_banks s i))"
  by (auto simp: charged_def set_bank_def image_Un image_image)

text \<open>An invariant of the initial state that every step keeps holds in every reachable state.\<close>

lemma reachable_invariant:
  assumes "reachable cfg s"
    and "\<And>t0. I (initial t0)" and "\<And>s s'. I s \<Longrightarrow> sys_step cfg s s' \<Longrightarrow> I s'"
  shows "I s"
  using assms(1) by induction (use assms(2,3) in blast)+

subsection \<open>What a step does to the database\<close>

text \<open>
  The transactions of the processes as one relation; \<open>C\<close> holds the payments a worker may
  mark COMPLETED.
\<close>

inductive db_step :: "string set \<Rightarrow> db \<Rightarrow> db \<Rightarrow> bool" for C where
  db_same: "db_step C d d"
| db_submit: "submit_env_fresh env d \<Longrightarrow> find_key (dto_customerId dto) key d = None \<Longrightarrow>
    convAmountToUnits (dto_amount dto) = Inr c \<Longrightarrow>
    db_step C d (submitted_db dto \<lfloor>c\<rfloor> key h corr env d)"
| db_relay: "relay_poll_once locked refuses fails now d = (r, d', adds) \<Longrightarrow> db_step C d d'"
| db_reap: "reap_write a d = Inr d' \<Longrightarrow> db_step C d d'"
| db_claim: "claim_write a d = Inr d' \<Longrightarrow> db_step C d d'"
| db_retry: "retry_write a d = Inr d' \<Longrightarrow> db_step C d d'"
| db_final: "final_txn jd dis env d = Inr d' \<Longrightarrow> bank_disposition dis \<Longrightarrow>
    (target dis = COMPLETED \<Longrightarrow> jd_paymentId jd \<in> C) \<Longrightarrow> db_step C d d'"

lemma submit_db_step: "submit su d = (r, d') \<Longrightarrow> db_step C d d'"
  unfolding submit_def by (drule insert_txn_atomic) (auto intro: db_same db_submit)

lemma reap_db_step:
  assumes "reap_once dl locked env d = (r, d', adds)"
  shows "db_step C d d'"
proof (cases "reap_txn dl locked env d")
  case (Inl e)
  then show ?thesis using assms db_same by (simp add: reap_once_def)
next
  case (Inr x)
  then have "reap_write (dl, locked, env) d = Inr d'"
    using assms by (cases x) (simp add: reap_once_def reap_write_def)
  then show ?thesis by (rule db_reap)
qed

lemma claim_db_step: "claim_rest jd found env d = Inr d' \<Longrightarrow> db_step C d d'"
  by (rule db_claim [of "(jd, found, env)"]) (simp add: claim_write_def)

lemma settle_db_step:
  assumes "settle cfg env jd dis d = (r, d', adds)" "is_retry dis \<or> bank_disposition dis"
    and "target dis = COMPLETED \<Longrightarrow> jd_paymentId jd \<in> C"
  shows "db_step C d d'"
proof (cases "is_retry dis")
  case True
  then obtain reason where dis: "dis = Retry reason" by (cases dis) auto
  show ?thesis
  proof (cases "retry_txn (MAX_RETRIES cfg) jd reason (settle_env env) d")
    case (Inl e)
    then show ?thesis using assms(1) db_same by (simp add: settle_def dis)
  next
    case (Inr x)
    then obtain sch d1 where x: "retry_txn (MAX_RETRIES cfg) jd reason (settle_env env) d = Inr (sch, d1)"
      by (cases x) simp
    then have "d' = d1" using assms(1) by (simp add: settle_def dis split: sum.splits)
    with x show ?thesis
      by (intro db_retry [of "(MAX_RETRIES cfg, jd, reason, settle_env env)"]) (simp add: retry_write_def)
  qed
next
  case False
  then have "(final_txn jd dis (settle_env env) d = Inr d') \<or> d' = d"
    using assms(1) by (cases dis) (auto simp: settle_def split: sum.splits)
  then show ?thesis using False assms(2,3) db_final db_same by blast
qed

text \<open>A worker about to settle holds a disposition the bank gave, for a charged payment if it completes.\<close>

definition pc_ok :: "string set \<Rightarrow> worker_pc \<Rightarrow> bool" where
  "pc_ok C pc \<longleftrightarrow> (\<forall>jd dis. pc = Settling jd dis \<longrightarrow>
     (is_retry dis \<or> bank_disposition dis) \<and> (target dis = COMPLETED \<longrightarrow> jd_paymentId jd \<in> C))"

definition workers_ok :: "system \<Rightarrow> bool" where
  "workers_ok s \<longleftrightarrow> (\<forall>i. pc_ok (charged s) (s_workers s i))"

lemma pc_ok_simps [simp]:
  "pc_ok C Idle" "pc_ok C (Claiming jd f)" "pc_ok C (Claimed jd)" "pc_ok C (Waiting jd)"
  "pc_ok C (Settling jd (Retry reason))"
  by (simp_all add: pc_ok_def)

lemma sys_step_db:
  assumes "workers_ok s" "sys_step cfg s s'"
  shows "db_step (charged s) (s_db s) (s_db s')"
  using assms(2)
proof cases
  case (step_settle i jd dis env r d' adds adds')
  from assms(1) have "pc_ok (charged s) (Settling jd dis)"
    unfolding workers_ok_def by (metis step_settle(2))
  then show ?thesis using settle_db_step [OF step_settle(3)] step_settle(1) by (simp add: pc_ok_def)
qed (auto intro: db_same submit_db_step reap_db_step claim_db_step db_relay)

subsection \<open>The bank side\<close>

lemma pc_ok_mono: "pc_ok C pc \<Longrightarrow> C \<subseteq> D \<Longrightarrow> pc_ok D pc"
  by (auto simp: pc_ok_def)

lemma pc_ok_answer:
  assumes "sim_bank_inv b" "authorize (authorize_request jd) b = (out, b')"
  shows "pc_ok (charged_keys b') (Settling jd (disposition_of out))"
  using sim.auth_charged [OF assms] disposition_of_shape [of out]
  by (cases out) (auto simp: pc_ok_def authorize_request_def)

text \<open>
  The history is that of the banks: each bank holds what this life of its worker has charged, lives
  are counted upwards, and the charges made are as many as the charges recorded.
\<close>

definition history_ok :: "system \<Rightarrow> bool" where
  "history_ok s \<longleftrightarrow>
     (\<forall>i. sim_bank_inv (s_banks s i) \<and> charged_keys (s_banks s i) = {k. (i, s_lives s i, k) \<in> s_charged s})
     \<and> (\<forall>(i, n, k) \<in> s_charged s. n \<le> s_lives s i)
     \<and> finite (s_charged s) \<and> s_charge_count s = card (s_charged s)"

definition bank_ok :: "system \<Rightarrow> bool" where
  "bank_ok s \<longleftrightarrow> history_ok s \<and> workers_ok s"

lemma bank_ok_initial: "bank_ok (initial t0)"
  by (simp add: bank_ok_def history_ok_def initial_def workers_ok_def)

lemma history_ok_same:
  assumes "history_ok s" "s_banks s' = s_banks s" "s_lives s' = s_lives s" "s_charged s' = s_charged s"
    and "s_charge_count s' = s_charge_count s"
  shows "history_ok s'"
  using assms by (simp add: history_ok_def)

lemma history_ok_restart:
  assumes "history_ok s"
  shows "history_ok (restart i now s)"
proof -
  have "(i, s_lives s i + 1, k) \<notin> s_charged s" for k using assms unfolding history_ok_def by fastforce
  then show ?thesis using assms
    by (auto simp: history_ok_def le_Suc_eq split: if_splits)
qed

lemma history_ok_authorize:
  assumes h: "history_ok s" and a: "authorize req (s_banks s i) = (out, b')"
  shows "history_ok (set_bank i b' s)" "charged_keys b' \<subseteq> charged (set_bank i b' s)"
proof -
  let ?b = "s_banks s i" and ?n = "s_lives s i"
  let ?new = "(\<lambda>k. (i, ?n, k)) ` (charged_keys b' - charged_keys ?b)"
  have inv: "sim_bank_inv ?b" and ck: "charged_keys ?b = {k. (i, ?n, k) \<in> s_charged s}"
    and fin: "finite (s_charged s)" and cnt: "s_charge_count s = card (s_charged s)"
    using h by (simp_all add: history_ok_def)
  have inv': "sim_bank_inv b'" using sim.auth_inv [OF inv a] .
  note sub = sim.auth_charged_subset [OF inv a]
  have disj: "s_charged s \<inter> ?new = {}" using ck by auto
  have finb: "finite (charged_keys b')" "finite (charged_keys ?b)" using inv inv' by (simp_all add: sim_bank_inv_def charged_keys_def)
  have "card ?new = card (charged_keys b' - charged_keys ?b)" by (rule card_image) (simp add: inj_on_def)
  also have "\<dots> = getCharges b' - getCharges ?b"
    using inv inv' sub(1) finb by (simp add: card_Diff_subset sim_bank_inv_def getCharges_def charged_keys_def)
  finally have "card (s_charged s \<union> ?new) = card (s_charged s) + (getCharges b' - getCharges ?b)"
    using card_Un_disjoint [OF fin _ disj] finb(1) by simp
  moreover have "charged_keys b' = {k. (i, ?n, k) \<in> s_charged s \<union> ?new}" using ck sub(1) by auto
  ultimately show "history_ok (set_bank i b' s)"
    using h inv' fin finb(1) cnt by (auto simp: history_ok_def set_bank_def)
  show "charged_keys b' \<subseteq> charged (set_bank i b' s)"
  proof -
    have "charged_keys ?b \<subseteq> charged s" using ck by (force simp: charged_def)
    then show ?thesis by auto
  qed
qed

lemma history_ok_step:
  assumes "history_ok s" "sys_step cfg s s'"
  shows "history_ok s' \<and> charged s \<subseteq> charged s'"
  using assms(2)
proof cases
  case (step_answer i jd out b' dis br now)
  let ?s = "s\<lparr>s_calls := remove1 (i, authorize_request jd) (s_calls s)\<rparr>"
  have "history_ok ?s" by (rule history_ok_same [OF assms(1)]) simp_all
  from history_ok_authorize(1) [OF this, of "authorize_request jd" i out b'] step_answer(4)
  have "history_ok (set_bank i b' ?s)" by simp
  then have "history_ok s'" unfolding step_answer(1) by (rule history_ok_same) simp_all
  then show ?thesis by (auto simp: step_answer(1))
next
  case (step_late i req out b')
  let ?s = "s\<lparr>s_calls := remove1 (i, req) (s_calls s)\<rparr>"
  have "history_ok ?s" by (rule history_ok_same [OF assms(1)]) simp_all
  from history_ok_authorize(1) [OF this, of req i out b'] step_late(3) show ?thesis by (auto simp: step_late(1))
next
  case (step_crash i now)
  then show ?thesis using history_ok_restart [OF assms(1)] by simp
next
  case (step_chaos i m n l)
  then show ?thesis using assms(1) by (auto simp: history_ok_def)
qed (auto intro: history_ok_same [OF assms(1)])

lemma bank_ok_step:
  assumes "bank_ok s" "sys_step cfg s s'"
  shows "bank_ok s'"
proof -
  have h: "history_ok s" using assms(1) by (simp add: bank_ok_def)
  note ch = history_ok_step [OF h assms(2)]
  have old: "pc_ok (charged s') (s_workers s i)" for i
    using assms(1) ch pc_ok_mono unfolding bank_ok_def workers_ok_def by blast
  from assms(2) have "workers_ok s'"
  proof cases
    case (step_answer i jd out b' dis br now)
    have "sim_bank_inv (s_banks s i)" using h by (simp add: history_ok_def)
    note pc = pc_ok_answer [OF this step_answer(4)]
    let ?s = "s\<lparr>s_calls := remove1 (i, authorize_request jd) (s_calls s)\<rparr>"
    have "history_ok ?s" by (rule history_ok_same [OF h]) simp_all
    from history_ok_authorize(2) [OF this, of "authorize_request jd" i out b'] step_answer(4)
    have "charged_keys b' \<subseteq> charged s'" by (simp add: step_answer(1))
    with pc have "pc_ok (charged s') (Settling jd dis)" unfolding step_answer(5) by (rule pc_ok_mono)
    with old show ?thesis by (simp add: workers_ok_def step_answer(1))
  qed (use old in \<open>auto simp: workers_ok_def\<close>)
  with ch show ?thesis by (simp add: bank_ok_def)
qed

lemma reachable_bank_ok: "reachable cfg s \<Longrightarrow> bank_ok s"
  using reachable_invariant [of cfg s bank_ok] bank_ok_initial bank_ok_step by blast

text \<open>The job a worker holds, and the jobs a settling adds.\<close>

fun pc_job :: "worker_pc \<Rightarrow> job_data option" where
  "pc_job Idle = None"
| "pc_job (Claiming jd _) = Some jd"
| "pc_job (Claimed jd) = Some jd"
| "pc_job (Waiting jd) = Some jd"
| "pc_job (Settling jd _) = Some jd"

lemma settle_jobs: "settle cfg env jd dis d = (r, d', adds) \<Longrightarrow> j \<in> set adds \<Longrightarrow> job_payload j = jd"
  by (cases dis) (auto simp: settle_def schedule_retry_def retry_job_def split: sum.splits prod.splits option.splits)

subsection \<open>The ledger of every reachable state\<close>

definition ledger_ok :: "db \<Rightarrow> bool" where
  "ledger_ok d \<longleftrightarrow> audit_ok d \<and> keys_wf d"

lemma audit_ok_distinct: "audit_ok d \<Longrightarrow> distinct (map p_id (payments d))"
  by (simp add: audit_ok_def)

lemma audit_ok_submitted_db:
  assumes ok: "audit_ok d" and fresh: "submit_env_fresh env d"
  shows "audit_ok (submitted_db dto c key h corr env d)"
proof -
  let ?row = "payment_row dto c env" and ?e = "submitted_event (payment_row dto c env) corr env"
  have new: "se_id env \<notin> p_id ` set (payments d)" using fresh by (simp add: submit_env_fresh_def)
  have "e_paymentId e \<noteq> se_id env" if "e \<in> set (paymentEvents d)" for e
    using ok new that by (metis audit_ok_def)
  then have "events_of (se_id env) (paymentEvents d) = []" by (rule events_of_none)
  then have row: "payment_audited (paymentEvents d @ [?e]) ?row"
    by (simp add: payment_audited_def submitted_event_def event_move_def budget_event_def)
  have "payment_audited (paymentEvents d @ [?e]) p" if p: "p \<in> set (payments d)" for p
  proof -
    have "p_id p \<noteq> se_id env" using new p by force
    then show ?thesis using ok p by (simp add: audit_ok_def payment_audited_def submitted_event_def)
  qed
  with row new ok show ?thesis
    by (auto simp: audit_ok_def submitted_db_def Let_def) (auto simp: submitted_event_def)
qed

lemma keys_wf_audited_step: "keys_wf d \<Longrightarrow> audited_step d d' \<Longrightarrow> keys_wf d'"
  using audited_step_frame [of d d'] by (simp add: keys_wf_def)

text \<open>Every transaction but a submission is an audited step; the relay's is one that moves no payment.\<close>

lemma db_step_audited:
  assumes "db_step C d d'" "audit_ok d"
  shows "audited_step d d' \<or> (\<exists>dto c key h corr env. submit_env_fresh env d
    \<and> find_key (dto_customerId dto) key d = None \<and> d' = submitted_db dto c key h corr env d)"
  using assms(1)
proof cases
  case (db_relay locked refuses fails now r adds)
  note f = relay_poll_frame [OF db_relay]
  have "audited_step d d'" unfolding audited_step_def f by (auto intro!: exI [of _ "[]"])
  then show ?thesis ..
next
  case (db_final jd dis env)
  then show ?thesis using final_txn_audited [OF audit_ok_distinct [OF assms(2)]] by blast
next
  case (db_submit env dto key c h corr)
  then show ?thesis by blast
qed (use audit_ok_distinct [OF assms(2)] reap_writer.write_audited claim_writer.write_audited
       retry_writer.write_audited in \<open>auto\<close>)

lemma ledger_ok_step: "ledger_ok d \<Longrightarrow> db_step C d d' \<Longrightarrow> ledger_ok d'"
  unfolding ledger_ok_def
  using db_step_audited audited_step_ok keys_wf_audited_step audit_ok_submitted_db keys_wf_submitted_db
  by metis

lemma ledger_ok_empty: "ledger_ok empty_db"
  by (simp add: ledger_ok_def audit_ok_def keys_wf_def empty_db_def)

lemma reachable_db_step:
  "reachable cfg s \<Longrightarrow> sys_step cfg s s' \<Longrightarrow> db_step (charged s) (s_db s) (s_db s')"
  using reachable_bank_ok sys_step_db by (auto simp: bank_ok_def)

text \<open>An invariant of the database that its transactions keep holds in every reachable state.\<close>

lemma reachable_db_invariant:
  assumes "reachable cfg s" and "I empty_db"
    and "\<And>C d d'. ledger_ok d \<Longrightarrow> I d \<Longrightarrow> db_step C d d' \<Longrightarrow> I d'"
  shows "ledger_ok (s_db s) \<and> I (s_db s)"
  using assms(1)
proof induction
  case (reach_init t0)
  then show ?case using assms(2) ledger_ok_empty by (simp add: initial_def)
next
  case (reach_step s s')
  then show ?case using reachable_db_step ledger_ok_step assms(3) by blast
qed

lemma reachable_ledger_ok: "reachable cfg s \<Longrightarrow> ledger_ok (s_db s)"
  using reachable_db_invariant [of cfg s "\<lambda>_. True"] by simp

text \<open>A payment's terms never change, and payments are never removed.\<close>

lemma db_step_terms:
  assumes "db_step C d d'" "audit_ok d" "p \<in> set (payments d)"
  shows "\<exists>q \<in> set (payments d'). same_terms p q"
  using db_step_audited [OF assms(1,2)]
proof (elim disjE exE conjE)
  assume "audited_step d d'"
  then show ?thesis using assms(3) unfolding audited_step_def by blast
next
  fix dto c key h corr env
  assume "d' = submitted_db dto c key h corr env d"
  then have "p \<in> set (payments d')" using assms(3) by (simp add: submitted_db_def Let_def)
  then show ?thesis using same_terms_refl by blast
qed

subsection \<open>A finished payment is final\<close>

definition history :: "string \<Rightarrow> db \<Rightarrow> payment_event list" where
  "history i d = events_of i (paymentEvents d)"

lemma db_step_terminal:
  assumes "db_step C d d'" "audit_ok d" "p \<in> set (payments d)" "is_terminal (status p)"
  shows "p \<in> set (payments d') \<and> history (p_id p) d' = history (p_id p) d"
  using db_step_audited [OF assms(1,2)]
proof (elim disjE exE conjE)
  assume "audited_step d d'"
  then obtain evs q where "q \<in> set (payments d')" "paymentEvents d' = paymentEvents d @ evs"
    "(q = p \<and> events_of (p_id p) evs = []) \<or> (\<exists>e. events_of (p_id p) evs = [e] \<and> moved p q e)"
    using assms(3) unfolding audited_step_def by blast
  then show ?thesis using assms(4) pay.terminal_stuck by (auto simp: moved_def history_def)
next
  fix dto c key h corr env
  assume "submit_env_fresh env d" "d' = submitted_db dto c key h corr env d"
  moreover from this have "p_id p \<noteq> se_id env" using assms(3) by (metis imageI submit_env_fresh_def)
  ultimately show ?thesis using assms(3)
    by (simp add: submitted_db_def Let_def history_def submitted_event_def)
qed

lemma steps_reachable: "(sys_step cfg)\<^sup>*\<^sup>* s s' \<Longrightarrow> reachable cfg s \<Longrightarrow> reachable cfg s'"
  by (induction rule: rtranclp_induct) (auto intro: reach_step)

lemma steps_terminal:
  assumes "(sys_step cfg)\<^sup>*\<^sup>* s s'" "reachable cfg s" "p \<in> set (payments (s_db s))" "is_terminal (status p)"
  shows "p \<in> set (payments (s_db s')) \<and> history (p_id p) (s_db s') = history (p_id p) (s_db s)"
  using assms(1)
proof (induction rule: rtranclp_induct)
  case base
  then show ?case using assms(3) by simp
next
  case (step s1 s2)
  have "reachable cfg s1" using steps_reachable [OF step.hyps(1) assms(2)] .
  then show ?case
    using db_step_terminal [OF reachable_db_step _ _ assms(4)] step.hyps(2) step.IH reachable_ledger_ok
    by (metis ledger_ok_def)
qed

text \<open>What is charged stays charged, and lives are never taken back.\<close>

lemma sys_step_lives: "sys_step cfg s s' \<Longrightarrow> s_lives s i \<le> s_lives s' i"
  by (induction rule: sys_step.induct) auto

lemma steps_history:
  assumes "(sys_step cfg)\<^sup>*\<^sup>* s s'" "reachable cfg s"
  shows "charged s \<subseteq> charged s' \<and> s_charged s \<subseteq> s_charged s' \<and> s_lives s i \<le> s_lives s' i"
  using assms(1)
proof (induction rule: rtranclp_induct)
  case (step s1 s2)
  have "s_charged s1 \<subseteq> s_charged s2"
    using step.hyps(2) by (induction rule: sys_step.induct) (auto simp: set_bank_def)
  with step.IH sys_step_lives [OF step.hyps(2), of i] show ?case
    unfolding charged_def by (meson image_mono order_trans)
qed simp

lemma reachable_history_ok: "reachable cfg s \<Longrightarrow> history_ok s"
  using reachable_bank_ok by (simp add: bank_ok_def)

lemma history_charged: "history_ok s \<Longrightarrow> k \<in> charged_keys (s_banks s i) \<Longrightarrow> (i, s_lives s i, k) \<in> s_charged s"
  by (simp add: history_ok_def)

lemma in_charged: "(i, n, k) \<in> s_charged s \<Longrightarrow> k \<in> charged s"
  by (force simp: charged_def)

subsection \<open>The outbox is the projection of the ledger\<close>

text \<open>The outbox rows an event of the ledger is written with.\<close>

definition emits :: "payment_event \<Rightarrow> string list" where
  "emits e =
     (case toStatus e of
        PENDING \<Rightarrow> [''payment.submitted'']
      | COMPLETED \<Rightarrow> [''payment.completed'']
      | FAILED \<Rightarrow> if budget_event e then [] else [''payment.failed'']
      | _ \<Rightarrow> [])"

definition outbox_of :: "string \<Rightarrow> db \<Rightarrow> string list" where
  "outbox_of i d = map eventType (select_where (\<lambda>r. aggregateId r = i) (outbox d))"

definition outbox_ok :: "db \<Rightarrow> bool" where
  "outbox_ok d \<longleftrightarrow> (\<forall>i. outbox_of i d = concat (map emits (events_of i (paymentEvents d))))"

lemma outbox_of_append:
  "outbox d' = outbox d @ [r] \<Longrightarrow>
   outbox_of i d' = outbox_of i d @ (if aggregateId r = i then [eventType r] else [])"
  by (simp add: outbox_of_def select_where_def)

lemma outbox_ok_quiet:
  assumes "outbox_ok d" "outbox d' = outbox d" "paymentEvents d' = paymentEvents d @ evs"
    and "\<forall>e \<in> set evs. emits e = []"
  shows "outbox_ok d'"
proof -
  have "concat (map emits (events_of i evs)) = []" for i
    using assms(4) by (auto simp: events_of_def)
  then show ?thesis using assms(1-3) by (simp add: outbox_ok_def outbox_of_def)
qed

lemma outbox_ok_emit:
  assumes "outbox_ok d" "outbox d' = outbox d @ [r]" "paymentEvents d' = paymentEvents d @ [e]"
    and "emits e = [eventType r]" "aggregateId r = e_paymentId e"
  shows "outbox_ok d'"
  using assms outbox_of_append [OF assms(2)] by (simp add: outbox_ok_def)

lemma outbox_of_poll:
  "outbox_of i (d\<lparr>outbox := poll_mark relay_pending (relay_mark now) locked (outbox d)\<rparr>) = outbox_of i d"
proof -
  have "map eventType (select_where (\<lambda>r. aggregateId r = i) (update_where P (relay_mark now) t))
      = map eventType (select_where (\<lambda>r. aggregateId r = i) t)" for P t
    by (induction t) (auto simp: update_where_def select_where_def relay_mark_def)
  then show ?thesis by (simp add: outbox_of_def poll_mark_def mark_rows_def)
qed

lemma final_event_emits:
  assumes "bank_disposition dis"
  shows "emits (final_event jd dis env) = [eventType (final_outbox jd dis env)]"
proof (cases dis)
  case (Complete m)
  then show ?thesis by (simp add: emits_def final_event_def final_outbox_def)
next
  case (Fail m)
  then obtain s where "dis = Fail (JObj [(''reason'', JStr s)])"
    using assms by (auto simp: bank_disposition_def)
  then show ?thesis
    using final_event_budget [of dis JNull s jd env] by (simp add: emits_def final_event_def final_outbox_def)
qed (use assms in \<open>simp add: bank_disposition_def\<close>)

lemma outbox_ok_step:
  assumes "outbox_ok d" "db_step C d d'"
  shows "outbox_ok d'"
  using assms(2)
proof cases
  case (db_submit env dto key c h corr)
  show ?thesis
    by (rule outbox_ok_emit [OF assms(1), where r = "submitted_outbox (payment_row dto \<lfloor>c\<rfloor> env) corr env"
          and e = "submitted_event (payment_row dto \<lfloor>c\<rfloor> env) corr env"])
      (simp_all add: db_submit submitted_db_def Let_def emits_def submitted_event_def submitted_outbox_def)
next
  case (db_relay locked refuses fails now r adds)
  from relay_poll_db [OF db_relay]
  have "outbox_of i d' = outbox_of i d" for i
    by (cases r) (auto simp: outbox_of_poll)
  then show ?thesis using assms(1) relay_poll_frame(2) [OF db_relay] by (simp add: outbox_ok_def)
next
  case (db_reap a)
  then obtain dl locked env claimed where "reap_txn dl locked env d = Inr (claimed, d')"
    by (cases a) (auto simp: reap_write_def)
  from reap_txn_Inr(2) [OF this] show ?thesis
    by (intro outbox_ok_quiet [OF assms(1)]) (auto simp: emits_def reaped_event_def)
next
  case (db_claim a)
  then obtain jd s env where "d' = d \<or> claim_cas jd s env d = Inr d'"
    by (cases a) (auto simp: claim_write_def claim_rest_def split: option.splits if_splits)
  then show ?thesis using assms(1)
    by (auto dest!: claim_cas_Inr intro!: outbox_ok_quiet [OF assms(1)] simp: emits_def claim_event_def)
next
  case (db_retry a)
  then obtain mx jd reason env sch where "retry_txn mx jd reason env d = Inr (sch, d')"
    by (cases a) (auto simp: retry_write_def)
  then show ?thesis using assms(1)
    by (auto dest!: retry_txn_Inr intro!: outbox_ok_quiet [OF assms(1)]
        simp: emits_def retry_event_def budget_event_def)
next
  case (db_final jd dis env)
  from final_txn_Inr [OF db_final(1)] consider "d' = d"
    | "outbox d' = outbox d @ [final_outbox jd dis env]"
      "paymentEvents d' = paymentEvents d @ [final_event jd dis env]" by auto
  then show ?thesis
    by cases (use assms(1) in simp, auto intro!: outbox_ok_emit [OF assms(1) _ _ final_event_emits [OF db_final(2)]]
        simp: final_outbox_def final_event_def)
qed (use assms(1) in simp)

text \<open>The rows a payment's trail amounts to.\<close>

lemma chain_event_move [simp]:
  "chain can a (event_move e # xs) b \<longleftrightarrow> fromStatus e = Some a \<and> can a (toStatus e) \<and> chain can (toStatus e) xs b"
  by (simp add: event_move_def)

lemma chain_emits:
  assumes "chain canTransition a (map event_move es) b" "\<not> is_terminal a"
  shows "concat (map emits es) = (if is_terminal b then emits (last es) else [])"
  using assms
proof (induction es arbitrary: a)
  case Nil
  then show ?case by simp
next
  case (Cons e es)
  then have e: "canTransition a (toStatus e)" "chain canTransition (toStatus e) (map event_move es) b"
    by simp_all
  show ?case
  proof (cases "is_terminal (toStatus e)")
    case True
    with pay.chain_from_terminal [OF e(2)] show ?thesis by simp
  next
    case False
    then have "emits e = []" using e(1) by (cases a; cases "toStatus e") (auto simp: emits_def)
    moreover have "es \<noteq> []" if "is_terminal b" using e(2) False that by (cases es) auto
    ultimately show ?thesis using Cons.IH [OF e(2) False] by auto
  qed
qed

lemma trail_emits:
  assumes "audit_trail canTransition PENDING (map event_move es) b"
  shows "concat (map emits es) = ''payment.submitted'' # (if is_terminal b then emits (last es) else [])"
proof (cases es)
  case (Cons e es')
  with assms have e: "fromStatus e = None" "toStatus e = PENDING"
    and c: "chain canTransition PENDING (map event_move es') b" by (auto simp: event_move_def)
  have "es' \<noteq> []" if "is_terminal b" using c that by (cases es') auto
  then show ?thesis using chain_emits [OF c] e(2) by (auto simp: Cons emits_def)
qed (use assms in simp)

text \<open>Every payment has its submission row, and one terminal row unless its retries ran out.\<close>

lemma outbox_of_payment:
  assumes "audit_ok d" "outbox_ok d" "p \<in> set (payments d)"
  shows "outbox_of (p_id p) d = ''payment.submitted'' #
    (case status p of
       COMPLETED \<Rightarrow> [''payment.completed'']
     | FAILED \<Rightarrow> if budget_event (last (events_of (p_id p) (paymentEvents d))) then [] else [''payment.failed'']
     | _ \<Rightarrow> [])"
proof -
  let ?es = "events_of (p_id p) (paymentEvents d)"
  have tr: "audit_trail canTransition PENDING (map event_move ?es) (status p)"
    using assms(1,3) by (simp add: audit_ok_def payment_audited_def)
  then have "snd (last (map event_move ?es)) = status p" "?es \<noteq> []"
    by (auto dest: audit_trail_last audit_trail_nonempty)
  then have "toStatus (last ?es) = status p" by (simp add: last_map event_move_def)
  then show ?thesis using trail_emits [OF tr] assms(2)
    by (cases "status p") (auto simp: outbox_ok_def emits_def)
qed

lemma reachable_outbox_ok: "reachable cfg s \<Longrightarrow> outbox_ok (s_db s)"
  using reachable_db_invariant [of cfg s outbox_ok] outbox_ok_step
  by (auto simp: outbox_ok_def outbox_of_def empty_db_def select_where_def)

subsection \<open>Completed payments are charged\<close>

definition completed_in :: "string set \<Rightarrow> db \<Rightarrow> bool" where
  "completed_in C d \<longleftrightarrow> (\<forall>p \<in> set (payments d). status p = COMPLETED \<longrightarrow> p_id p \<in> C)"

lemma completed_update:
  assumes "completed_in C d" "payments d' = update_where P f (payments d)"
    and "\<And>x. P x \<Longrightarrow> status (f x) = COMPLETED \<Longrightarrow> p_id (f x) \<in> C"
  shows "completed_in C d'"
  using assms by (auto simp: completed_in_def in_update_where)

lemma completed_in_step:
  assumes "completed_in C d" "db_step C d d'"
  shows "completed_in C d'"
  using assms(2)
proof cases
  case (db_submit env dto key c h corr)
  then show ?thesis using assms(1) by (auto simp: completed_in_def submitted_db_def Let_def)
next
  case (db_relay locked refuses fails now r adds)
  then show ?thesis using assms(1) relay_poll_frame(1) [OF db_relay] by (simp add: completed_in_def)
next
  case (db_reap a)
  then obtain dl locked env claimed where "reap_txn dl locked env d = Inr (claimed, d')"
    by (cases a) (auto simp: reap_write_def)
  note d' = reap_txn_Inr(2) [OF this]
  have "payments d' = update_where (\<lambda>p. p_id p \<in> set (map p_id (filter (\<lambda>s. status s = PROCESSING) claimed)))
      (reap_row (re_update_now env)) (payments d)" by (subst d') simp
  then show ?thesis by (rule completed_update [OF assms(1)]) simp
next
  case (db_claim a)
  then obtain jd s env where "d' = d \<or> claim_cas jd s env d = Inr d'"
    by (cases a) (auto simp: claim_write_def claim_rest_def split: option.splits if_splits)
  then show ?thesis using assms(1)
    by (auto dest!: claim_cas_Inr intro: completed_update [OF assms(1)])
next
  case (db_retry a)
  then obtain mx jd reason env sch where "retry_txn mx jd reason env d = Inr (sch, d')"
    by (cases a) (auto simp: retry_write_def)
  then show ?thesis using assms(1)
    by (auto dest!: retry_txn_Inr intro: completed_update [OF assms(1)] simp: retry_status_def split: if_splits)
next
  case (db_final jd dis env)
  from final_txn_Inr [OF db_final(1)] consider "d' = d"
    | "payments d' = update_where (cas_pred (jd_paymentId jd) PROCESSING)
        (final_row (target dis) (tx_time env)) (payments d)" by auto
  then show ?thesis
  proof cases
    case 2
    then show ?thesis
      by (rule completed_update [OF assms(1)]) (use db_final(3) in \<open>auto simp: cas_pred_def\<close>)
  qed (use assms(1) in simp)
qed (use assms(1) in simp)

lemma completed_in_mono: "completed_in C d \<Longrightarrow> C \<subseteq> D \<Longrightarrow> completed_in D d"
  by (auto simp: completed_in_def)

lemma reachable_completed:
  "reachable cfg s \<Longrightarrow> completed_in (charged s) (s_db s)"
proof (induction rule: reachable.induct)
  case (reach_init t0)
  then show ?case by (simp add: completed_in_def initial_def empty_db_def)
next
  case (reach_step s s')
  have "completed_in (charged s) (s_db s')"
    using completed_in_step [OF reach_step.IH reachable_db_step [OF reach_step.hyps(1,2)]] .
  then show ?case
    using completed_in_mono history_ok_step [OF _ reach_step.hyps(2)] reachable_bank_ok [OF reach_step.hyps(1)]
    unfolding bank_ok_def by blast
qed

subsection \<open>Jobs carry the terms of their payment\<close>

definition agrees :: "db \<Rightarrow> job_data \<Rightarrow> bool" where
  "agrees d jd \<longleftrightarrow> (\<exists>p \<in> set (payments d). p_id p = jd_paymentId jd
     \<and> amountCents p = jd_amountCents jd \<and> currency p = jd_currency jd)"

definition rows_agree :: "db \<Rightarrow> bool" where
  "rows_agree d \<longleftrightarrow> (\<forall>r \<in> set (outbox d). eventType r = ''payment.submitted'' \<longrightarrow> agrees d (payload r))"

definition pc_agrees :: "db \<Rightarrow> worker_pc \<Rightarrow> bool" where
  "pc_agrees d pc \<longleftrightarrow> (case pc_job pc of None \<Rightarrow> True | Some jd \<Rightarrow> agrees d jd)"

definition call_agrees :: "db \<Rightarrow> bank_request \<Rightarrow> bool" where
  "call_agrees d req \<longleftrightarrow> (\<exists>jd. req = authorize_request jd \<and> agrees d jd)"

definition jobs_agree :: "system \<Rightarrow> bool" where
  "jobs_agree s \<longleftrightarrow>
     rows_agree (s_db s)
     \<and> (\<forall>j \<in> set (s_queue s). agrees (s_db s) (job_payload j))
     \<and> (\<forall>i. pc_agrees (s_db s) (s_workers s i))
     \<and> (\<forall>(i, req) \<in> set (s_calls s). call_agrees (s_db s) req)"

lemma pc_agrees_simps [simp]:
  "pc_agrees d Idle" "pc_agrees d (Claiming jd f) = agrees d jd" "pc_agrees d (Claimed jd) = agrees d jd"
  "pc_agrees d (Waiting jd) = agrees d jd" "pc_agrees d (Settling jd dis) = agrees d jd"
  by (simp_all add: pc_agrees_def)

lemma agrees_step:
  assumes "db_step C d d'" "audit_ok d" "agrees d jd"
  shows "agrees d' jd"
proof -
  from assms(3) obtain p where "p \<in> set (payments d)" "p_id p = jd_paymentId jd"
    "amountCents p = jd_amountCents jd" "currency p = jd_currency jd" by (auto simp: agrees_def)
  moreover from db_step_terms [OF assms(1,2) this(1)] obtain q
    where "q \<in> set (payments d')" "same_terms p q" by blast
  ultimately show ?thesis unfolding agrees_def by (intro bexI [of _ q]) (auto simp: same_terms_def)
qed

text \<open>The submission rows of the next database are old ones, remarked, or that of a new payment.\<close>

lemma db_step_rows:
  assumes "db_step C d d'" "r' \<in> set (outbox d')" "eventType r' = ''payment.submitted''"
  shows "(\<exists>r \<in> set (outbox d). payload r = payload r' \<and> eventType r = eventType r') \<or> agrees d' (payload r')"
  using assms(1)
proof cases
  case (db_submit env dto key c h corr)
  then show ?thesis using assms(2)
    by (auto simp: submitted_db_def Let_def agrees_def submitted_outbox_def submitted_payload_def)
next
  case (db_relay locked refuses fails now r adds)
  from relay_poll_db [OF db_relay] have "outbox d' = outbox d
      \<or> outbox d' = poll_mark relay_pending (relay_mark now) locked (outbox d)"
    by (cases r) auto
  then show ?thesis
  proof
    assume "outbox d' = poll_mark relay_pending (relay_mark now) locked (outbox d)"
    with assms(2) relay.poll_mark_claimed obtain r0 where
      "r0 \<in> set (outbox d)" "r' = r0 \<or> r' = relay_mark now r0" by metis
    then show ?thesis by (auto simp: relay_mark_def)
  qed (use assms(2) in auto)
next
  case (db_reap a)
  then obtain dl locked env claimed where "reap_txn dl locked env d = Inr (claimed, d')"
    by (cases a) (auto simp: reap_write_def)
  from reap_txn_Inr(2) [OF this] show ?thesis using assms(2) by auto
next
  case (db_claim a)
  then obtain jd s env where "d' = d \<or> claim_cas jd s env d = Inr d'"
    by (cases a) (auto simp: claim_write_def claim_rest_def split: option.splits if_splits)
  then show ?thesis using assms(2) by (auto dest!: claim_cas_Inr)
next
  case (db_retry a)
  then obtain mx jd reason env sch where "retry_txn mx jd reason env d = Inr (sch, d')"
    by (cases a) (auto simp: retry_write_def)
  then show ?thesis using assms(2) by (auto dest!: retry_txn_Inr)
next
  case (db_final jd dis env)
  from final_txn_Inr [OF db_final(1)] have "d' = d \<or> outbox d' = outbox d @ [final_outbox jd dis env]" by auto
  moreover have "eventType (final_outbox jd dis env) \<noteq> ''payment.submitted''" by (simp add: final_outbox_def)
  ultimately show ?thesis using assms(2,3) by auto
qed (use assms(2) in auto)

lemma rows_agree_step:
  assumes "db_step C d d'" "audit_ok d" "rows_agree d"
  shows "rows_agree d'"
proof -
  have "agrees d' (payload r)" if "r \<in> set (outbox d')" "eventType r = ''payment.submitted''" for r
    using db_step_rows [OF assms(1) that] agrees_step [OF assms(1,2)] assms(3) that(2)
    by (metis rows_agree_def)
  then show ?thesis by (simp add: rows_agree_def)
qed

lemma relay_adds_agree:
  assumes "relay_poll_once locked refuses fails now d = (r, d', adds)" "rows_agree d" "j \<in> set adds"
  shows "agrees d (job_payload j)"
proof -
  have "set adds \<subseteq> relay_job ` set (claim_rows relay_pending locked (outbox d))"
    using assms(1) by (auto simp: relay_poll_once_def Let_def split: if_splits)
  then obtain row where "row \<in> set (claim_rows relay_pending locked (outbox d))" "j = relay_job row"
    using assms(3) by auto
  with claim_rows_in [of row relay_pending locked "outbox d"] assms(2) show ?thesis
    by (auto simp: rows_agree_def relay_pending_def relay_job_def)
qed

lemma reap_adds_agree:
  assumes "reap_once dl locked env d = (r, d', adds)" "j \<in> set adds"
  shows "agrees d (job_payload j)"
proof -
  from assms obtain claimed where c: "reap_txn dl locked env d = Inr (claimed, d')" "j \<in> reap_job env ` set claimed"
    by (auto simp: reap_once_def split: sum.splits prod.splits)
  then obtain p where "p \<in> set claimed" "j = reap_job env p" by auto
  moreover from this have "p \<in> set (payments d)" using reap_txn_Inr(1) [OF c(1)] claim_stuck_in by simp
  ultimately show ?thesis by (auto simp: agrees_def reap_job_def)
qed

lemma jobs_agree_step:
  assumes ok: "jobs_agree s" "audit_ok (s_db s)" and st: "sys_step cfg s s'"
    and db: "db_step C (s_db s) (s_db s')"
  shows "jobs_agree s'"
proof -
  note keep = agrees_step [OF db ok(2)]
  have rows: "rows_agree (s_db s')" using rows_agree_step [OF db ok(2)] ok(1) by (simp add: jobs_agree_def)
  have rows0: "rows_agree (s_db s)" using ok(1) by (simp add: jobs_agree_def)
  have queue: "agrees (s_db s') (job_payload j)" if "j \<in> set (s_queue s)" for j
    using ok(1) that keep by (simp add: jobs_agree_def)
  have pc: "pc_agrees (s_db s') (s_workers s i)" for i
    using ok(1) keep by (auto simp: jobs_agree_def pc_agrees_def split: option.splits)
  have calls: "call_agrees (s_db s') req" if "(k, req) \<in> set (s_calls s)" for k req
    using ok(1) that keep unfolding jobs_agree_def call_agrees_def by blast
  have sub: "(k, req) \<in> set (remove1 x (s_calls s)) \<Longrightarrow> call_agrees (s_db s') req" for k req x
    using calls set_remove1_subset by fast
  have job: "s_workers s i = x \<Longrightarrow> pc_agrees (s_db s') x" for i x using pc by blast
  from st show ?thesis
  proof cases
    case (step_relay locked refuses fails now r d' adds)
    have "agrees (s_db s') (job_payload j)" if "j \<in> set adds" for j
      using keep relay_adds_agree [OF step_relay(2) rows0 that] by blast
    then show ?thesis using rows queue pc calls unfolding jobs_agree_def by (auto simp: step_relay(1))
  next
    case (step_reap dl locked env r d' adds adds')
    have "agrees (s_db s') (job_payload j)" if "j \<in> set adds'" for j
      using keep reap_adds_agree [OF step_reap(2)] that step_reap(3) by blast
    then show ?thesis using rows queue pc calls unfolding jobs_agree_def by (auto simp: step_reap(1))
  next
    case (step_settle i jd dis env r d' adds adds')
    have "agrees (s_db s') (job_payload j)" if "j \<in> set adds'" for j
      using settle_jobs [OF step_settle(3)] that step_settle(4) job [OF step_settle(2)] by auto
    then show ?thesis using rows queue pc calls unfolding jobs_agree_def by (auto simp: step_settle(1))
  next
    case (step_dequeue i j jd)
    have "agrees (s_db s') jd" using queue [OF step_dequeue(3)] step_dequeue(4) by simp
    then show ?thesis using rows queue pc calls unfolding jobs_agree_def by (auto simp: step_dequeue(1))
  next
    case (step_call i jd now br)
    have "agrees (s_db s') jd" using job [OF step_call(2)] by simp
    moreover from this have "call_agrees (s_db s') (authorize_request jd)" by (auto simp: call_agrees_def)
    ultimately show ?thesis using rows queue pc calls unfolding jobs_agree_def by (auto simp: step_call(1))
  next
    case (step_claim i jd found env d')
    then show ?thesis using rows queue pc calls job [OF step_claim(2)] unfolding jobs_agree_def by auto
  next
    case (step_refused i jd now br)
    then show ?thesis using rows queue pc calls job [OF step_refused(2)] unfolding jobs_agree_def by auto
  next
    case (step_answer i jd out b' dis br now)
    have "agrees (s_db s') jd" using job [OF step_answer(2)] by simp
    then show ?thesis using rows queue pc sub unfolding jobs_agree_def by (auto simp: step_answer(1))
  next
    case (step_timeout i jd br now)
    have "agrees (s_db s') jd" using job [OF step_timeout(2)] by simp
    then show ?thesis using rows queue pc calls unfolding jobs_agree_def by (auto simp: step_timeout(1))
  next
    case (step_late i req out b')
    then show ?thesis using rows queue pc sub unfolding jobs_agree_def by auto
  qed (use rows queue pc calls in \<open>auto simp: jobs_agree_def\<close>)
qed

lemma reachable_jobs_agree: "reachable cfg s \<Longrightarrow> jobs_agree s"
proof (induction rule: reachable.induct)
  case (reach_init t0)
  then show ?case by (simp add: jobs_agree_def initial_def rows_agree_def empty_db_def)
next
  case (reach_step s s')
  then show ?case
    using jobs_agree_step reachable_ledger_ok reachable_db_step by (meson ledger_ok_def)
qed

text \<open>Adapters charge only for payments of the database.\<close>

lemma charged_step:
  assumes "history_ok s" "sys_step cfg s s'" "k \<in> charged s'" "k \<notin> charged s"
  shows "\<exists>i req. (i, req) \<in> set (s_calls s) \<and> k = br_idempotencyKey req"
proof -
  note sub = sim.auth_charged_subset(2)
  from assms(2) show ?thesis
  proof cases
    case (step_answer i jd out b' dis br now)
    have "sim_bank_inv (s_banks s i)" using assms(1) by (simp add: history_ok_def)
    from sub [OF this step_answer(4)] assms(3,4) step_answer(3) show ?thesis
      by (auto simp: step_answer(1))
  next
    case (step_late i req out b')
    have "sim_bank_inv (s_banks s i)" using assms(1) by (simp add: history_ok_def)
    from sub [OF this step_late(3)] assms(3,4) step_late(2) show ?thesis by (auto simp: step_late(1))
  qed (use assms(3,4) in auto)
qed

lemma reachable_charges_known:
  "reachable cfg s \<Longrightarrow> charged s \<subseteq> p_id ` set (payments (s_db s))"
proof (induction rule: reachable.induct)
  case (reach_init t0)
  then show ?case by (simp add: charged_def initial_def)
next
  case (reach_step s s')
  have ids: "p_id ` set (payments (s_db s)) \<subseteq> p_id ` set (payments (s_db s'))"
  proof
    fix k assume "k \<in> p_id ` set (payments (s_db s))"
    then obtain p where p: "p \<in> set (payments (s_db s))" "k = p_id p" by blast
    have "audit_ok (s_db s)" using reachable_ledger_ok [OF reach_step(1)] by (simp add: ledger_ok_def)
    from db_step_terms [OF reachable_db_step [OF reach_step(1,2)] this p(1)] p(2)
    show "k \<in> p_id ` set (payments (s_db s'))" by (auto simp: same_terms_def image_iff)
  qed
  have "k \<in> p_id ` set (payments (s_db s))" if new: "k \<in> charged s'" "k \<notin> charged s" for k
  proof -
    obtain i req where c: "(i, req) \<in> set (s_calls s)" "k = br_idempotencyKey req"
      using charged_step [OF reachable_history_ok [OF reach_step(1)] reach_step(2) new] by blast
    then have "call_agrees (s_db s) req" using reachable_jobs_agree [OF reach_step(1)] by (auto simp: jobs_agree_def)
    then show ?thesis using c(2) by (auto simp: call_agrees_def agrees_def authorize_request_def image_iff intro!: bexI)
  qed
  then show ?case using reach_step.IH ids by blast
qed

subsection \<open>The handler is a run of steps\<close>

text \<open>
  A worker that runs \<open>process\<close> without interruption takes the steps of the relation: the
  system at worker \<open>i\<close>'s point of the handler, with everything else as in \<open>s\<close>.
\<close>

definition at_point :: "system \<Rightarrow> nat \<Rightarrow> worker_pc \<Rightarrow> db \<Rightarrow> breaker \<Rightarrow> sim_bank
  \<Rightarrow> (nat \<times> bank_request) list \<Rightarrow> system" where
  "at_point s i pc d br b cs =
     (set_bank i b s)\<lparr>s_db := d, s_workers := (s_workers s)(i := pc),
       s_breakers := (s_breakers s)(i := br), s_calls := cs\<rparr>"

lemma set_bank_same [simp]: "set_bank i (s_banks s i) s = s"
  by (simp add: set_bank_def fun_upd_idem)

lemma at_point_simps [simp]:
  "s_db (at_point s i pc d br b cs) = d" "s_banks (at_point s i pc d br b cs) = (s_banks s)(i := b)"
  "s_workers (at_point s i pc d br b cs) i = pc" "s_breakers (at_point s i pc d br b cs) i = br"
  "s_calls (at_point s i pc d br b cs) = cs" "s_queue (at_point s i pc d br b cs) = s_queue s"
  "s_lives (at_point s i pc d br b cs) = s_lives s"
  by (simp_all add: at_point_def)

lemma at_point_updates:
  "set_worker i pc' (at_point s i pc d br b cs) = at_point s i pc' d br b cs"
  "set_breaker i br' (at_point s i pc d br b cs) = at_point s i pc d br' b cs"
  "at_point s i pc d br b cs\<lparr>s_db := d'\<rparr> = at_point s i pc d' br b cs"
  "set_bank i b' (at_point s i pc d br (s_banks s i) cs) = at_point s i pc d br b' cs"
  "at_point s i pc d br b cs\<lparr>s_calls := cs'\<rparr> = at_point s i pc d br b cs'"
  by (simp_all add: at_point_def set_worker_def set_breaker_def set_bank_def)

lemma at_point_start: "s_workers s i = Idle \<Longrightarrow>
  at_point s i Idle (s_db s) (s_breakers s i) (s_banks s i) (s_calls s) = s"
  by (cases s) (simp add: at_point_def set_bank_def fun_upd_idem)

lemma at_point_settled:
  "set_worker i Idle (at_point s i pc d br b cs\<lparr>s_db := d', s_queue := q\<rparr>)
   = at_point s i Idle d' br b cs\<lparr>s_queue := q\<rparr>"
  by (cases s) (simp add: at_point_def set_worker_def set_bank_def)

text \<open>A step that neither adds a job nor gives a worker another one.\<close>

definition quiet_step :: "processor_config \<Rightarrow> system \<Rightarrow> system \<Rightarrow> bool" where
  "quiet_step cfg s s' \<longleftrightarrow> sys_step cfg s s' \<and> s_queue s' = s_queue s
     \<and> (\<forall>i. pc_job (s_workers s' i) = pc_job (s_workers s i))"

lemma quiet_at_point:
  assumes "sys_step cfg (at_point s i pc d br b cs) (at_point s i pc' d' br' b' cs')" "pc_job pc' = pc_job pc"
  shows "quiet_step cfg (at_point s i pc d br b cs) (at_point s i pc' d' br' b' cs')"
  using assms by (simp add: quiet_step_def) (simp add: at_point_def)

text \<open>From the end of the claim to the disposition.\<close>

lemma bank_phase_quiet:
  assumes "bank_phase cfg sim_call env jd br (s_banks s i) = (r, br', b', ls)"
  shows "\<exists>dis. r = Inr dis \<and> (quiet_step cfg)\<^sup>*\<^sup>* (at_point s i (Claimed jd) d br (s_banks s i) cs)
    (at_point s i (Settling jd dis) d br' b' cs)"
proof -
  obtain ok br1 where a: "cb_allow (breaker_cfg cfg) (bk_allow_time env) br = (ok, br1)"
    by (cases "cb_allow (breaker_cfg cfg) (bk_allow_time env) br")
  obtain out b1 where o: "authorize (authorize_request jd) (s_banks s i) = (out, b1)"
    by (cases "authorize (authorize_request jd) (s_banks s i)")
  let ?b = "s_banks s i"
  let ?req = "(i, authorize_request jd)"
  let ?cs = "?req # cs"
  show ?thesis
  proof (cases ok)
    case False
    have "quiet_step cfg (at_point s i (Claimed jd) d br (s_banks s i) cs)
        (at_point s i (Settling jd (Retry ''circuit_open'')) d br1 ?b cs)"
      by (intro quiet_at_point)
        (use step_refused [of "at_point s i (Claimed jd) d br ?b cs" i jd cfg "bk_allow_time env" br1] a False
          in \<open>simp_all add: at_point_updates\<close>)
    then show ?thesis using assms a False by (auto simp: bank_phase_def)
  next
    case True
    have call: "quiet_step cfg (at_point s i (Claimed jd) d br (s_banks s i) cs) (at_point s i (Waiting jd) d br1 ?b ?cs)"
      by (intro quiet_at_point)
        (use step_call [of "at_point s i (Claimed jd) d br ?b cs" i jd cfg "bk_allow_time env" br1] a True
          in \<open>simp_all add: at_point_updates\<close>)
    show ?thesis
    proof (cases "timer_ms (sb_latencyMs ?b) \<le> timer_ms (BANK_TIMEOUT_MS cfg)")
      case intime: True
      let ?dis = "disposition_of out"
      have "quiet_step cfg (at_point s i (Waiting jd) d br1 ?b ?cs) (at_point s i (Settling jd ?dis) d
          (cb_record (breaker_cfg cfg) (bk_record_time env) (\<not> is_retry ?dis) br1) b1 cs)"
        by (intro quiet_at_point)
          (use step_answer [of "at_point s i (Waiting jd) d br1 ?b ?cs" i jd out b1 ?dis _ cfg "bk_record_time env"] o
            in \<open>simp_all add: at_point_updates\<close>)
      moreover have "r = Inr ?dis \<and> br' = cb_record (breaker_cfg cfg) (bk_record_time env) (\<not> is_retry ?dis) br1 \<and> b' = b1"
        using assms a True o intime by (auto simp: bank_phase_def sim_call_def settle_call_answer)
      ultimately show ?thesis using call by auto
    next
      case late: False
      let ?br = "cb_record (breaker_cfg cfg) (bk_record_time env) False br1"
      have "quiet_step cfg (at_point s i (Waiting jd) d br1 ?b ?cs)
          (at_point s i (Settling jd (Retry ''bank_timeout'')) d ?br ?b ?cs)"
        by (intro quiet_at_point)
          (use step_timeout [of "at_point s i (Waiting jd) d br1 ?b ?cs" i jd _ cfg "bk_record_time env"]
            in \<open>simp_all add: at_point_updates\<close>)
      moreover have "quiet_step cfg (at_point s i (Settling jd (Retry ''bank_timeout'')) d ?br ?b ?cs)
          (at_point s i (Settling jd (Retry ''bank_timeout'')) d ?br b1 cs)"
        by (intro quiet_at_point)
          (use step_late [of i "authorize_request jd" "at_point s i (Settling jd (Retry ''bank_timeout'')) d ?br ?b ?cs" out b1 cfg] o
            in \<open>simp_all add: at_point_updates\<close>)
      moreover have "r = Inr (Retry ''bank_timeout'') \<and> br' = ?br \<and> b' = b1"
        using assms a True o late by (auto simp: bank_phase_def sim_call_def settle_call_late)
      ultimately show ?thesis using call by (auto intro: converse_rtranclp_into_rtranclp)
    qed
  qed
qed

lemma bank_phase_steps:
  assumes "bank_phase cfg sim_call env jd br (s_banks s i) = (r, br', b', ls)"
  shows "\<exists>dis. r = Inr dis \<and> (sys_step cfg)\<^sup>*\<^sup>* (at_point s i (Claimed jd) d br (s_banks s i) cs)
    (at_point s i (Settling jd dis) d br' b' cs)"
proof -
  have "quiet_step cfg \<le> sys_step cfg" by (auto simp: quiet_step_def)
  from rtranclp_mono [OF this] show ?thesis using bank_phase_quiet [OF assms, of d cs] by blast
qed

lemma process_steps:
  assumes idle: "s_workers s i = Idle" and j: "j \<in> set (s_queue s)"
    and p: "process cfg sim_call env (job_payload j)
      \<lparr>ws_db = s_db s, ws_breaker = s_breakers s i, ws_bank = s_banks s i, ws_jobs = s_queue s,
       bankAttempts = ls\<rparr> = (r, w')"
  shows "(sys_step cfg)\<^sup>*\<^sup>* s (at_point s i Idle (ws_db w') (ws_breaker w') (ws_bank w') (s_calls s)
    \<lparr>s_queue := ws_jobs w'\<rparr>)"
proof -
  define jd where "jd = job_payload j"
  define found where "found = claim_read (jd_paymentId jd) (s_db s)"
  let ?at = "\<lambda>pc d br b. at_point s i pc d br b (s_calls s)"
  note start = at_point_start [OF idle]
  show ?thesis
  proof (cases "claim_txn jd (claim_env env) (s_db s)")
    case (Inl e)
    then have "?at Idle (ws_db w') (ws_breaker w') (ws_bank w')\<lparr>s_queue := ws_jobs w'\<rparr> = s"
      using p start by (auto simp: process_def jd_def [symmetric])
    then show ?thesis by simp
  next
    case (Inr d1)
    obtain r1 br b l1 where bp: "bank_phase cfg sim_call (call_env env) jd (s_breakers s i) (s_banks s i) = (r1, br, b, l1)"
      by (cases "bank_phase cfg sim_call (call_env env) jd (s_breakers s i) (s_banks s i)")
    from bank_phase_steps [OF bp, of d1 "s_calls s"] obtain dis where dis: "r1 = Inr dis"
      and run: "(sys_step cfg)\<^sup>*\<^sup>* (?at (Claimed jd) d1 (s_breakers s i) (s_banks s i)) (?at (Settling jd dis) d1 br b)"
      by blast
    obtain r2 d2 adds where st: "settle cfg env jd dis d1 = (r2, d2, adds)"
      by (cases "settle cfg env jd dis d1")
    have w': "ws_db w' = d2" "ws_breaker w' = br" "ws_bank w' = b" "ws_jobs w' = s_queue s @ adds"
      using p by (auto simp: process_def jd_def [symmetric] Inr bp dis st Let_def)
    have 1: "sys_step cfg s (?at (Claiming jd found) (s_db s) (s_breakers s i) (s_banks s i))"
      using step_dequeue [OF idle j jd_def, of cfg] start
      by (metis at_point_updates(1) found_def)
    have 2: "sys_step cfg (?at (Claiming jd found) (s_db s) (s_breakers s i) (s_banks s i))
        (?at (Claimed jd) d1 (s_breakers s i) (s_banks s i))"
      using step_claim [of "?at (Claiming jd found) (s_db s) (s_breakers s i) (s_banks s i)" i jd found "claim_env env" d1 cfg]
        Inr by (simp add: at_point_updates claim_txn_def found_def)
    have 3: "sys_step cfg (?at (Settling jd dis) d1 br b)
        (?at Idle d2 br b\<lparr>s_queue := s_queue s @ adds\<rparr>)"
      using step_settle [of "?at (Settling jd dis) d1 br b" i jd dis cfg env r2 d2 adds adds] st
      by (simp add: at_point_settled)
    from 1 2 run 3 show ?thesis unfolding w'
      by (meson converse_rtranclp_into_rtranclp rtranclp.rtrancl_into_rtrancl)
  qed
qed

end
