(* ===== verification/Retries.thy ===== *)
theory Retries
  imports System
begin

text \<open>
  The ids of the retry jobs. The queue drops an addition whose job id it still holds, and the
  payments queue keeps its finished jobs (\<open>apps/api/src/queue/queue.module.ts\<close>), so a repeated
  id would lose a retry. Shown: in every reachable state the retry jobs ever added have
  pairwise different ids, each numbered by an attempt its payment has spent. \<open>Stranding\<close> uses this
  over a job store.
\<close>

definition is_retry_job :: "job_data job \<Rightarrow> bool" where
  "is_retry_job j \<longleftrightarrow> job_name j = ''payment_retry''"

definition retry_jobs :: "job_data job list \<Rightarrow> job_data job list" where
  "retry_jobs js = filter is_retry_job js"

definition retry_id :: "string \<Rightarrow> nat \<Rightarrow> string" where
  "retry_id pid n = pid @ '':retry:'' @ nat_str n"

text \<open>The digits after the last colon give the number back.\<close>

lemma retry_id_inj:
  assumes "retry_id a m = retry_id b n"
  shows "a = b \<and> m = n"
proof -
  have colon: "\<not> is_digit (CHR '':'')" by (simp add: is_digit_def)
  have digits: "takeWhile is_digit (rev (retry_id c k)) = rev (nat_str k)" for c k
  proof -
    have "rev (retry_id c k) = rev (nat_str k) @ CHR '':'' # rev '':retry'' @ rev c"
      by (simp add: retry_id_def)
    moreover have "\<forall>c \<in> set (rev (nat_str k)). is_digit c" using nat_str_digits by simp
    ultimately show ?thesis using colon by (simp add: takeWhile_append)
  qed
  have "rev (nat_str m) = rev (nat_str n)" using digits [of a m] digits [of b n] assms by simp
  then have "m = n" by (simp add: inj_nat_str)
  with assms show ?thesis by (simp add: retry_id_def)
qed

text \<open>A retry job of the database: numbered by an attempt of the payment it carries.\<close>

definition retry_of :: "db \<Rightarrow> job_data job \<Rightarrow> bool" where
  "retry_of d j \<longleftrightarrow> (\<exists>p \<in> set (payments d). \<exists>n. p_id p = jd_paymentId (job_payload j)
     \<and> n \<le> attemptCount p \<and> job_id j = retry_id (p_id p) n)"

definition retry_ids_ok :: "system \<Rightarrow> bool" where
  "retry_ids_ok s \<longleftrightarrow> (\<forall>j \<in> set (retry_jobs (s_queue s)). retry_of (s_db s) j)
     \<and> distinct (map job_id (retry_jobs (s_queue s)))"

lemma retry_jobs_append [simp]: "retry_jobs (js @ ks) = retry_jobs js @ retry_jobs ks"
  by (simp add: retry_jobs_def)

text \<open>Attempts are never taken back.\<close>

lemma db_step_attempts:
  assumes "db_step C d d'" "audit_ok d" "p \<in> set (payments d)"
  shows "\<exists>q \<in> set (payments d'). p_id q = p_id p \<and> attemptCount p \<le> attemptCount q"
  using db_step_audited [OF assms(1,2)]
proof (elim disjE exE conjE)
  assume "audited_step d d'"
  then obtain evs q where "q \<in> set (payments d')" "same_terms p q"
    "q = p \<or> (\<exists>e. events_of (p_id p) evs = [e] \<and> moved p q e)"
    using assms(3) unfolding audited_step_def by blast
  then show ?thesis by (intro bexI [of _ q]) (auto simp: moved_def same_terms_def)
next
  fix dto c key h corr env
  assume "d' = submitted_db dto c key h corr env d"
  then have "p \<in> set (payments d')" using assms(3) by (simp add: submitted_db_def Let_def)
  then show ?thesis by blast
qed

lemma retry_of_step:
  assumes "db_step C d d'" "audit_ok d" "retry_of d j"
  shows "retry_of d' j"
proof -
  from assms(3) obtain p n where p: "p \<in> set (payments d)" "p_id p = jd_paymentId (job_payload j)"
    "n \<le> attemptCount p" "job_id j = retry_id (p_id p) n" by (auto simp: retry_of_def)
  obtain q where "q \<in> set (payments d')" "p_id q = p_id p" "attemptCount p \<le> attemptCount q"
    using db_step_attempts [OF assms(1,2) p(1)] by blast
  then show ?thesis using p unfolding retry_of_def
    by (intro bexI [of _ q] exI [of _ n]) auto
qed

subsection \<open>The jobs each step adds\<close>

lemma relay_adds_no_retry:
  assumes "relay_poll_once locked refuses fails now d = (r, d', adds)"
  shows "retry_jobs adds = []"
proof -
  have "set adds \<subseteq> relay_job ` set (claim_rows relay_pending locked (outbox d))"
    using assms by (auto simp: relay_poll_once_def Let_def split: if_splits)
  then have "\<not> is_retry_job j" if "j \<in> set adds" for j
    using that claim_rows_in [of _ relay_pending locked "outbox d"]
    by (auto simp: is_retry_job_def relay_job_def relay_pending_def)
  then show ?thesis by (simp add: retry_jobs_def filter_empty_conv)
qed

lemma reap_adds_no_retry:
  assumes "reap_once dl locked env d = (r, d', adds)" "set adds' \<subseteq> set adds"
  shows "retry_jobs adds' = []"
proof -
  have "set adds \<subseteq> range (reap_job env)"
    using assms(1) by (auto simp: reap_once_def split: sum.splits prod.splits)
  with assms(2) have "\<not> is_retry_job j" if "j \<in> set adds'" for j
    using that by (auto simp: is_retry_job_def reap_job_def)
  then show ?thesis by (simp add: retry_jobs_def filter_empty_conv)
qed

text \<open>A settling adds at most one retry, numbered one above the attempts spent before.\<close>

lemma settle_adds:
  assumes "settle cfg env jd dis d = (r, d', adds)"
  shows "adds = [] \<or> (\<exists>j p q. adds = [j] \<and> is_retry_job j \<and> jd_paymentId (job_payload j) = p_id p
    \<and> job_id j = retry_id (p_id p) (attemptCount p + 1) \<and> p \<in> set (payments d)
    \<and> q \<in> set (payments d') \<and> p_id q = p_id p \<and> attemptCount q = attemptCount p + 1)"
proof (cases "adds = []")
  case False
  then obtain reason where dis: "dis = Retry reason"
    using assms by (cases dis) (auto simp: settle_def split: sum.splits)
  obtain sch d1 where txn: "retry_txn (MAX_RETRIES cfg) jd reason (settle_env env) d = Inr (sch, d1)"
    using assms False by (auto simp: settle_def dis split: sum.splits)
  then have s: "d' = d1" "schedule_retry cfg (rnd env) jd sch = Inr adds"
    using assms False by (auto simp: settle_def dis split: sum.splits)
  then obtain n delay where n: "sch = Some n" "adds = [retry_job jd n delay]"
    using False by (auto simp: schedule_retry_def split: option.splits)
  from retry_txn_Inr [OF txn] n(1) obtain p where
    p: "first_row (select_where (cas_pred (jd_paymentId jd) PROCESSING) (payments d)) = Some p"
      "n = attemptCount p + 1"
      "payments d1 = update_where (cas_pred (jd_paymentId jd) PROCESSING)
        (retry_row (MAX_RETRIES cfg) reason (tx_time (settle_env env))) (payments d)"
    by (auto split: if_splits)
  have pin: "p \<in> set (payments d)" and pc: "cas_pred (jd_paymentId jd) PROCESSING p"
    using first_row_Some_in [OF p(1)] by simp_all
  let ?q = "retry_row (MAX_RETRIES cfg) reason (tx_time (settle_env env)) p"
  have "?q \<in> set (payments d')" using pin pc by (auto simp: s(1) p(3) in_update_where)
  moreover have "p_id p = jd_paymentId jd" using pc by (simp add: cas_pred_def)
  ultimately show ?thesis using n pin
    by (intro disjI2 exI [of _ "retry_job jd n delay"] exI [of _ p] exI [of _ ?q])
      (simp add: is_retry_job_def retry_job_def retry_id_def p(2))
qed simp

subsection \<open>The invariant\<close>

lemma retry_ids_ok_quiet:
  assumes "retry_ids_ok s" "db_step C (s_db s) (s_db s')" "audit_ok (s_db s)"
    and "retry_jobs (s_queue s') = retry_jobs (s_queue s)"
  shows "retry_ids_ok s'"
  using assms retry_of_step [OF assms(2,3)] by (simp add: retry_ids_ok_def)

lemma retry_ids_ok_step:
  assumes ok: "retry_ids_ok s" and audit: "audit_ok (s_db s)" and st: "sys_step cfg s s'"
    and db: "db_step C (s_db s) (s_db s')"
  shows "retry_ids_ok s'"
  using st
proof cases
  case (step_relay locked refuses fails now r d' adds)
  with relay_adds_no_retry [OF step_relay(2)] show ?thesis
    by (intro retry_ids_ok_quiet [OF ok db audit]) simp
next
  case (step_reap dl locked env r d' adds adds')
  with reap_adds_no_retry [OF step_reap(2,3)] show ?thesis
    by (intro retry_ids_ok_quiet [OF ok db audit]) simp
next
  case (step_settle i jd dis env r d' adds adds')
  show ?thesis
  proof (cases "adds' = []")
    case True
    with step_settle(1) show ?thesis by (intro retry_ids_ok_quiet [OF ok db audit]) simp
  next
    case False
    with step_settle(4) settle_adds [OF step_settle(3)] obtain j p q where
      j: "adds' = [j]" "is_retry_job j" "jd_paymentId (job_payload j) = p_id p"
        "job_id j = retry_id (p_id p) (attemptCount p + 1)"
      and p: "p \<in> set (payments (s_db s))"
      and q: "q \<in> set (payments d')" "p_id q = p_id p" "attemptCount q = attemptCount p + 1" by blast
    have queue: "retry_jobs (s_queue s') = retry_jobs (s_queue s) @ [j]"
      using j(1,2) by (simp add: step_settle(1)) (simp add: retry_jobs_def)
    have d': "s_db s' = d'" by (simp add: step_settle(1))
    have "retry_of d' j" using j q unfolding retry_of_def
      by (intro bexI [of _ q] exI [of _ "attemptCount p + 1"]) simp_all
    moreover have new: "job_id k \<noteq> job_id j" if "k \<in> set (retry_jobs (s_queue s))" for k
    proof
      assume eq: "job_id k = job_id j"
      from ok that obtain r n where r: "r \<in> set (payments (s_db s))" "n \<le> attemptCount r"
        "job_id k = retry_id (p_id r) n" by (auto simp: retry_ids_ok_def retry_of_def)
      with eq j(4) have "p_id r = p_id p" "n = attemptCount p + 1" by (auto dest: retry_id_inj)
      moreover from this have "r = p"
        using distinct_key_unique [OF audit_ok_distinct [OF audit] r(1) p] by simp
      ultimately show False using r(2) by simp
    qed
    then have "job_id j \<notin> job_id ` set (retry_jobs (s_queue s))" by force
    ultimately show ?thesis
      using ok retry_of_step [OF db audit] by (auto simp: retry_ids_ok_def queue d')
  qed
qed (intro retry_ids_ok_quiet [OF ok db audit]; simp)+

lemma reachable_retry_ids: "reachable cfg s \<Longrightarrow> retry_ids_ok s"
proof (induction rule: reachable.induct)
  case (reach_init t0)
  then show ?case by (simp add: retry_ids_ok_def initial_def retry_jobs_def)
next
  case (reach_step s s')
  then show ?case
    using retry_ids_ok_step reachable_ledger_ok reachable_db_step by (meson ledger_ok_def)
qed

end
