(* ===== verification/StoredTypes.thy ===== *)
theory StoredTypes
  imports System
begin

text \<open>
  The types of the stored payments: the amount of every row in every reachable state is a safe
  non-negative integer of cents in US dollars, since only a converted amount is ever inserted
  and no transaction changes a payment's terms.
\<close>

definition row_typed :: "payment \<Rightarrow> bool" where
  "row_typed p \<longleftrightarrow> 0 \<le> amountCents p \<and> amountCents p \<le> 2 ^ 53 - 1 \<and> currency p = ''USD''"

definition rows_typed :: "db \<Rightarrow> bool" where
  "rows_typed d \<longleftrightarrow> (\<forall>p \<in> set (payments d). row_typed p)"

lemma row_typed_terms: "same_terms p q \<Longrightarrow> row_typed p \<Longrightarrow> row_typed q"
  by (simp add: same_terms_def row_typed_def)

lemma rows_typed_submitted:
  assumes "rows_typed d" "convAmountToUnits s = Inr c"
  shows "rows_typed (submitted_db dto \<lfloor>c\<rfloor> key h corr env d)"
proof -
  obtain n :: nat where n: "c = of_nat n" "n \<le> 2 ^ 53 - 1"
    using convAmountToUnits_nonneg_int [OF assms(2)] by blast
  have "int n \<le> int (2 ^ 53 - 1)" using n(2) by (rule zle_int [THEN iffD2])
  then have "row_typed (payment_row dto \<lfloor>c\<rfloor> env)" by (simp add: row_typed_def n(1))
  then show ?thesis using assms(1) by (simp add: rows_typed_def submitted_db_def Let_def)
qed

text \<open>Every row after an audited step has the terms of a row before.\<close>

lemma audited_step_back:
  assumes "audited_step d d'" "audit_ok d" "q \<in> set (payments d')"
  shows "\<exists>p \<in> set (payments d). same_terms p q"
proof -
  have ids: "map p_id (payments d') = map p_id (payments d)" using assms(1) by (simp add: audited_step_def)
  have "distinct (map p_id (payments d'))" using audit_ok_distinct [OF assms(2)] ids by simp
  note unique = distinct_key_unique [OF this]
  have "p_id q \<in> set (map p_id (payments d))" using assms(3) ids by (metis image_eqI set_map)
  then obtain p where p: "p \<in> set (payments d)" "p_id p = p_id q" by auto
  with assms(1) obtain r where "r \<in> set (payments d')" "same_terms p r" unfolding audited_step_def by blast
  moreover from this p(2) have "r = q" using unique assms(3) by (simp add: same_terms_def)
  ultimately show ?thesis using p(1) by blast
qed

lemma rows_typed_audited: "audited_step d d' \<Longrightarrow> audit_ok d \<Longrightarrow> rows_typed d \<Longrightarrow> rows_typed d'"
  unfolding rows_typed_def using audited_step_back row_typed_terms by blast

lemma rows_typed_step:
  assumes "db_step C d d'" "audit_ok d" "rows_typed d"
  shows "rows_typed d'"
  using assms(1)
proof cases
  case (db_submit env dto key c h corr)
  then show ?thesis using rows_typed_submitted [OF assms(3)] by simp
next
  case (db_relay locked refuses fails now r adds)
  then show ?thesis using relay_poll_frame(1) assms(3) by (simp add: rows_typed_def)
next
  case (db_final jd dis env)
  then show ?thesis
    using final_txn_audited [OF audit_ok_distinct [OF assms(2)]] rows_typed_audited [OF _ assms(2,3)] by blast
qed (use audit_ok_distinct [OF assms(2)] reap_writer.write_audited claim_writer.write_audited
       retry_writer.write_audited rows_typed_audited [OF _ assms(2,3)] assms(3) in \<open>blast | simp\<close>)+

lemma reachable_rows_typed:
  assumes "reachable cfg s"
  shows "rows_typed (s_db s)"
proof -
  have "rows_typed empty_db" by (simp add: rows_typed_def empty_db_def)
  moreover have "rows_typed d'" if "ledger_ok d" "rows_typed d" "db_step C d d'" for C d d'
    using rows_typed_step [OF that(3)] that(1,2) by (simp add: ledger_ok_def)
  ultimately show ?thesis using reachable_db_invariant [OF assms, of rows_typed] by blast
qed

end
