(* ===== verification/JobQueue.thy ===== *)
theory JobQueue
  imports Outbox "HOL-Library.AList"
begin

text \<open>
  The job queues of \<open>apps/api/src/queue/queue.module.ts\<close>. The queue package and its store are not
  part of the repository: the operations of a store are the fields of \<open>job_store\<close>, and the locale
  \<open>bull_queue\<close> states what is documented of them, as operations on the map from job ids to the
  jobs the store holds. An addition whose id is still held is ignored; a handler that returns or
  throws settles the job for good, since no queue or worker of the repository raises the default of
  one attempt; a settled job is kept unless the queue removes it; a job whose worker died is made
  available again at most \<open>maxStalled\<close> times, then it counts as failed.
\<close>

subsection \<open>The two queues\<close>

definition PAYMENTS_QUEUE :: string where
  "PAYMENTS_QUEUE = ''payments''"

definition WEBHOOKS_QUEUE :: string where
  "WEBHOOKS_QUEUE = ''webhooks''"

record job_options =
  removeOnComplete :: bool
  removeOnFail :: bool

text \<open>The package's defaults, which keep every settled job.\<close>

definition default_options :: job_options where
  "default_options = \<lparr>removeOnComplete = False, removeOnFail = False\<rparr>"

text \<open>What \<open>registerQueue\<close> is given: the name and, where the code has them, \<open>defaultJobOptions\<close>.\<close>

definition registered_queues :: "(string \<times> job_options option) list" where
  "registered_queues =
     [(PAYMENTS_QUEUE, None),
      (WEBHOOKS_QUEUE, Some \<lparr>removeOnComplete = True, removeOnFail = True\<rparr>)]"

definition queue_options :: "string \<Rightarrow> job_options" where
  "queue_options name =
     (case map_of registered_queues name of Some (Some opts) \<Rightarrow> opts | _ \<Rightarrow> default_options)"

lemma queue_options_simps:
  "queue_options PAYMENTS_QUEUE = \<lparr>removeOnComplete = False, removeOnFail = False\<rparr>"
  "queue_options WEBHOOKS_QUEUE = \<lparr>removeOnComplete = True, removeOnFail = True\<rparr>"
  by (simp_all add: queue_options_def registered_queues_def default_options_def PAYMENTS_QUEUE_def WEBHOOKS_QUEUE_def)

subsection \<open>Jobs in a store\<close>

datatype job_state =
    Queued
  | Active nat
  | Job_completed
  | Job_failed

text \<open>A job waiting for its delay is \<open>Queued\<close>; an active one carries the worker that took it.\<close>

record 'a entry =
  en_job :: "'a job"
  en_state :: job_state
  en_stalls :: nat

type_synonym 'a job_map = "string \<rightharpoonup> 'a entry"

definition new_entry :: "'a job \<Rightarrow> 'a entry" where
  "new_entry j = \<lparr>en_job = j, en_state = Queued, en_stalls = 0\<rparr>"

definition map_add_job :: "'a job \<Rightarrow> 'a job_map \<Rightarrow> 'a job_map" where
  "map_add_job j m = (if m (job_id j) = None then m(job_id j \<mapsto> new_entry j) else m)"

definition map_take :: "nat \<Rightarrow> string \<Rightarrow> 'a job_map \<Rightarrow> 'a job_map" where
  "map_take i k m =
     (case m k of
        Some e \<Rightarrow> if en_state e = Queued then m(k \<mapsto> e\<lparr>en_state := Active i\<rparr>) else m
      | None \<Rightarrow> m)"

definition settled_entry :: "job_options \<Rightarrow> bool \<Rightarrow> 'a entry \<Rightarrow> 'a entry option" where
  "settled_entry opts ok e =
     (if (if ok then removeOnComplete opts else removeOnFail opts) then None
      else Some (e\<lparr>en_state := if ok then Job_completed else Job_failed\<rparr>))"

text \<open>Only the worker that holds the lock of a job can settle it.\<close>

definition map_finish :: "job_options \<Rightarrow> nat \<Rightarrow> string \<Rightarrow> bool \<Rightarrow> 'a job_map \<Rightarrow> 'a job_map" where
  "map_finish opts i k ok m =
     (case m k of
        Some e \<Rightarrow> if en_state e = Active i then m(k := settled_entry opts ok e) else m
      | None \<Rightarrow> m)"

definition is_active :: "job_state \<Rightarrow> bool" where
  "is_active st \<longleftrightarrow> (\<exists>i. st = Active i)"

definition map_stall :: "job_options \<Rightarrow> nat \<Rightarrow> string \<Rightarrow> 'a job_map \<Rightarrow> 'a job_map" where
  "map_stall opts mx k m =
     (case m k of
        Some e \<Rightarrow>
          if \<not> is_active (en_state e) then m
          else if en_stalls e < mx then m(k \<mapsto> e\<lparr>en_state := Queued, en_stalls := en_stalls e + 1\<rparr>)
          else m(k := settled_entry opts False e)
      | None \<Rightarrow> m)"

lemma is_active_simps [simp]:
  "is_active (Active i)" "\<not> is_active Queued" "\<not> is_active Job_completed" "\<not> is_active Job_failed"
  by (simp_all add: is_active_def)

lemmas job_map_defs = map_take_def map_finish_def map_stall_def settled_entry_def

text \<open>An entry that can still be delivered to a worker.\<close>

definition live_entry :: "nat \<Rightarrow> 'a entry \<Rightarrow> bool" where
  "live_entry mx e \<longleftrightarrow> en_state e = Queued \<or> (is_active (en_state e) \<and> en_stalls e < mx)"

subsection \<open>The documented behaviour\<close>

record ('a, 'q) job_store =
  js_find :: "'q \<Rightarrow> string \<Rightarrow> 'a entry option"
  js_empty :: 'q
  js_add :: "'a job \<Rightarrow> 'q \<Rightarrow> 'q"
  js_take :: "nat \<Rightarrow> string \<Rightarrow> 'q \<Rightarrow> 'q"
  js_finish :: "nat \<Rightarrow> string \<Rightarrow> bool \<Rightarrow> 'q \<Rightarrow> 'q"
  js_stall :: "string \<Rightarrow> 'q \<Rightarrow> 'q"

locale bull_queue =
  fixes Q :: "('a, 'q) job_store" and opts :: job_options and mx :: nat
  assumes find_empty: "js_find Q (js_empty Q) = Map.empty"
    and find_add: "js_find Q (js_add Q j q) = map_add_job j (js_find Q q)"
    and find_take: "js_find Q (js_take Q i k q) = map_take i k (js_find Q q)"
    and find_finish: "js_find Q (js_finish Q i k ok q) = map_finish opts i k ok (js_find Q q)"
    and find_stall: "js_find Q (js_stall Q k q) = map_stall opts mx k (js_find Q q)"
    and find_finite: "finite (dom (js_find Q q))"
begin

lemma fresh_id:
  assumes "inj f"
  obtains n :: nat where "js_find Q q (f n) = None"
proof -
  have "infinite (range f)" using assms finite_imageD infinite_UNIV_nat by blast
  then have "\<not> range f \<subseteq> dom (js_find Q q)" using find_finite finite_subset by blast
  with that show thesis by auto
qed

lemmas find_laws = find_empty find_add find_take find_finish find_stall

lemma find_adds: "js_find Q (fold (js_add Q) js q) = fold map_add_job js (js_find Q q)"
  by (induction js arbitrary: q) (simp_all add: find_add)

end

lemma fold_add_Some:
  "m k = Some e \<Longrightarrow> fold map_add_job js m k = Some e"
proof (induction js arbitrary: m)
  case (Cons j js)
  then have "map_add_job j m k = Some e" by (auto simp: map_add_job_def)
  with Cons.IH show ?case by simp
qed simp

lemma fold_add_cases:
  assumes "fold map_add_job js m k = Some e"
  shows "m k = Some e \<or> (m k = None \<and> (\<exists>j \<in> set js. job_id j = k \<and> e = new_entry j))"
  using assms
proof (induction js arbitrary: m)
  case (Cons j js)
  from Cons.prems have "fold map_add_job js (map_add_job j m) k = Some e" by simp
  from Cons.IH [OF this] show ?case by (auto simp: map_add_job_def split: if_splits)
qed simp

lemma fold_add_new:
  "m (job_id j) = None \<Longrightarrow> fold map_add_job [j] m (job_id j) = Some (new_entry j)"
  by (simp add: map_add_job_def)

text \<open>What an operation can make of an entry: it keeps its job, or the queue removes it.\<close>

lemma map_op_entry:
  "map_take i k m k' = Some e' \<Longrightarrow> \<exists>e. m k' = Some e \<and> en_job e' = en_job e"
  "map_finish opts i k ok m k' = Some e' \<Longrightarrow> \<exists>e. m k' = Some e \<and> en_job e' = en_job e"
  "map_stall opts mx k m k' = Some e' \<Longrightarrow> \<exists>e. m k' = Some e \<and> en_job e' = en_job e"
  by (auto simp: job_map_defs split: option.splits if_splits)

subsection \<open>A map that holds only what was added\<close>

definition holds_only :: "'a job list \<Rightarrow> 'a job_map \<Rightarrow> bool" where
  "holds_only js m \<longleftrightarrow> (\<forall>k e. m k = Some e \<longrightarrow> en_job e \<in> set js \<and> job_id (en_job e) = k)"

lemma holds_onlyI: "(\<And>k e. m k = Some e \<Longrightarrow> en_job e \<in> set js \<and> job_id (en_job e) = k) \<Longrightarrow> holds_only js m"
  by (simp add: holds_only_def)

lemma holds_onlyD: "holds_only js m \<Longrightarrow> m k = Some e \<Longrightarrow> en_job e \<in> set js \<and> job_id (en_job e) = k"
  by (simp add: holds_only_def)

lemma holds_only_empty [simp]: "holds_only js Map.empty"
  by (simp add: holds_only_def)

lemma holds_only_shrinks:
  assumes "holds_only js m" "\<And>k e'. m' k = Some e' \<Longrightarrow> \<exists>e. m k = Some e \<and> en_job e' = en_job e"
  shows "holds_only js m'"
proof (rule holds_onlyI)
  fix k e' assume "m' k = Some e'"
  from assms(2) [OF this] obtain e where "m k = Some e" "en_job e' = en_job e" by blast
  with holds_onlyD [OF assms(1)] show "en_job e' \<in> set js \<and> job_id (en_job e') = k" by auto
qed

lemma holds_only_ops [intro]:
  "holds_only js m \<Longrightarrow> holds_only js (map_take i k m)"
  "holds_only js m \<Longrightarrow> holds_only js (map_finish opts i k ok m)"
  "holds_only js m \<Longrightarrow> holds_only js (map_stall opts mx k m)"
  by (erule holds_only_shrinks, erule map_op_entry)+

lemma holds_only_adds [intro]: "holds_only js m \<Longrightarrow> holds_only (js @ adds) (fold map_add_job adds m)"
  by (rule holds_onlyI, drule fold_add_cases) (auto simp: holds_only_def new_entry_def)

subsection \<open>A queue that removes settled jobs holds none\<close>

definition unsettled :: "'a job_map \<Rightarrow> bool" where
  "unsettled m \<longleftrightarrow> (\<forall>k e. m k = Some e \<longrightarrow> en_state e = Queued \<or> is_active (en_state e))"

lemma unsettled_empty [simp]: "unsettled Map.empty"
  by (simp add: unsettled_def)

lemma unsettled_ops [intro]:
  "unsettled m \<Longrightarrow> unsettled (map_take i k m)"
  "unsettled m \<Longrightarrow> unsettled (map_finish (queue_options WEBHOOKS_QUEUE) i k ok m)"
  "unsettled m \<Longrightarrow> unsettled (map_stall (queue_options WEBHOOKS_QUEUE) mx k m)"
  by (auto simp: unsettled_def job_map_defs queue_options_simps split: option.splits)

lemma unsettled_adds [intro]: "unsettled m \<Longrightarrow> unsettled (fold map_add_job adds m)"
  unfolding unsettled_def by (auto simp: new_entry_def dest!: fold_add_cases)

subsection \<open>A store\<close>

text \<open>An association list with the options of a queue behaves as documented.\<close>

definition list_store :: "job_options \<Rightarrow> nat \<Rightarrow> ('a, (string \<times> 'a entry) list) job_store" where
  "list_store opts mx =
     \<lparr>js_find = map_of, js_empty = [],
      js_add = (\<lambda>j q. if map_of q (job_id j) = None then AList.update (job_id j) (new_entry j) q else q),
      js_take = (\<lambda>i k q. case map_of q k of
          Some e \<Rightarrow> if en_state e = Queued then AList.update k (e\<lparr>en_state := Active i\<rparr>) q else q
        | None \<Rightarrow> q),
      js_finish = (\<lambda>i k ok q. case map_of q k of
          Some e \<Rightarrow> if en_state e = Active i
            then (case settled_entry opts ok e of Some e' \<Rightarrow> AList.update k e' q | None \<Rightarrow> AList.delete k q)
            else q
        | None \<Rightarrow> q),
      js_stall = (\<lambda>k q. case map_of q k of
          Some e \<Rightarrow>
            if \<not> is_active (en_state e) then q
            else if en_stalls e < mx then AList.update k (e\<lparr>en_state := Queued, en_stalls := en_stalls e + 1\<rparr>) q
            else (case settled_entry opts False e of Some e' \<Rightarrow> AList.update k e' q | None \<Rightarrow> AList.delete k q)
        | None \<Rightarrow> q)\<rparr>"

lemma delete_map_of: "map_of (AList.delete k q) = (map_of q)(k := None)"
  using delete_conv [of k q] by (auto simp: fun_eq_iff)

interpretation payments_store: bull_queue "list_store (queue_options PAYMENTS_QUEUE) mx"
  "queue_options PAYMENTS_QUEUE" mx for mx
  by unfold_locales
    (simp_all add: list_store_def map_add_job_def job_map_defs update_conv' delete_map_of fun_eq_iff
      finite_dom_map_of split: option.splits)

interpretation webhooks_store: bull_queue "list_store (queue_options WEBHOOKS_QUEUE) mx"
  "queue_options WEBHOOKS_QUEUE" mx for mx
  by unfold_locales
    (simp_all add: list_store_def map_add_job_def job_map_defs update_conv' delete_map_of fun_eq_iff
      finite_dom_map_of split: option.splits)

end
