(* ===== verification/LateCharges.thy ===== *)
theory LateCharges
  imports System
begin

text \<open>
  A bank call that outlives its last attempt. The worker gives a call up after the timeout and
  counts a retry; with the attempts used up it fails the payment. The call may still be answered
  by the bank. Shown: from every state in which such a call is open the system can reach one where
  the payment is FAILED for good and charged.
\<close>

lemma fresh_event_id: "\<exists>i. i \<notin> e_id ` set (paymentEvents d)"
  by (rule ex_new_if_finite [OF infinite_UNIV_listI]) simp

definition gives_up :: "string \<Rightarrow> handler_env" where
  "gives_up i =
     (let te = \<lparr>tx_time = 0, tx_db_now = 0, tx_event = i, tx_outbox = []\<rparr>
      in \<lparr>claim_env = te, call_env = \<lparr>bk_allow_time = 0, bk_record_time = 0\<rparr>, settle_env = te, rnd = 0\<rparr>)"

text \<open>The settling of an attempt beyond the budget: FAILED, and no job.\<close>

lemma settle_exhausted:
  assumes "distinct (map p_id (payments d))" "p \<in> set (payments d)" "p_id p = jd_paymentId jd"
    and "status p = PROCESSING" "MAX_RETRIES cfg \<le> attemptCount p" "i \<notin> e_id ` set (paymentEvents d)"
  shows "\<exists>d' q. settle cfg (gives_up i) jd (Retry why) d = (Inr (), d', [])
    \<and> q \<in> set (payments d') \<and> p_id q = p_id p \<and> status q = FAILED"
proof -
  let ?c = "cas_pred (jd_paymentId jd) PROCESSING"
  let ?u = "retry_row (MAX_RETRIES cfg) why 0"
  have c: "?c p" using assms(3,4) by (simp add: cas_pred_def)
  have "\<exists>r. first_row (select_where ?c (payments d)) = Some r"
    using assms(2) c by (cases "select_where ?c (payments d)") (auto simp: select_where_def filter_empty_conv)
  then obtain r where r: "first_row (select_where ?c (payments d)) = Some r" by blast
  then have "r \<in> set (payments d)" "p_id r = p_id p"
    using first_row_cas [OF r] assms(3) by (auto simp: cas_pred_def)
  then have rp: "r = p" using distinct_key_unique [OF assms(1) _ assms(2)] by blast
  have ret: "first_row (returning ?c ?u (payments d)) = Some (?u p)"
    using r rp cas_found [OF assms(1), of "jd_paymentId jd" PROCESSING ?u] by simp
  have f: "status (?u p) = FAILED" using assms(5) by (simp add: retry_status_def)
  let ?d = "d\<lparr>payments := update_where ?c ?u (payments d),
      paymentEvents := paymentEvents d @ [retry_event jd (?u p) why (settle_env (gives_up i))]\<rparr>"
  have m: "?u p \<in> set (update_where ?c ?u (payments d))"
    using assms(2) c by (auto simp: set_update_where intro!: image_eqI [where x = p])
  then have k: "jd_paymentId jd \<in> p_id ` set (update_where ?c ?u (payments d))"
    using assms(3) by (intro image_eqI [where x = "?u p"]) simp_all
  have "retry_txn (MAX_RETRIES cfg) jd why (settle_env (gives_up i)) d = Inr (None, ?d)"
    using ret f k assms(6) by (simp add: retry_txn_def Let_def gives_up_def insert_event_def insert_row_def retry_event_def)
  then have "settle cfg (gives_up i) jd (Retry why) d = (Inr (), ?d, [])"
    by (simp add: settle_def schedule_retry_def)
  moreover have "?u p \<in> set (payments ?d)" using m by simp
  ultimately show ?thesis using f by (intro exI [of _ ?d] exI [of _ "?u p"]) simp
qed

lemma late_charge:
  assumes r: "reachable cfg s"
    and w: "s_workers s i = Waiting jd" "(i, authorize_request jd) \<in> set (s_calls s)"
    and p: "p \<in> set (payments (s_db s))" "p_id p = jd_paymentId jd" "status p = PROCESSING"
      "MAX_RETRIES cfg \<le> attemptCount p"
    and b: "authorize (authorize_request jd) (s_banks s i) = (Authorized bref, b')"
  shows "\<exists>s' q. (sys_step cfg)\<^sup>*\<^sup>* s s' \<and> (i, s_lives s' i, p_id p) \<in> s_charged s'
    \<and> q \<in> set (payments (s_db s')) \<and> p_id q = p_id p \<and> status q = FAILED"
proof -
  let ?br = "cb_record (breaker_cfg cfg) 0 False (s_breakers s i)"
  define s1 where "s1 = set_worker i (Settling jd (Retry ''bank_timeout'')) (set_breaker i ?br s)"
  have 1: "sys_step cfg s s1" unfolding s1_def using w(1) by (intro step_timeout [where now = 0]) simp_all
  have d: "distinct (map p_id (payments (s_db s)))" using reachable_ledger_ok [OF r] by (simp add: ledger_ok_def audit_ok_distinct)
  obtain e where e: "e \<notin> e_id ` set (paymentEvents (s_db s))" using fresh_event_id by blast
  obtain d' q where s: "settle cfg (gives_up e) jd (Retry ''bank_timeout'') (s_db s) = (Inr (), d', [])"
    "q \<in> set (payments d')" "p_id q = p_id p" "status q = FAILED"
    using settle_exhausted [OF d p e] by blast
  define s2 where "s2 = set_worker i Idle (s1\<lparr>s_db := d', s_queue := s_queue s1 @ []\<rparr>)"
  have 2: "sys_step cfg s1 s2"
    unfolding s2_def using s(1)
    by (intro step_settle [where env = "gives_up e" and jd = jd and dis = "Retry ''bank_timeout''" and r = "Inr ()" and adds = "[]"])
      (simp_all add: s1_def set_breaker_def)
  have c2: "s_banks s2 = s_banks s" "s_calls s2 = s_calls s" "s_db s2 = d'" "s_lives s2 = s_lives s"
    by (simp_all add: s2_def s1_def set_breaker_def)
  define s3 where "s3 = set_bank i b' (s2\<lparr>s_calls := remove1 (i, authorize_request jd) (s_calls s2)\<rparr>)"
  have 3: "sys_step cfg s2 s3"
    unfolding s3_def using w(2) b by (intro step_late [where out = "Authorized bref"]) (simp_all add: c2)
  have run: "(sys_step cfg)\<^sup>*\<^sup>* s s3" using 1 2 3 by (meson converse_rtranclp_into_rtranclp rtranclp.rtrancl_refl)
  have "sim_bank_inv (s_banks s i)" using reachable_history_ok [OF r] by (simp add: history_ok_def)
  from sim.auth_charged [OF this b] have "p_id p \<in> charged_keys (s_banks s3 i)"
    by (simp add: s3_def p(2) authorize_request_def)
  from history_charged [OF reachable_history_ok [OF steps_reachable [OF run r]] this]
  have "(i, s_lives s3 i, p_id p) \<in> s_charged s3" .
  moreover have "s_db s3 = d'" by (simp add: s3_def c2)
  ultimately show ?thesis using run s(2-4) by blast
qed

end
