(* ===== verification/Progress.thy ===== *)
theory Progress
  imports LateCharges
begin

text \<open>
  No payment is lost: in every reachable state a payment has a job in the queue or an unpublished
  submission row, and from every reachable state an unfinished payment can still be completed, by the
  relay, the reaper, a worker that is restarted and a bank that authorizes. Outbox ids are assumed not
  to repeat, as ULIDs do not: the relay marks by id what it claimed. In this relation any job that was
  ever added may be delivered; what is left of this over a job store is in \<open>Stranding\<close>.
\<close>

subsection \<open>Every payment has a job or a row to publish\<close>

definition covered :: "system \<Rightarrow> string \<Rightarrow> bool" where
  "covered s i \<longleftrightarrow> (\<exists>j \<in> set (s_queue s). jd_paymentId (job_payload j) = i)
     \<or> (\<exists>r \<in> set (outbox (s_db s)). relay_pending r \<and> jd_paymentId (payload r) = i)"

definition nothing_lost :: "system \<Rightarrow> bool" where
  "nothing_lost s \<longleftrightarrow> distinct (map o_id (outbox (s_db s))) \<longrightarrow> (\<forall>p \<in> set (payments (s_db s)). covered s (p_id p))"

text \<open>A transaction that removes nothing, and accounts for the payments it adds.\<close>

definition grows :: "db \<Rightarrow> db \<Rightarrow> bool" where
  "grows d d' \<longleftrightarrow> (\<exists>rs. outbox d' = outbox d @ rs \<and> (\<forall>p \<in> set (payments d'). p_id p \<in> p_id ` set (payments d)
     \<or> (\<exists>r \<in> set rs. relay_pending r \<and> jd_paymentId (payload r) = p_id p)))"

lemma grows_refl [simp]: "grows d d"
  by (auto simp: grows_def)

lemma grows_audited:
  assumes "audited_step d d'" "outbox d' = outbox d @ rs"
  shows "grows d d'"
proof -
  have "p_id ` set (payments d') = p_id ` set (payments d)"
    using audited_step_frame(1) [OF assms(1)] by (metis set_map)
  then show ?thesis using assms(2) by (auto simp: grows_def)
qed

lemma submit_grows: "submit su d = (r, d') \<Longrightarrow> grows d d'"
  unfolding submit_def
  by (drule insert_txn_atomic)
    (auto simp: grows_def submitted_db_def Let_def relay_pending_def submitted_outbox_def submitted_payload_def)

lemma claim_grows:
  assumes "distinct (map p_id (payments d))" "claim_rest jd found env d = Inr d'"
  shows "grows d d'"
proof -
  have "outbox d' = outbox d @ []"
    using assms(2) by (auto simp: claim_rest_def split: option.splits if_splits dest!: claim_cas_Inr)
  with claim_rest_audited [OF assms] show ?thesis by (rule grows_audited)
qed

lemma reap_grows:
  assumes "distinct (map p_id (payments d))" "reap_once dl locked env d = (r, d', adds)"
  shows "grows d d'"
proof (cases "reap_txn dl locked env d")
  case (Inl e)
  then show ?thesis using assms(2) by (simp add: reap_once_def)
next
  case (Inr x)
  then have x: "reap_txn dl locked env d = Inr (fst x, d')" using assms(2) by (cases x) (simp add: reap_once_def)
  then have "outbox d' = outbox d @ []" by (subst reap_txn_Inr(2) [OF x]) simp
  with reap_txn_audited [OF assms(1) x] show ?thesis by (rule grows_audited)
qed

lemma settle_grows:
  assumes "distinct (map p_id (payments d))" "settle cfg env jd dis d = (r, d', adds)"
  shows "grows d d'"
proof (cases "is_retry dis")
  case True
  then obtain why where dis: "dis = Retry why" by (cases dis) auto
  then consider "d' = d" | sch where "retry_txn (MAX_RETRIES cfg) jd why (settle_env env) d = Inr (sch, d')"
    using assms(2) by (auto simp: settle_def split: sum.splits prod.splits)
  then show ?thesis
  proof cases
    case 2
    then have "outbox d' = outbox d @ []" by (auto dest!: retry_txn_Inr)
    with retry_txn_audited [OF assms(1) 2] show ?thesis by (rule grows_audited)
  qed simp
next
  case False
  then have "final_txn jd dis (settle_env env) d = Inr d' \<or> d' = d"
    using assms(2) by (cases dis) (auto simp: settle_def split: sum.splits)
  then show ?thesis
  proof
    assume f: "final_txn jd dis (settle_env env) d = Inr d'"
    then show ?thesis by (auto simp: grows_def in_update_where dest!: final_txn_Inr)
  qed simp
qed

lemma grows_nothing_lost:
  assumes "nothing_lost s" "grows (s_db s) (s_db s')" "set (s_queue s) \<subseteq> set (s_queue s')"
  shows "nothing_lost s'"
  unfolding nothing_lost_def
proof (intro impI ballI)
  fix p assume d: "distinct (map o_id (outbox (s_db s')))" and p: "p \<in> set (payments (s_db s'))"
  obtain rs where rs: "outbox (s_db s') = outbox (s_db s) @ rs"
    "p_id p \<in> p_id ` set (payments (s_db s)) \<or> (\<exists>r \<in> set rs. relay_pending r \<and> jd_paymentId (payload r) = p_id p)"
    using assms(2) p unfolding grows_def by blast
  from rs(2) show "covered s' (p_id p)"
  proof
    assume "p_id p \<in> p_id ` set (payments (s_db s))"
    moreover have "distinct (map o_id (outbox (s_db s)))" using d rs(1) by simp
    ultimately have "covered s (p_id p)" using assms(1) by (auto simp: nothing_lost_def)
    then show ?thesis using assms(3) rs(1) by (auto simp: covered_def)
  qed (auto simp: covered_def rs(1))
qed

text \<open>The relay: a row it marks is a row it claimed, and has its job.\<close>

lemma relay_nothing_lost:
  assumes "nothing_lost s" and poll: "relay_poll_once locked refuses fails now (s_db s) = (r, d', adds)"
  shows "nothing_lost (s\<lparr>s_db := d', s_queue := s_queue s @ adds\<rparr>)"
proof (cases r)
  case (Inl e)
  then have "d' = s_db s" using relay_poll_db [OF poll] by simp
  then show ?thesis using grows_nothing_lost [OF assms(1)] by simp
next
  case (Inr n)
  let ?c = "claim_rows relay_pending locked (outbox (s_db s))"
  let ?s = "s\<lparr>s_db := d', s_queue := s_queue s @ adds\<rparr>"
  have adds: "adds = map relay_job ?c" and d': "outbox d' = poll_mark relay_pending (relay_mark now) locked (outbox (s_db s))"
    and pay: "payments d' = payments (s_db s)"
    using relay_poll_db [OF poll] Inr by auto
  have ids: "map o_id (outbox d') = map o_id (outbox (s_db s))" using relay_poll_frame(5) [OF poll] .
  have keep: "covered ?s i" if c: "covered s i" and dist: "distinct (map o_id (outbox (s_db s)))" for i
  proof -
    consider (job) "\<exists>j \<in> set (s_queue s). jd_paymentId (job_payload j) = i"
      | (row) x where "x \<in> set (outbox (s_db s))" "relay_pending x" "jd_paymentId (payload x) = i"
      using c by (auto simp: covered_def)
    then show ?thesis
    proof cases
      case job
      then show ?thesis by (auto simp: covered_def)
    next
      case row
      show ?thesis
      proof (cases "o_id x \<in> o_id ` set ?c")
        case True
        then obtain y where y: "y \<in> set ?c" "o_id y = o_id x" by auto
        then have "y = x" using distinct_key_unique [OF dist _ row(1)] claim_rows_in by blast
        then have "relay_job x \<in> set adds" using y(1) by (simp add: adds)
        then have "relay_job x \<in> set (s_queue ?s)" "jd_paymentId (job_payload (relay_job x)) = i"
          using row(3) by (simp_all add: relay_job_def)
        then show ?thesis unfolding covered_def by blast
      next
        case False
        then have "x \<in> set (outbox d')"
          using row(1) by (auto simp: d' poll_mark_def mark_rows_def in_update_where)
        then show ?thesis using row(2,3) by (auto simp: covered_def)
      qed
    qed
  qed
  then show ?thesis using assms(1) pay ids by (simp add: nothing_lost_def)
qed

lemma nothing_lost_step:
  assumes "nothing_lost s" "distinct (map p_id (payments (s_db s)))" "sys_step cfg s s'"
  shows "nothing_lost s'"
  using assms(3)
proof cases
  case (step_submit su r d')
  then show ?thesis using grows_nothing_lost [OF assms(1)] submit_grows by simp
next
  case (step_relay locked refuses fails now r d' adds)
  then show ?thesis using relay_nothing_lost [OF assms(1)] by simp
next
  case (step_reap dl locked env r d' adds adds')
  then show ?thesis using grows_nothing_lost [OF assms(1)] reap_grows [OF assms(2)] by simp
next
  case (step_claim i jd found env d')
  then show ?thesis using grows_nothing_lost [OF assms(1)] claim_grows [OF assms(2)] by simp
next
  case (step_settle i jd dis env r d' adds adds')
  then show ?thesis using grows_nothing_lost [OF assms(1)] settle_grows [OF assms(2)] by simp
qed (use grows_nothing_lost [OF assms(1)] in \<open>simp_all add: set_breaker_def\<close>)

lemma reachable_distinct: "reachable cfg s \<Longrightarrow> distinct (map p_id (payments (s_db s)))"
  using reachable_ledger_ok by (simp add: ledger_ok_def audit_ok_distinct)

lemma reachable_nothing_lost: "reachable cfg s \<Longrightarrow> nothing_lost s"
proof (induction rule: reachable.induct)
  case (reach_init t0)
  then show ?case by (simp add: nothing_lost_def initial_def empty_db_def)
qed (use nothing_lost_step reachable_distinct in blast)

subsection \<open>A worker that has not been used\<close>

definition untouched :: "int \<Rightarrow> system \<Rightarrow> bool" where
  "untouched t0 s \<longleftrightarrow> finite {i. s_workers s i \<noteq> Idle \<or> s_breakers s i \<noteq> new_breaker t0}"

lemma sys_step_one_worker:
  assumes "sys_step cfg s s'"
  shows "\<exists>i. \<forall>k. k \<noteq> i \<longrightarrow> s_workers s' k = s_workers s k \<and> s_breakers s' k = s_breakers s k"
  using assms by cases (auto simp: set_breaker_def)

lemma reachable_untouched: "reachable cfg s \<Longrightarrow> \<exists>t0. untouched t0 s"
proof (induction rule: reachable.induct)
  case (reach_init t0)
  show ?case by (rule exI [of _ t0]) (simp add: untouched_def initial_def)
next
  case (reach_step s s')
  then obtain t0 i where "untouched t0 s"
    "\<forall>k. k \<noteq> i \<longrightarrow> s_workers s' k = s_workers s k \<and> s_breakers s' k = s_breakers s k"
    using sys_step_one_worker by blast
  then have "{i. s_workers s' i \<noteq> Idle \<or> s_breakers s' i \<noteq> new_breaker t0}
      \<subseteq> insert i {i. s_workers s i \<noteq> Idle \<or> s_breakers s i \<noteq> new_breaker t0}" by auto
  then show ?case using \<open>untouched t0 s\<close> by (auto simp: untouched_def intro: finite_subset)
qed

lemma fresh_worker:
  assumes "reachable cfg s"
  obtains i t0 where "s_workers s i = Idle" "s_breakers s i = new_breaker t0"
proof -
  obtain t0 where "finite {i. s_workers s i \<noteq> Idle \<or> s_breakers s i \<noteq> new_breaker t0}"
    using reachable_untouched [OF assms] by (auto simp: untouched_def)
  then obtain i where "i \<notin> {i. s_workers s i \<noteq> Idle \<or> s_breakers s i \<noteq> new_breaker t0}"
    using ex_new_if_finite [OF infinite_UNIV_nat] by blast
  with that show thesis by auto
qed

subsection \<open>From any state to completion\<close>

text \<open>A poll of the relay that finds every other row locked publishes one row.\<close>

lemma relay_one:
  assumes "distinct (map o_id (outbox d))" "x \<in> set (outbox d)" "relay_pending x"
  obtains r d' where "relay_poll_once (- {o_id x}) (\<lambda>_. False) False 0 d = (r, d', [relay_job x])" "payments d' = payments d"
proof -
  let ?locked = "- {o_id x}"
  obtain r d' adds where poll: "relay_poll_once ?locked (\<lambda>_. False) False 0 d = (r, d', adds)"
    by (cases "relay_poll_once ?locked (\<lambda>_. False) False 0 d")
  let ?sel = "select_where (\<lambda>r. relay_pending r \<and> o_id r \<notin> ?locked) (outbox d)"
  have "set ?sel = {x}" using assms(2,3) distinct_key_unique [OF assms(1) _ assms(2)] by auto
  moreover have "distinct ?sel" using assms(1) by (simp add: select_where_def distinct_map)
  ultimately have "?sel = [x]" by (rule singleton_list)
  then have "claim_rows relay_pending ?locked (outbox d) = [x]"
    by (simp add: claim_rows_def limit_def order_by_def)
  then have "adds = [relay_job x]" using poll by (auto simp: relay_poll_once_def Let_def split: if_splits)
  with poll that relay_poll_frame(1) [OF poll] show thesis by blast
qed

text \<open>A job for the payment: there is one, or one poll of the relay adds it.\<close>

lemma job_available:
  assumes "reachable cfg s" "distinct (map o_id (outbox (s_db s)))" "p \<in> set (payments (s_db s))"
  obtains s1 j where "(sys_step cfg)\<^sup>*\<^sup>* s s1" "payments (s_db s1) = payments (s_db s)"
    "j \<in> set (s_queue s1)" "jd_paymentId (job_payload j) = p_id p"
proof -
  have "covered s (p_id p)" using reachable_nothing_lost [OF assms(1)] assms(2,3) by (auto simp: nothing_lost_def)
  then consider (job) j where "j \<in> set (s_queue s)" "jd_paymentId (job_payload j) = p_id p"
    | (row) x where "x \<in> set (outbox (s_db s))" "relay_pending x" "jd_paymentId (payload x) = p_id p"
    by (auto simp: covered_def)
  then show thesis
  proof cases
    case job
    with that [of s] show thesis by blast
  next
    case row
    obtain r d' where poll: "relay_poll_once (- {o_id x}) (\<lambda>_. False) False 0 (s_db s) = (r, d', [relay_job x])"
      and pay: "payments d' = payments (s_db s)"
      by (rule relay_one [OF assms(2) row(1,2)])
    have "sys_step cfg s (s\<lparr>s_db := d', s_queue := s_queue s @ [relay_job x]\<rparr>)" by (rule step_relay [OF poll])
    then show thesis
      using row(3) pay
      by (intro that [of "s\<lparr>s_db := d', s_queue := s_queue s @ [relay_job x]\<rparr>" "relay_job x"]) (auto simp: relay_job_def)
  qed
qed

text \<open>A pass of the reaper, at the time \<open>n\<close>, that finds one payment stuck and the others locked.\<close>

definition reaps :: "payment \<Rightarrow> string \<Rightarrow> nat \<Rightarrow> reap_env" where
  "reaps p e n = \<lparr>re_cutoff_now = p_updatedAt p + 1, re_update_now = 0, re_db_now = 0, re_enqueue_now = n,
     re_fresh = (\<lambda>_. e)\<rparr>"

lemma reap_one:
  assumes dist: "distinct (map p_id (payments d))" and p: "p \<in> set (payments d)" "status p \<in> {PROCESSING, RETRYING}"
  obtains e d' q where "reap_once 0 (- {p_id p}) (reaps p e n) d = (Inr (), d', [reap_job (reaps p e n) p])"
    "q \<in> set (payments d')" "same_terms p q" "status q = RETRYING"
proof -
  obtain e where e: "e \<notin> e_id ` set (paymentEvents d)" using fresh_event_id by blast
  let ?en = "reaps p e n" and ?locked = "- {p_id p}"
  let ?sel = "select_where (\<lambda>q. is_stuck 0 (re_cutoff_now ?en) q \<and> p_id q \<notin> ?locked) (payments d)"
  have "set ?sel = {p}"
    using p distinct_key_unique [OF dist _ p(1)] by (auto simp: is_stuck_def reaps_def)
  moreover have "distinct ?sel" using dist by (simp add: select_where_def distinct_map)
  ultimately have "?sel = [p]" by (rule singleton_list)
  then have c: "claim_stuck 0 ?locked (re_cutoff_now ?en) (payments d) = [p]"
    by (simp add: claim_stuck_def limit_def)
  show thesis
  proof (cases "status p = PROCESSING")
    case True
    let ?pays = "update_where (\<lambda>q. p_id q \<in> {p_id p}) (reap_row 0) (payments d)"
    have m: "reap_row 0 p \<in> set ?pays" using p(1) by (auto simp: in_update_where)
    then have "p_id p \<in> p_id ` set ?pays" by (intro image_eqI [where x = "reap_row 0 p"]) simp_all
    then have "\<exists>d'. reap_txn 0 ?locked ?en d = Inr ([p], d')"
      using e True by (simp add: reap_txn_def c Let_def insert_event_def insert_row_def reaped_event_def) (simp add: reaps_def)
    then obtain d' where x: "reap_txn 0 ?locked ?en d = Inr ([p], d')" by blast
    have pays: "payments d' = ?pays" by (subst reap_txn_Inr(2) [OF x]) (simp add: True reaps_def)
    have "reap_once 0 ?locked ?en d = (Inr (), d', [reap_job ?en p])" using x by (simp add: reap_once_def)
    then show thesis using m pays by (intro that [of e d' "reap_row 0 p"]) simp_all
  next
    case False
    then have "reap_txn 0 ?locked ?en d = Inr ([p], d)" by (simp add: reap_txn_def c)
    then have "reap_once 0 ?locked ?en d = (Inr (), d, [reap_job ?en p])" by (simp add: reap_once_def)
    then show thesis using p False by (intro that [of e d p]) auto
  qed
qed

text \<open>A payment in PROCESSING is taken back by a pass of the reaper that finds it stuck.\<close>

lemma claimable:
  assumes "reachable cfg s" "p \<in> set (payments (s_db s))" "\<not> is_terminal (status p)"
  obtains s1 q where "(sys_step cfg)\<^sup>*\<^sup>* s s1" "q \<in> set (payments (s_db s1))" "same_terms p q"
    "canTransition (status q) PROCESSING" "set (s_queue s) \<subseteq> set (s_queue s1)"
proof (cases "status p = PROCESSING")
  case False
  then have "canTransition (status p) PROCESSING" using assms(3) by (cases "status p") (auto simp: is_terminal_def to_PROCESSING)
  then show thesis using that [of s p] assms(2) by (simp add: same_terms_def)
next
  case True
  then have "status p \<in> {PROCESSING, RETRYING}" by simp
  from reap_one [OF reachable_distinct [OF assms(1)] assms(2) this, of 0]
  obtain e d' q where reap: "reap_once 0 (- {p_id p}) (reaps p e 0) (s_db s) = (Inr (), d', [reap_job (reaps p e 0) p])"
    and q: "q \<in> set (payments d')" "same_terms p q" "status q = RETRYING" .
  have "sys_step cfg s (s\<lparr>s_db := d', s_queue := s_queue s @ [reap_job (reaps p e 0) p]\<rparr>)"
    by (rule step_reap [OF reap]) simp
  then show thesis
    using q by (intro that [of "s\<lparr>s_db := d', s_queue := s_queue s @ [reap_job (reaps p e 0) p]\<rparr>" q]) auto
qed

text \<open>A bank set to authorize does, whether it has charged the key before or not.\<close>

lemma authorizing_bank:
  assumes "sim_bank_inv b" "sb_mode b = Always_authorize"
  obtains bref b' where "authorize req b = (Authorized bref, b')"
proof (cases "store b (br_idempotencyKey req)")
  case None
  with assms(2) that show thesis by (simp add: authorize_def charge_def Let_def)
next
  case (Some out)
  with assms(1) have "out = Authorized (''bank_'' @ br_idempotencyKey req)" by (simp add: sim_bank_inv_def)
  with Some that show thesis by (simp add: authorize_def)
qed

definition completes :: "string \<Rightarrow> string \<Rightarrow> string \<Rightarrow> handler_env" where
  "completes e1 e2 ob = \<lparr>claim_env = \<lparr>tx_time = 0, tx_db_now = 0, tx_event = e1, tx_outbox = []\<rparr>,
     call_env = \<lparr>bk_allow_time = 0, bk_record_time = 0\<rparr>,
     settle_env = \<lparr>tx_time = 0, tx_db_now = 0, tx_event = e2, tx_outbox = ob\<rparr>, rnd = 0\<rparr>"

lemma completes_fresh:
  obtains e1 e2 ob where "env_fresh (completes e1 e2 ob) d"
proof -
  obtain e1 where e1: "e1 \<notin> e_id ` set (paymentEvents d)" using fresh_event_id by blast
  have "\<exists>e2. e2 \<notin> insert e1 (e_id ` set (paymentEvents d))" by (rule ex_new_if_finite [OF infinite_UNIV_listI]) simp
  then obtain e2 where e2: "e2 \<notin> insert e1 (e_id ` set (paymentEvents d))" by blast
  have "\<exists>ob. ob \<notin> o_id ` set (outbox d)" by (rule ex_new_if_finite [OF infinite_UNIV_listI]) simp
  then obtain ob where "ob \<notin> o_id ` set (outbox d)" by blast
  with e1 e2 show thesis by (intro that [of e1 e2 ob]) (auto simp: env_fresh_def completes_def)
qed

text \<open>The handler on a job of the payment, with an authorizing bank and a closed breaker.\<close>

lemma completing_run:
  assumes r: "reachable cfg s" and i: "s_breakers s i = new_breaker t0" and j: "jd_paymentId jd = p_id p"
    and p: "p \<in> set (payments (s_db s))" "canTransition (status p) PROCESSING"
    and b: "sb_mode (s_banks s i) = Always_authorize" "timer_ms (sb_latencyMs (s_banks s i)) \<le> timer_ms (BANK_TIMEOUT_MS cfg)"
  obtains en w' q where "process cfg sim_call en jd \<lparr>ws_db = s_db s, ws_breaker = s_breakers s i, ws_bank = s_banks s i,
      ws_jobs = s_queue s, bankAttempts = []\<rparr> = (Inr (), w')"
    "q \<in> set (payments (ws_db w'))" "same_terms p q" "status q = COMPLETED" "p_id p \<in> charged_keys (ws_bank w')"
proof -
  obtain e1 e2 ob where fresh: "env_fresh (completes e1 e2 ob) (s_db s)" by (rule completes_fresh)
  let ?en = "completes e1 e2 ob"
  let ?w = "\<lparr>ws_db = s_db s, ws_breaker = s_breakers s i, ws_bank = s_banks s i, ws_jobs = s_queue s, bankAttempts = []\<rparr>"
  have inv: "sim_bank_inv (s_banks s i)" using reachable_history_ok [OF r] by (simp add: history_ok_def)
  then obtain bref b' where a: "authorize (authorize_request jd) (s_banks s i) = (Authorized bref, b')"
    using authorizing_bank b(1) by blast
  have ch: "p_id p \<in> charged_keys b'" using sim.auth_charged [OF inv a] by (simp add: j [symmetric] authorize_request_def)
  have call: "sim_call (authorize_request jd) (s_banks s i) = (Some (timer_ms (sb_latencyMs (s_banks s i)), Resolves (Authorized bref)), b')"
    by (simp add: sim_call_def a)
  have allow: "cb_allow (breaker_cfg cfg) (bk_allow_time (call_env ?en)) (s_breakers s i) = (True, s_breakers s i)"
    by (simp add: cb_allow_def i new_breaker_def)
  from bank_phase_answer [where call = sim_call, OF allow call settle_call_answer [OF b(2)]]
  obtain br ls where bp: "bank_phase cfg sim_call (call_env ?en) jd (ws_breaker ?w) (ws_bank ?w)
      = (Inr (Complete (JObj [(''bankRef'', JStr bref)])), br, b', ls)" by simp
  have dist: "distinct (map p_id (payments (ws_db ?w)))" using reachable_distinct [OF r] by simp
  have pw: "p \<in> set (payments (ws_db ?w))" "p_id p = jd_paymentId jd" using p(1) j by simp_all
  have fw: "env_fresh ?en (ws_db ?w)" using fresh by simp
  obtain w' where w': "process cfg sim_call ?en jd ?w = (Inr (), w')"
    "payments (ws_db w') = update_where (\<lambda>x. p_id x = p_id p) (final_row COMPLETED 0 \<circ> claim_row 0) (payments (s_db s))"
    "ws_bank w' = b'"
    using process_final [OF dist pw p(2) fw bp] by (simp add: completes_def)
  have "final_row COMPLETED 0 (claim_row 0 p) \<in> set (payments (ws_db w'))"
    using p(1) by (auto simp: w'(2) in_update_where)
  moreover have "same_terms p (final_row COMPLETED 0 (claim_row 0 p))"
    by (simp add: same_terms_def final_row_def claim_row_def)
  ultimately show thesis using w'(1,3) ch by (intro that [of ?en w' "final_row COMPLETED 0 (claim_row 0 p)"]) simp_all
qed

text \<open>One undisturbed run of an idle worker.\<close>

lemma run_completes:
  assumes r: "reachable cfg s" and i: "s_workers s i = Idle" "s_breakers s i = new_breaker t0"
    and j: "j \<in> set (s_queue s)" "jd_paymentId (job_payload j) = p_id p"
    and p: "p \<in> set (payments (s_db s))" "canTransition (status p) PROCESSING"
    and b: "sb_mode (s_banks s i) = Always_authorize" "timer_ms (sb_latencyMs (s_banks s i)) \<le> timer_ms (BANK_TIMEOUT_MS cfg)"
  obtains s' q where "(sys_step cfg)\<^sup>*\<^sup>* s s'" "q \<in> set (payments (s_db s'))" "same_terms p q" "status q = COMPLETED"
    "(i, s_lives s i, p_id p) \<in> s_charged s'" "s_lives s' = s_lives s"
proof -
  from completing_run [OF r i(2) j(2) p b] obtain en w' q where
    w': "process cfg sim_call en (job_payload j) \<lparr>ws_db = s_db s, ws_breaker = s_breakers s i, ws_bank = s_banks s i,
      ws_jobs = s_queue s, bankAttempts = []\<rparr> = (Inr (), w')"
    and q: "q \<in> set (payments (ws_db w'))" "same_terms p q" "status q = COMPLETED"
    and ch: "p_id p \<in> charged_keys (ws_bank w')" .
  define s' where "s' = at_point s i Idle (ws_db w') (ws_breaker w') (ws_bank w') (s_calls s)\<lparr>s_queue := ws_jobs w'\<rparr>"
  have run: "(sys_step cfg)\<^sup>*\<^sup>* s s'" unfolding s'_def by (rule process_steps [OF i(1) j(1) w'])
  have s': "s_db s' = ws_db w'" "s_lives s' = s_lives s" "s_banks s' i = ws_bank w'" by (simp_all add: s'_def)
  from ch have "p_id p \<in> charged_keys (s_banks s' i)" by (simp add: s'(3))
  from history_charged [OF reachable_history_ok [OF steps_reachable [OF run r]] this]
  have "(i, s_lives s i, p_id p) \<in> s_charged s'" by (simp add: s'(2))
  with run s' q show thesis by (intro that [of s' q]) simp_all
qed

lemma can_complete:
  assumes r: "reachable cfg s" and o: "distinct (map o_id (outbox (s_db s)))"
    and p: "p \<in> set (payments (s_db s))" "\<not> is_terminal (status p)"
  obtains s' q where "(sys_step cfg)\<^sup>*\<^sup>* s s'" "q \<in> set (payments (s_db s'))" "same_terms p q" "status q = COMPLETED"
    "(i, s_lives s' i, p_id p) \<in> s_charged s'" "s_lives s i < s_lives s' i"
proof -
  obtain s1 j where 1: "(sys_step cfg)\<^sup>*\<^sup>* s s1" "payments (s_db s1) = payments (s_db s)"
    "j \<in> set (s_queue s1)" "jd_paymentId (job_payload j) = p_id p"
    using job_available [OF r o p(1)] .
  have r1: "reachable cfg s1" using steps_reachable [OF 1(1) r] .
  obtain s2 q where 2: "(sys_step cfg)\<^sup>*\<^sup>* s1 s2" "q \<in> set (payments (s_db s2))" "same_terms p q"
    "canTransition (status q) PROCESSING" "set (s_queue s1) \<subseteq> set (s_queue s2)"
    using claimable [OF r1 _ p(2)] 1(2) p(1) by auto
  let ?s3 = "restart i 0 s2"
  let ?s4 = "?s3\<lparr>s_banks := (s_banks ?s3)(i := setConfig (Some Always_authorize) None (Some 0) (s_banks ?s3 i))\<rparr>"
  have 3: "sys_step cfg s2 ?s3" "sys_step cfg ?s3 ?s4" by (rule step_crash step_chaos)+
  have steps2: "(sys_step cfg)\<^sup>*\<^sup>* s s2" using 1(1) 2(1) by (rule rtranclp_trans)
  then have steps4: "(sys_step cfg)\<^sup>*\<^sup>* s ?s4" using 3 by (meson rtranclp.rtrancl_into_rtrancl)
  have r4: "reachable cfg ?s4" using steps_reachable [OF steps4 r] .
  have i: "s_workers ?s4 i = Idle" "s_breakers ?s4 i = new_breaker 0" by simp_all
  obtain s' q' where "(sys_step cfg)\<^sup>*\<^sup>* ?s4 s'" "q' \<in> set (payments (s_db s'))" "same_terms q q'" "status q' = COMPLETED"
    "(i, s_lives ?s4 i, p_id q) \<in> s_charged s'" "s_lives s' = s_lives ?s4"
    using run_completes [OF r4 i, of j q] 1(3,4) 2 by (auto simp: setConfig_def same_terms_def)
  with steps4 2(3) steps_history [OF steps2 r, of i] show thesis
    by (intro that [of s' q']) (auto simp: same_terms_def less_Suc_eq_le)
qed

end
