(* ===== verification/Stranding.thy ===== *)
theory Stranding
  imports QueuedSystem Retries
begin

text \<open>
  Which unfinished payments can still be completed over the job store of \<open>QueuedSystem\<close>. A payment
  that a worker has claimed once is always recovered: the reaper finds it in PROCESSING or RETRYING
  and adds a job under an id that was never used. A payment still PENDING depends on its first job,
  which the reaper does not replace: when that job has failed, or was added under an id whose job is
  settled, the payment is stranded, and it stays so for ever.
\<close>

subsection \<open>A worker sees a payment PENDING only before its claim\<close>

definition pending_seen :: "system \<Rightarrow> bool" where
  "pending_seen s \<longleftrightarrow> (\<forall>i jd. \<forall>p \<in> set (payments (s_db s)).
     pc_job (s_workers s i) = Some jd \<and> p_id p = jd_paymentId jd \<and> status p = PENDING
     \<longrightarrow> s_workers s i = Claiming jd (Some PENDING))"

lemma moved_not_pending: "moved p q e \<Longrightarrow> status q \<noteq> PENDING"
  by (cases "status p") (auto simp: moved_def)

lemma pending_origin:
  assumes "db_step C d d'" "audit_ok d" "q \<in> set (payments d')" "status q = PENDING"
  shows "q \<in> set (payments d) \<or> p_id q \<notin> p_id ` set (payments d)"
  using db_step_audited [OF assms(1,2)]
proof (elim disjE exE conjE)
  assume a: "audited_step d d'"
  have "distinct (map p_id (payments d'))"
    using audited_step_frame(1) [OF a] audit_ok_distinct [OF assms(2)] by simp
  show ?thesis
  proof (cases "p_id q \<in> p_id ` set (payments d)")
    case True
    then obtain p where p: "p \<in> set (payments d)" "p_id p = p_id q" by auto
    then obtain evs r where r: "r \<in> set (payments d')" "same_terms p r"
      "r = p \<or> (\<exists>e. events_of (p_id p) evs = [e] \<and> moved p r e)"
      using a unfolding audited_step_def by blast
    from r(2) p(2) have "p_id r = p_id q" by (simp add: same_terms_def)
    from distinct_key_unique [OF \<open>distinct (map p_id (payments d'))\<close> r(1) assms(3) this] have "r = q" .
    with r(3) p(1) assms(4) moved_not_pending show ?thesis by blast
  qed simp
next
  fix dto c key h corr env
  assume "submit_env_fresh env d" "d' = submitted_db dto c key h corr env d"
  with assms(3) show ?thesis by (auto simp: submitted_db_def Let_def submit_env_fresh_def)
qed

text \<open>What a worker sees stays true as long as its own step does not change it.\<close>

lemma pending_seen_kept:
  assumes ok: "pending_seen s" "jobs_agree s" "audit_ok (s_db s)" and db: "db_step C (s_db s) (s_db s')"
    and w: "pc_job (s_workers s i) = Some jd" and p: "p \<in> set (payments (s_db s'))" "p_id p = jd_paymentId jd"
      "status p = PENDING"
  shows "p \<in> set (payments (s_db s)) \<and> s_workers s i = Claiming jd (Some PENDING)"
proof -
  have "pc_agrees (s_db s) (s_workers s i)" using ok(2) by (simp add: jobs_agree_def)
  then have "jd_paymentId jd \<in> p_id ` set (payments (s_db s))" by (auto simp: pc_agrees_def w agrees_def image_iff) metis
  with pending_origin [OF db ok(3) p(1,3)] p(2) have "p \<in> set (payments (s_db s))" by simp
  with ok(1) w p(2,3) show ?thesis by (auto simp: pending_seen_def)
qed

lemma claim_read_agrees:
  assumes "distinct (map p_id (payments d))" "p \<in> set (payments d)"
  shows "claim_read (p_id p) d = Some (status p)"
  by (simp add: claim_read_def first_row_select_key [OF assms])

lemma pending_seen_step:
  assumes ok: "pending_seen s" "jobs_agree s" "audit_ok (s_db s)" and db: "db_step C (s_db s) (s_db s')"
    and st: "sys_step cfg s s'"
  shows "pending_seen s'"
  unfolding pending_seen_def
proof (intro allI ballI impI; elim conjE)
  fix k jd p
  assume w: "pc_job (s_workers s' k) = Some jd"
    and p: "p \<in> set (payments (s_db s'))" "p_id p = jd_paymentId jd" "status p = PENDING"
  note kept = pending_seen_kept [OF ok db _ p]
  note audit_ok_distinct [OF ok(3)]
  have other: "s_workers s' k = s_workers s k \<Longrightarrow> s_workers s' k = Claiming jd (Some PENDING)"
    using kept w by simp
  from st show "s_workers s' k = Claiming jd (Some PENDING)"
  proof cases
    case (step_dequeue i j jd1)
    show ?thesis
    proof (cases "k = i")
      case True
      with w step_dequeue(1) have "jd1 = jd" by simp
      moreover have "p \<in> set (payments (s_db s))" using p(1) step_dequeue(1) by simp
      ultimately show ?thesis
        using claim_read_agrees [OF audit_ok_distinct [OF ok(3)]] p(2,3) step_dequeue(1) True by fastforce
    qed (use other step_dequeue(1) in simp)
  next
    case (step_claim i jd1 found env d')
    show ?thesis
    proof (cases "k = i")
      case True
      with w step_claim(1) have jd: "jd1 = jd" by simp
      then have k: "s_workers s k = Claiming jd found" using step_claim(2) True by simp
      with kept [of k] have f: "found = Some PENDING" and m: "p \<in> set (payments (s_db s))" by auto
      have c: "cas_pred (jd_paymentId jd) PENDING p" using p by (simp add: cas_pred_def)
      have "claim_cas jd PENDING env (s_db s) = Inr d'" using step_claim(3) by (simp add: claim_rest_def f jd)
      from claim_cas_Inr [OF this] m c
      have "payments d' = update_where (cas_pred (jd_paymentId jd) PENDING) (claim_row (tx_time env)) (payments (s_db s))"
        by auto
      with p step_claim(1) c show ?thesis by (auto simp: in_update_where)
    qed (use other step_claim(1) in simp)
  next
    case (step_refused i jd1 now br)
    then show ?thesis using kept [of k] w other by (cases "k = i") auto
  next
    case (step_call i jd1 now br)
    then show ?thesis using kept [of k] w other by (cases "k = i") auto
  next
    case (step_answer i jd1 out b' dis br now)
    then show ?thesis using kept [of k] w other by (cases "k = i") auto
  next
    case (step_timeout i jd1 br now)
    then show ?thesis using kept [of k] w other by (cases "k = i") auto
  next
    case (step_settle i jd1 dis env r d' adds adds')
    then show ?thesis using w other by (cases "k = i") auto
  next
    case (step_throw i)
    then show ?thesis using w other by (cases "k = i") auto
  next
    case (step_crash i now)
    then show ?thesis using w other by (cases "k = i") auto
  qed (use other in simp_all)
qed

lemma reachable_pending_seen: "reachable cfg s \<Longrightarrow> pending_seen s"
proof (induction rule: reachable.induct)
  case (reach_init t0)
  then show ?case by (simp add: pending_seen_def initial_def)
next
  case (reach_step s s')
  then show ?case
    using pending_seen_step reachable_jobs_agree reachable_ledger_ok reachable_db_step by (meson ledger_ok_def)
qed

subsection \<open>Stranded payments\<close>

definition job_of :: "string \<Rightarrow> job_data \<Rightarrow> bool" where
  "job_of i jd \<longleftrightarrow> jd_paymentId jd = i"

text \<open>
  PENDING, with no row the relay could turn into a job, no job that could still be delivered and no
  worker at work on it; \<open>mx\<close> is how often the queue revives a stalled job.
\<close>

definition stranded :: "'q payment_store \<Rightarrow> nat \<Rightarrow> 'q queued \<Rightarrow> payment \<Rightarrow> bool" where
  "stranded Q mx l p \<longleftrightarrow> p \<in> set (payments (q_db l)) \<and> status p = PENDING
     \<and> (\<forall>r \<in> set (outbox (q_db l)). relay_pending r \<and> job_of (p_id p) (payload r) \<longrightarrow> q_find Q l (o_id r) \<noteq> None)
     \<and> (\<forall>k e. q_find Q l k = Some e \<and> job_of (p_id p) (job_payload (en_job e)) \<longrightarrow> \<not> live_entry mx e)
     \<and> (\<forall>i jd. pc_job (s_workers (q_sys l) i) = Some jd \<longrightarrow> \<not> job_of (p_id p) jd)"

definition completable :: "'q payment_store \<Rightarrow> processor_config \<Rightarrow> 'q queued \<Rightarrow> payment \<Rightarrow> bool" where
  "completable Q cfg l p \<longleftrightarrow> (\<exists>l' q. (live_step Q cfg)\<^sup>*\<^sup>* l l'
     \<and> q \<in> set (payments (q_db l')) \<and> same_terms p q \<and> status q = COMPLETED)"

lemma completable_steps:
  assumes "(live_step Q cfg)\<^sup>*\<^sup>* l l1" "same_terms p q" "completable Q cfg l1 q"
  shows "completable Q cfg l p"
  using assms unfolding completable_def same_terms_def by (metis (full_types) rtranclp_trans)

text \<open>A transaction that leaves a payment alone and adds no row the relay would publish for it.\<close>

definition leaves_alone :: "payment \<Rightarrow> db \<Rightarrow> db \<Rightarrow> bool" where
  "leaves_alone p d d' \<longleftrightarrow> p \<in> set (payments d')
     \<and> (\<forall>r \<in> set (outbox d'). relay_pending r \<and> job_of (p_id p) (payload r) \<longrightarrow> r \<in> set (outbox d))"

lemma update_keeps: "x \<in> set t \<Longrightarrow> \<not> P x \<Longrightarrow> x \<in> set (update_where P f t)"
  by (auto simp: in_update_where)

lemma leaves_alone_refl: "p \<in> set (payments d) \<Longrightarrow> leaves_alone p d d"
  by (simp add: leaves_alone_def)

lemma submit_leaves_alone:
  assumes "submit su d = (r, d')" "p \<in> set (payments d)"
  shows "leaves_alone p d d'"
  using assms(1) unfolding submit_def
  by (drule_tac insert_txn_atomic)
    (use assms(2) in \<open>auto simp: leaves_alone_def submitted_db_def Let_def submit_env_fresh_def job_of_def
      submitted_outbox_def submitted_payload_def\<close>)

lemma relay_leaves_alone:
  assumes "relay_poll_once locked refuses fails now d = (r, d', adds)" "p \<in> set (payments d)"
  shows "leaves_alone p d d'"
proof -
  have "outbox d' = outbox d \<or> outbox d' = poll_mark relay_pending (relay_mark now) locked (outbox d)"
    using relay_poll_db [OF assms(1)] by (auto split: sum.splits)
  then have "x \<in> set (outbox d)" if "x \<in> set (outbox d')" "relay_pending x" for x
    using that by (auto simp: poll_mark_def mark_rows_def in_update_where relay_mark_def relay_pending_def)
  then show ?thesis using relay_poll_frame(1) [OF assms(1)] assms(2) by (simp add: leaves_alone_def)
qed

lemma reap_leaves_alone:
  assumes "reap_once dl locked env d = (r, d', adds)" "distinct (map p_id (payments d))"
    and p: "p \<in> set (payments d)" "status p = PENDING"
  shows "leaves_alone p d d' \<and> (\<forall>j \<in> set adds. \<not> job_of (p_id p) (job_payload j))"
proof (cases "reap_txn dl locked env d")
  case (Inl e)
  then show ?thesis using assms(1) p(1) by (simp add: reap_once_def leaves_alone_refl)
next
  case (Inr x)
  then have x: "reap_txn dl locked env d = Inr (fst x, d')" "adds = map (reap_job env) (fst x)"
    using assms(1) by (cases x; simp add: reap_once_def)+
  have other: "p_id q \<noteq> p_id p" if "q \<in> set (fst x)" for q
  proof
    assume "p_id q = p_id p"
    have "q \<in> set (claim_stuck dl locked (re_cutoff_now env) (payments d))" using that reap_txn_Inr(1) [OF x(1)] by simp
    from claim_stuck_in [OF this] have "q \<in> set (payments d)" "status q \<noteq> PENDING" by (auto simp: is_stuck_def)
    with distinct_key_unique [OF assms(2) _ p(1) \<open>p_id q = p_id p\<close>] p(2) show False by simp
  qed
  have "p \<in> set (payments d')"
    using p(1) by (subst reap_txn_Inr(2) [OF x(1)]) (auto intro!: update_keeps dest: other)
  moreover have "outbox d' = outbox d" by (subst reap_txn_Inr(2) [OF x(1)]) simp
  ultimately show ?thesis using other by (auto simp: leaves_alone_def x(2) job_of_def reap_job_def)
qed

lemma claim_leaves_alone:
  assumes "claim_rest jd found env d = Inr d'" "p \<in> set (payments d)" "\<not> job_of (p_id p) jd"
  shows "leaves_alone p d d'"
  using assms
  by (auto simp: claim_rest_def leaves_alone_def job_of_def cas_pred_def
      split: option.splits if_splits intro!: update_keeps dest!: claim_cas_Inr)

lemma settle_leaves_alone:
  assumes "settle cfg env jd dis d = (r, d', adds)" "p \<in> set (payments d)" "\<not> job_of (p_id p) jd"
  shows "leaves_alone p d d'"
proof (cases "is_retry dis")
  case True
  then obtain why where dis: "dis = Retry why" by (cases dis) auto
  then consider "d' = d" | sch where "retry_txn (MAX_RETRIES cfg) jd why (settle_env env) d = Inr (sch, d')"
    using assms(1) by (auto simp: settle_def split: sum.splits prod.splits)
  then show ?thesis
    by cases (use assms(2,3) in \<open>auto simp: leaves_alone_def job_of_def cas_pred_def intro!: update_keeps dest!: retry_txn_Inr\<close>)
next
  case False
  then have "final_txn jd dis (settle_env env) d = Inr d' \<or> d' = d"
    using assms(1) by (cases dis) (auto simp: settle_def split: sum.splits)
  then show ?thesis
    using assms(2,3)
    by (auto simp: leaves_alone_def job_of_def cas_pred_def final_outbox_def relay_pending_def
        intro!: update_keeps dest!: final_txn_Inr)
qed

text \<open>A quiet step is no step of a worker at work on the payment.\<close>

lemma sys_step_leaves_alone:
  assumes "sys_step cfg s s'" "distinct (map p_id (payments (s_db s)))"
    and p: "p \<in> set (payments (s_db s))" "status p = PENDING"
    and w: "\<And>i jd. pc_job (s_workers s i) = Some jd \<Longrightarrow> \<not> job_of (p_id p) jd"
  shows "leaves_alone p (s_db s) (s_db s')"
  using assms(1)
proof cases
  case (step_submit su r d')
  then show ?thesis using submit_leaves_alone p(1) by simp
next
  case (step_relay locked refuses fails now r d' adds)
  then show ?thesis using relay_leaves_alone p(1) by simp
next
  case (step_reap dl locked env r d' adds adds')
  then show ?thesis using reap_leaves_alone assms(2) p by simp
next
  case (step_claim i jd found env d')
  then show ?thesis using claim_leaves_alone [OF step_claim(3) p(1)] w [of i jd] by simp
next
  case (step_settle i jd dis env r d' adds adds')
  then show ?thesis using settle_leaves_alone [OF step_settle(3) p(1)] w [of i jd] by simp
qed (use p in \<open>simp_all add: leaves_alone_refl set_breaker_def\<close>)

lemma settle_adds_job:
  assumes "settle cfg env jd dis d = (r, d', adds)" "\<not> job_of i jd" "j \<in> set adds"
  shows "\<not> job_of i (job_payload j)"
  using settle_jobs [OF assms(1,3)] assms(2) by simp

text \<open>What an operation of the store may do to a stranded payment's jobs: keep them, none of them revived.\<close>

definition no_revival :: "nat \<Rightarrow> job_data job_map \<Rightarrow> job_data job_map \<Rightarrow> bool" where
  "no_revival mx m m' \<longleftrightarrow> (\<forall>k. (m k \<noteq> None \<longrightarrow> m' k \<noteq> None)
     \<and> (\<forall>e'. m' k = Some e' \<longrightarrow> (\<exists>e. m k = Some e \<and> en_job e' = en_job e \<and> (live_entry mx e' \<longrightarrow> live_entry mx e))))"

lemma no_revival_refl [simp]: "no_revival mx m m"
  by (simp add: no_revival_def)

lemma no_revival_ops:
  "no_revival mx m (map_take i k m)"
  "no_revival mx m (map_finish (queue_options PAYMENTS_QUEUE) i k ok m)"
  "no_revival mx m (map_stall (queue_options PAYMENTS_QUEUE) mx k m)"
  by (auto simp: no_revival_def job_map_defs live_entry_def queue_options_simps split: option.splits)

text \<open>The jobs of a batch that the store accepts.\<close>

lemma accepted_job:
  "fold map_add_job js m k = Some e \<Longrightarrow> m k = None \<Longrightarrow> \<exists>j \<in> set js. job_id j = k \<and> en_job e = j"
  using fold_add_cases [of js m k e] by (auto simp: new_entry_def)

context payments_queue
begin

lemma stranded_adds:
  assumes str: "stranded Q mx l p" and alone: "leaves_alone p (q_db l) d"
    and no: "\<And>j. j \<in> set adds \<Longrightarrow> job_of (p_id p) (job_payload j) \<Longrightarrow> q_find Q l (job_id j) \<noteq> None"
  shows "stranded Q mx (commit_adds Q d adds l) p"
proof -
  let ?m = "q_find Q l" and ?m' = "fold map_add_job adds (q_find Q l)"
  have keep: "?m k = Some e \<Longrightarrow> ?m' k = Some e" for k e by (rule fold_add_Some)
  have "\<not> live_entry mx e" if "?m' k = Some e" "job_of (p_id p) (job_payload (en_job e))" for k e
  proof (cases "?m k")
    case None
    with accepted_job [OF that(1)] no that(2) show ?thesis by fastforce
  next
    case (Some e0)
    with keep that have "e0 = e" by simp
    with Some str that(2) show ?thesis by (auto simp: stranded_def)
  qed
  moreover have "\<exists>e. ?m' (o_id r) = Some e"
    if "r \<in> set (outbox d)" "relay_pending r" "job_of (p_id p) (payload r)" for r
  proof -
    have "r \<in> set (outbox (q_db l))" using alone that by (simp add: leaves_alone_def)
    then have "\<exists>e. ?m (o_id r) = Some e" using str that(2,3) by (auto simp: stranded_def)
    with keep show ?thesis by blast
  qed
  moreover have "p \<in> set (payments d)" using alone by (simp add: leaves_alone_def)
  ultimately show ?thesis using str unfolding stranded_def by (simp add: find_adds) blast
qed

lemma stranded_store:
  assumes "stranded Q mx l p" "no_revival mx (q_find Q l) (q_find Q l')"
    and "leaves_alone p (q_db l) (q_db l')"
    and "\<And>i jd. pc_job (s_workers (q_sys l') i) = Some jd \<Longrightarrow> \<not> job_of (p_id p) jd"
  shows "stranded Q mx l' p"
  unfolding stranded_def
proof (intro conjI allI ballI impI; (elim conjE)?)
  fix r assume r: "r \<in> set (outbox (q_db l'))" "relay_pending r" "job_of (p_id p) (payload r)"
  then have "q_find Q l (o_id r) \<noteq> None" using assms(1,3) by (simp add: stranded_def leaves_alone_def)
  then show "q_find Q l' (o_id r) \<noteq> None" using assms(2) by (auto simp: no_revival_def)
next
  fix k e assume "q_find Q l' k = Some e" "job_of (p_id p) (job_payload (en_job e))"
  with assms(2) obtain e0 where "q_find Q l k = Some e0" "en_job e = en_job e0" "live_entry mx e \<longrightarrow> live_entry mx e0"
    unfolding no_revival_def by blast
  with \<open>job_of (p_id p) (job_payload (en_job e))\<close> assms(1) show "\<not> live_entry mx e" by (auto simp: stranded_def)
qed (use assms in \<open>auto simp: stranded_def leaves_alone_def\<close>)

lemma stranded_finish:
  assumes "stranded Q mx l p"
  shows "stranded Q mx (finish_job Q i k ok l) p"
  by (rule stranded_store [OF assms])
    (use assms in \<open>auto simp: find_finish no_revival_ops stranded_def leaves_alone_refl split: if_splits\<close>)

lemma stranded_parts:
  assumes "stranded Q mx l p"
  shows "p \<in> set (payments (q_db l))" "status p = PENDING"
    and "pc_job (s_workers (q_sys l) i) = Some jd \<Longrightarrow> \<not> job_of (p_id p) jd"
  using assms by (auto simp: stranded_def)

lemma relay_adds_blocked:
  assumes "stranded Q mx l p" "relay_poll_once locked refuses fails now (q_db l) = (r, d', adds)"
    and "j \<in> set adds" "job_of (p_id p) (job_payload j)"
  shows "q_find Q l (job_id j) \<noteq> None"
proof -
  obtain x where x: "x \<in> set (claim_rows relay_pending locked (outbox (q_db l)))" "j = relay_job x"
    using assms(2,3) by (auto simp: relay_poll_once_def Let_def split: if_splits)
  from claim_rows_in [OF x(1)] assms(1,4) show ?thesis
    by (simp add: stranded_def x(2) relay_job_def)
qed

lemma stranded_step:
  assumes str: "stranded Q mx l p" and dist: "distinct (map p_id (payments (q_db l)))" and st: "live_step Q cfg l l'"
  shows "stranded Q mx l' p"
  using st
proof cases
  case (live_quiet s')
  then have "sys_step cfg (q_sys l) s'" by (simp add: quiet_step_def)
  then have "leaves_alone p (q_db l) (s_db s')"
    by (rule sys_step_leaves_alone [OF _ dist stranded_parts(1,2) [OF str]]) (rule stranded_parts(3) [OF str])
  then show ?thesis
    using stranded_parts(3) [OF str] live_quiet by (intro stranded_store [OF str]) (auto simp: quiet_step_def)
next
  case (live_relay locked refuses fails now r d' adds)
  show ?thesis unfolding live_relay(1)
    by (rule stranded_adds [OF str relay_leaves_alone [OF live_relay(2) stranded_parts(1) [OF str]]
          relay_adds_blocked [OF str live_relay(2)]])
next
  case (live_reap dl locked env r d' adds adds')
  note reap_leaves_alone [OF live_reap(2) dist stranded_parts(1,2) [OF str]]
  with live_reap(3) show ?thesis unfolding live_reap(1) by (intro stranded_adds [OF str]) auto
next
  case (live_dequeue i k e jd)
  have "live_entry mx e" using live_dequeue(4) by (simp add: live_entry_def)
  then have "\<not> job_of (p_id p) jd" using str live_dequeue(3,5) by (auto simp: stranded_def)
  then show ?thesis using stranded_parts [OF str] live_dequeue(1)
    by (intro stranded_store [OF str]) (auto simp: find_take no_revival_ops leaves_alone_refl split: if_splits)
next
  case (live_settle i jd dis k env d' adds)
  have n: "\<not> job_of (p_id p) jd" using stranded_parts(3) [OF str, of i] live_settle(2) by simp
  have "stranded Q mx (commit_adds Q d' adds l) p"
    using settle_leaves_alone [OF live_settle(4) stranded_parts(1) [OF str] n] settle_adds_job [OF live_settle(4) n]
    by (intro stranded_adds [OF str]) auto
  then show ?thesis unfolding live_settle(1) by (rule stranded_finish)
next
  case (live_settle_throws i jd dis k env r d' adds)
  have n: "\<not> job_of (p_id p) jd" using stranded_parts(3) [OF str, of i] live_settle_throws(2) by simp
  have "stranded Q mx (commit_adds Q d' [] l) p"
    using settle_leaves_alone [OF live_settle_throws(4) stranded_parts(1) [OF str] n]
    by (intro stranded_adds [OF str]) auto
  then show ?thesis unfolding live_settle_throws(1) by (rule stranded_finish)
next
  case (live_throw i k)
  then show ?thesis using stranded_finish [OF str] by simp
next
  case (live_crash i)
  then show ?thesis using stranded_parts [OF str]
    by (intro stranded_store [OF str]) (auto simp: leaves_alone_refl split: if_splits)
next
  case (live_stall k)
  then show ?thesis using stranded_parts [OF str]
    by (intro stranded_store [OF str]) (auto simp: find_stall no_revival_ops leaves_alone_refl)
qed

lemma live_distinct: "live_reachable Q cfg l \<Longrightarrow> distinct (map p_id (payments (q_db l)))"
  using reachable_distinct [OF live_sys_reachable] .

lemma stranded_steps:
  assumes "(live_step Q cfg)\<^sup>*\<^sup>* l l'" "live_reachable Q cfg l" "stranded Q mx l p"
  shows "stranded Q mx l' p"
  using assms(1)
proof (induction rule: rtranclp_induct)
  case (step l1 l2)
  then show ?case
    using stranded_step live_distinct [OF steps_live_reachable [OF step.hyps(1) assms(2)]] by blast
qed (use assms(3) in simp)

text \<open>The handler on a queued job, undisturbed, is a run of the steps.\<close>

lemma live_process:
  assumes idle: "s_workers (q_sys l) i = Idle" and e: "q_find Q l k = Some e" "en_state e = Queued"
    and p: "process cfg sim_call env (job_payload (en_job e))
      \<lparr>ws_db = q_db l, ws_breaker = s_breakers (q_sys l) i, ws_bank = s_banks (q_sys l) i, ws_jobs = s_queue (q_sys l),
       bankAttempts = []\<rparr> = (Inr (), w')"
  obtains l' where "(live_step Q cfg)\<^sup>*\<^sup>* l l'" "q_db l' = ws_db w'" "s_banks (q_sys l') i = ws_bank w'"
proof -
  define s where "s = q_sys l"
  define jd where "jd = job_payload (en_job e)"
  define found where "found = claim_read (jd_paymentId jd) (s_db s)"
  let ?at = "\<lambda>pc d br b. at_point s i pc d br b (s_calls s)"
  note start = at_point_start [OF idle [folded s_def]]
  obtain d1 where d1: "claim_txn jd (claim_env env) (s_db s) = Inr d1"
    using p by (cases "claim_txn jd (claim_env env) (s_db s)") (auto simp: process_def jd_def s_def)
  obtain r1 br b l1 where bp: "bank_phase cfg sim_call (call_env env) jd (s_breakers s i) (s_banks s i) = (r1, br, b, l1)"
    by (cases "bank_phase cfg sim_call (call_env env) jd (s_breakers s i) (s_banks s i)")
  from bank_phase_quiet [OF bp, of d1 "s_calls s"] obtain dis where dis: "r1 = Inr dis"
    and run: "(quiet_step cfg)\<^sup>*\<^sup>* (?at (Claimed jd) d1 (s_breakers s i) (s_banks s i)) (?at (Settling jd dis) d1 br b)"
    by blast
  obtain r2 d2 adds where st: "settle cfg env jd dis d1 = (r2, d2, adds)"
    by (cases "settle cfg env jd dis d1")
  have w': "r2 = Inr ()" "ws_db w' = d2" "ws_bank w' = b"
    using p by (auto simp: process_def jd_def [symmetric] s_def [symmetric] d1 bp dis st Let_def)
  define l1 where "l1 = l\<lparr>q_sys := ?at (Claiming jd found) (s_db s) (s_breakers s i) (s_banks s i),
      q_store := js_take Q i k (q_store l), q_held := (q_held l)(i \<mapsto> k)\<rparr>"
  define l2 where "l2 = l1\<lparr>q_sys := ?at (Claimed jd) d1 (s_breakers s i) (s_banks s i)\<rparr>"
  define l3 where "l3 = l2\<lparr>q_sys := ?at (Settling jd dis) d1 br b\<rparr>"
  define l4 where "l4 = finish_job Q i k True (commit_adds Q d2 adds l3)"
  have "set_worker i (Claiming jd found) s = ?at (Claiming jd found) (s_db s) (s_breakers s i) (s_banks s i)"
    using start by (metis at_point_updates(1))
  then have 1: "live_step Q cfg l l1"
    using live_dequeue [OF idle e jd_def, of cfg] by (simp add: found_def s_def l1_def)
  have "sys_step cfg (?at (Claiming jd found) (s_db s) (s_breakers s i) (s_banks s i))
      (?at (Claimed jd) d1 (s_breakers s i) (s_banks s i))"
    using step_claim [of "?at (Claiming jd found) (s_db s) (s_breakers s i) (s_banks s i)" i jd found "claim_env env" d1 cfg]
      d1 by (simp add: at_point_updates claim_txn_def found_def)
  then have "quiet_step cfg (q_sys l1) (?at (Claimed jd) d1 (s_breakers s i) (s_banks s i))"
    unfolding l1_def by (simp add: quiet_at_point)
  then have 2: "live_step Q cfg l1 l2" unfolding l2_def by (rule live_quiet)
  have 3: "(live_step Q cfg)\<^sup>*\<^sup>* l2 l3" unfolding l3_def by (rule quiet_steps_live) (simp add: l2_def run)
  have 4: "live_step Q cfg l3 l4" unfolding l4_def
    by (rule live_settle [where dis = dis]) (use st w'(1) in \<open>simp_all add: l3_def l2_def l1_def\<close>)
  from 1 2 3 4 have "(live_step Q cfg)\<^sup>*\<^sup>* l l4"
    by (meson converse_rtranclp_into_rtranclp rtranclp.rtrancl_into_rtrancl)
  moreover have "q_db l4 = d2" "s_banks (q_sys l4) i = b" by (simp_all add: l4_def l3_def)
  ultimately show thesis using w' by (intro that [of l4]) simp_all
qed

subsection \<open>Every other unfinished payment can be completed\<close>

text \<open>From a queued job: the bank set to authorize, and a worker started afresh.\<close>

lemma completable_queued:
  assumes r: "live_reachable Q cfg l"
    and e: "q_find Q l k = Some e" "en_state e = Queued" "jd_paymentId (job_payload (en_job e)) = p_id p"
    and p: "p \<in> set (payments (q_db l))" "canTransition (status p) PROCESSING"
  shows "completable Q cfg l p"
proof -
  have r0: "reachable cfg (q_sys l)" using live_sys_reachable [OF r] .
  obtain i t0 where i0: "s_workers (q_sys l) i = Idle" "s_breakers (q_sys l) i = new_breaker t0" using fresh_worker [OF r0] .
  let ?s1 = "(q_sys l)\<lparr>s_banks := (s_banks (q_sys l))(i := setConfig (Some Always_authorize) None (Some 0) (s_banks (q_sys l) i))\<rparr>"
  let ?l1 = "l\<lparr>q_sys := ?s1\<rparr>"
  have "quiet_step cfg (q_sys l) ?s1" by (simp add: quiet_step_def sys_step.step_chaos)
  then have 1: "live_step Q cfg l ?l1" by (rule live_quiet)
  then have r1: "reachable cfg ?s1" using live_sys_reachable [OF live_next [OF r 1]] by simp
  have i: "s_workers ?s1 i = Idle" "s_breakers ?s1 i = new_breaker t0" using i0 by simp_all
  have b: "sb_mode (s_banks ?s1 i) = Always_authorize" "timer_ms (sb_latencyMs (s_banks ?s1 i)) \<le> timer_ms (BANK_TIMEOUT_MS cfg)"
    by (simp_all add: setConfig_def)
  from p(1) have p1: "p \<in> set (payments (s_db ?s1))" by simp
  from completing_run [OF r1 i(2) e(3) p1 p(2) b] obtain en w' q where
    w': "process cfg sim_call en (job_payload (en_job e)) \<lparr>ws_db = s_db ?s1, ws_breaker = s_breakers ?s1 i,
      ws_bank = s_banks ?s1 i, ws_jobs = s_queue ?s1, bankAttempts = []\<rparr> = (Inr (), w')"
    and q: "q \<in> set (payments (ws_db w'))" "same_terms p q" "status q = COMPLETED" .
  have "s_workers (q_sys ?l1) i = Idle" "q_find Q ?l1 k = Some e" using i(1) e(1) by simp_all
  from live_process [OF this(1) this(2) e(2), of cfg en w'] w' obtain l' where
    "(live_step Q cfg)\<^sup>*\<^sup>* ?l1 l'" "q_db l' = ws_db w'" by auto
  with 1 q show ?thesis unfolding completable_def by (metis converse_rtranclp_into_rtranclp)
qed

text \<open>A payment claimed once: the reaper re-drives it under an id the store has never held.\<close>

lemma completable_claimed:
  assumes r: "live_reachable Q cfg l"
    and p: "p \<in> set (payments (q_db l))" "status p \<in> {PROCESSING, RETRYING}"
  shows "completable Q cfg l p"
proof -
  have "inj (\<lambda>n. p_id p @ '':reap:'' @ nat_str n)" by (rule injI) (simp add: inj_nat_str)
  then obtain n where n: "q_find Q l (p_id p @ '':reap:'' @ nat_str n) = None" using fresh_id by blast
  from reap_one [OF live_distinct [OF r] p, of n] obtain e d' q where
    reap: "reap_once 0 (- {p_id p}) (reaps p e n) (q_db l) = (Inr (), d', [reap_job (reaps p e n) p])"
    and q: "q \<in> set (payments d')" "same_terms p q" "status q = RETRYING" .
  let ?j = "reap_job (reaps p e n) p"
  have 1: "live_step Q cfg l (commit_adds Q d' [?j] l)" by (rule live_reap [OF reap]) simp
  have id: "job_id ?j = p_id p @ '':reap:'' @ nat_str n" by (simp add: reap_job_def reaps_def)
  have "q_find Q (commit_adds Q d' [?j] l) (job_id ?j) = Some (new_entry ?j)"
    using n by (simp add: find_add map_add_job_def id)
  moreover have "jd_paymentId (job_payload (en_job (new_entry ?j))) = p_id q"
    using q(2) by (simp add: new_entry_def reap_job_def same_terms_def)
  ultimately have "completable Q cfg (commit_adds Q d' [?j] l) q"
    using q(1,3) by (intro completable_queued [OF live_next [OF r 1], where e = "new_entry ?j" and k = "job_id ?j"])
      (simp_all add: new_entry_def to_PROCESSING)
  with 1 q(2) show ?thesis by (intro completable_steps [of Q cfg l]) auto
qed

text \<open>A worker about to claim: its claim succeeds, and then the payment is claimed.\<close>

lemma completable_claiming:
  assumes r: "live_reachable Q cfg l"
    and p: "p \<in> set (payments (q_db l))" "status p = PENDING"
    and w: "pc_job (s_workers (q_sys l) i) = Some jd" "jd_paymentId jd = p_id p"
  shows "completable Q cfg l p"
proof -
  have pc: "s_workers (q_sys l) i = Claiming jd (Some PENDING)"
    using reachable_pending_seen [OF live_sys_reachable [OF r]] p w unfolding pending_seen_def by metis
  obtain e where e: "e \<notin> e_id ` set (paymentEvents (q_db l))" using fresh_event_id by blast
  define te where "te = \<lparr>tx_time = 0, tx_db_now = 0, tx_event = e, tx_outbox = []\<rparr>"
  let ?c = "cas_pred (jd_paymentId jd) PENDING"
  have c: "?c p" using p(2) w(2) by (simp add: cas_pred_def)
  let ?pays = "update_where ?c (claim_row 0) (payments (q_db l))"
  have m: "claim_row 0 p \<in> set ?pays" using p(1) c by (auto simp: in_update_where)
  then have "jd_paymentId jd \<in> p_id ` set ?pays" using w(2) by (intro image_eqI [where x = "claim_row 0 p"]) simp_all
  moreover have "returning ?c (claim_row 0) (payments (q_db l)) \<noteq> []"
    using p(1) c by (auto simp: returning_Nil)
  ultimately have "\<exists>d'. claim_rest jd (Some PENDING) te (q_db l) = Inr d' \<and> payments d' = ?pays"
    using e by (simp add: claim_rest_def claim_cas_def Let_def te_def insert_event_def insert_row_def claim_event_def)
  then obtain d' where d': "claim_rest jd (Some PENDING) te (q_db l) = Inr d'" "payments d' = ?pays" by blast
  let ?s1 = "set_worker i (Claimed jd) ((q_sys l)\<lparr>s_db := d'\<rparr>)"
  have "quiet_step cfg (q_sys l) ?s1"
    using sys_step.step_claim [OF pc d'(1), of cfg] pc by (simp add: quiet_step_def)
  then have 1: "live_step Q cfg l (l\<lparr>q_sys := ?s1\<rparr>)" by (rule live_quiet)
  have "completable Q cfg (l\<lparr>q_sys := ?s1\<rparr>) (claim_row 0 p)"
    using m d'(2) by (intro completable_claimed [OF live_next [OF r 1]]) simp_all
  with 1 show ?thesis by (intro completable_steps [of Q cfg l _ p "claim_row 0 p"]) auto
qed

lemma completable_live:
  assumes r: "live_reachable Q cfg l"
    and p: "p \<in> set (payments (q_db l))" "status p = PENDING"
    and e: "q_find Q l k = Some e" "jd_paymentId (job_payload (en_job e)) = p_id p" "live_entry mx e"
  shows "completable Q cfg l p"
proof (cases "en_state e = Queued")
  case True
  then show ?thesis using completable_queued [OF r e(1) _ e(2) p(1)] p(2) by (simp add: to_PROCESSING)
next
  case False
  then have a: "is_active (en_state e)" "en_stalls e < mx" using e(3) by (auto simp: live_entry_def)
  let ?l1 = "l\<lparr>q_store := js_stall Q k (q_store l)\<rparr>" and ?e = "e\<lparr>en_state := Queued, en_stalls := en_stalls e + 1\<rparr>"
  have 1: "live_step Q cfg l ?l1" by (rule live_stall)
  have "q_find Q ?l1 k = Some ?e" using a e(1) by (simp add: find_stall map_stall_def)
  then have "completable Q cfg ?l1 p"
    using e(2) p by (intro completable_queued [OF live_next [OF r 1], where e = ?e and k = k]) (simp_all add: to_PROCESSING)
  with 1 show ?thesis by (intro completable_steps [of Q cfg l _ p p]) (auto simp: same_terms_def)
qed

lemma completable_row:
  assumes r: "live_reachable Q cfg l"
    and o: "distinct (map o_id (outbox (q_db l)))" and p: "p \<in> set (payments (q_db l))" "status p = PENDING"
    and x: "x \<in> set (outbox (q_db l))" "relay_pending x" "jd_paymentId (payload x) = p_id p" "q_find Q l (o_id x) = None"
  shows "completable Q cfg l p"
proof -
  obtain rr d' where poll: "relay_poll_once (- {o_id x}) (\<lambda>_. False) False 0 (q_db l) = (rr, d', [relay_job x])"
    and pay: "payments d' = payments (q_db l)" by (rule relay_one [OF o x(1,2)])
  let ?l1 = "commit_adds Q d' [relay_job x] l"
  have 1: "live_step Q cfg l ?l1" by (rule live_relay [OF poll])
  have "q_find Q ?l1 (o_id x) = Some (new_entry (relay_job x))"
    using x(4) by (simp add: find_add map_add_job_def relay_job_def)
  then have "completable Q cfg ?l1 p"
    using x(3) p pay
    by (intro completable_queued [OF live_next [OF r 1], where e = "new_entry (relay_job x)" and k = "o_id x"])
      (simp_all add: new_entry_def relay_job_def to_PROCESSING)
  with 1 show ?thesis by (intro completable_steps [of Q cfg l _ p p]) (auto simp: same_terms_def)
qed

lemma completable_iff:
  assumes r: "live_reachable Q cfg l"
    and o: "distinct (map o_id (outbox (q_db l)))" and p: "p \<in> set (payments (q_db l))" "\<not> is_terminal (status p)"
  shows "completable Q cfg l p \<longleftrightarrow> \<not> stranded Q mx l p"
proof
  assume "completable Q cfg l p"
  then obtain l' q where q: "(live_step Q cfg)\<^sup>*\<^sup>* l l'" "q \<in> set (payments (q_db l'))" "same_terms p q"
    "status q = COMPLETED" by (auto simp: completable_def)
  show "\<not> stranded Q mx l p"
  proof
    assume "stranded Q mx l p"
    from stranded_steps [OF q(1) r this] have "p \<in> set (payments (q_db l'))" "status p = PENDING"
      by (simp_all add: stranded_def)
    moreover from this have "q = p"
      using distinct_key_unique [OF live_distinct [OF steps_live_reachable [OF q(1) r]] q(2)] q(3)
      by (simp add: same_terms_def)
    ultimately show False using q(4) by simp
  qed
next
  assume n: "\<not> stranded Q mx l p"
  show "completable Q cfg l p"
  proof (cases "status p = PENDING")
    case True
    with n p(1) show ?thesis
      using completable_row [OF r o p(1) True] completable_live [OF r p(1) True]
        completable_claiming [OF r p(1) True]
      unfolding stranded_def job_of_def by blast
  next
    case False
    then have "status p \<in> {PROCESSING, RETRYING}" using p(2) by (cases "status p") (simp_all add: is_terminal_def)
    then show ?thesis by (rule completable_claimed [OF r p(1)])
  qed
qed

text \<open>The id of a retry is new to the store: retries have ids of their own, and no other job has one.\<close>

lemma retry_accepted:
  assumes r: "live_reachable Q cfg l" and w: "s_workers (q_sys l) i = Settling jd dis"
    and s: "settle cfg env jd dis (q_db l) = (Inr (), d', [j])"
    and other: "\<forall>x \<in> set (s_queue (q_sys l)). \<not> is_retry_job x \<longrightarrow> job_id x \<noteq> job_id j"
  shows "q_find Q l (job_id j) = None \<and> q_find Q (commit_adds Q d' [j] l) (job_id j) = Some (new_entry j)"
proof -
  have "q_find Q l (job_id j) = None"
  proof (rule ccontr)
    assume "q_find Q l (job_id j) \<noteq> None"
    then obtain e where e: "q_find Q l (job_id j) = Some e" by auto
    have x: "en_job e \<in> set (s_queue (q_sys l))" "job_id (en_job e) = job_id j"
      using live_store_ok [OF r] holds_onlyD [of _ "q_find Q l", OF _ e] by (auto simp: store_ok_def)
    with other have xr: "is_retry_job (en_job e)" by blast
    let ?s' = "set_worker i Idle ((q_sys l)\<lparr>s_db := d', s_queue := s_queue (q_sys l) @ [j]\<rparr>)"
    have "sys_step cfg (q_sys l) ?s'" using sys_step.step_settle [OF w s] by simp
    with live_sys_reachable [OF r] have "retry_ids_ok ?s'" by (blast intro: reachable_retry_ids reach_step)
    moreover have "is_retry_job j" using settle_adds [OF s] by auto
    ultimately have "distinct (map job_id (retry_jobs (s_queue (q_sys l)) @ [j]))"
      by (simp add: retry_ids_ok_def) (simp add: retry_jobs_def)
    moreover have "en_job e \<in> set (retry_jobs (s_queue (q_sys l)))" using x(1) xr by (simp add: retry_jobs_def)
    ultimately show False using x(2) by simp (metis imageI)
  qed
  then show ?thesis by (simp add: find_add map_add_job_def)
qed

text \<open>A handler that throws with the only job of a PENDING payment strands it.\<close>

lemma throw_strands:
  assumes p: "p \<in> set (payments (q_db l))" "status p = PENDING"
    and h: "q_held l i = Some k" "q_find Q l k = Some e" "en_state e = Active i"
    and only: "\<forall>k' e'. q_find Q l k' = Some e' \<and> job_of (p_id p) (job_payload (en_job e')) \<longrightarrow> k' = k"
      "\<forall>i' jd. pc_job (s_workers (q_sys l) i') = Some jd \<and> job_of (p_id p) jd \<longrightarrow> i' = i"
    and rows: "\<forall>x \<in> set (outbox (q_db l)). relay_pending x \<longrightarrow> \<not> job_of (p_id p) (payload x)"
  shows "live_step Q cfg l (finish_job Q i k False l) \<and> stranded Q mx (finish_job Q i k False l) p"
proof -
  let ?l' = "finish_job Q i k False l"
  have find: "q_find Q ?l' = (q_find Q l)(k \<mapsto> e\<lparr>en_state := Job_failed\<rparr>)"
    using h by (simp add: find_finish map_finish_def settled_entry_def queue_options_simps)
  have "\<not> live_entry mx e'" if "q_find Q ?l' k' = Some e'" "job_of (p_id p) (job_payload (en_job e'))" for k' e'
    using that only(1) unfolding find by (auto simp: live_entry_def split: if_splits)
  moreover have "\<not> job_of (p_id p) jd" if "pc_job (s_workers (q_sys ?l') i') = Some jd" for i' jd
    using that only(2) by (auto split: if_splits)
  moreover have "live_step Q cfg l ?l'" by (rule live_throw [OF h(1)])
  ultimately show ?thesis using p rows by (auto simp: stranded_def)
qed

end

end
