(* ===== verification/Announcements.thy ===== *)
theory Announcements
  imports System
begin

text \<open>
  What the terminal rows of the outbox say. In every reachable state a \<open>payment.completed\<close> or
  \<open>payment.failed\<close> row belongs to a payment in that status and carries its id, amount,
  currency and status. The webhook services send these payloads out.
\<close>

definition terminal_type :: "string \<Rightarrow> bool" where
  "terminal_type t \<longleftrightarrow> t \<in> {''payment.completed'', ''payment.failed''}"

definition type_status :: "string \<Rightarrow> payment_status" where
  "type_status t = (if t = ''payment.completed'' then COMPLETED else FAILED)"

definition row_announces :: "db \<Rightarrow> outbox_row \<Rightarrow> bool" where
  "row_announces d r \<longleftrightarrow> jd_paymentId (payload r) = aggregateId r \<and> agrees d (payload r)
     \<and> jd_status (payload r) = Some (type_status (eventType r))"

definition terminal_rows_ok :: "db \<Rightarrow> bool" where
  "terminal_rows_ok d \<longleftrightarrow> (\<forall>r \<in> set (outbox d). terminal_type (eventType r) \<longrightarrow> row_announces d r)"

text \<open>Where a terminal row comes from: an older row, at most marked, or the settling of a worker.\<close>

lemma settle_outbox:
  assumes "settle cfg env jd dis d = (r, d', adds)"
  shows "outbox d' = outbox d
    \<or> (\<not> is_retry dis \<and> outbox d' = outbox d @ [final_outbox jd dis (settle_env env)])"
  using assms
  by (cases dis) (auto simp: settle_def dest!: retry_txn_Inr final_txn_Inr split: sum.splits prod.splits)

lemma submit_outbox:
  "submit su d = (r, d') \<Longrightarrow> r' \<in> set (outbox d') \<Longrightarrow> r' \<in> set (outbox d) \<or> eventType r' = ''payment.submitted''"
  unfolding submit_def
  by (drule insert_txn_atomic) (auto simp: submitted_db_def Let_def submitted_outbox_def)

lemma relay_outbox:
  assumes "relay_poll_once locked refuses fails now d = (r, d', adds)" "r' \<in> set (outbox d')"
  shows "\<exists>r \<in> set (outbox d). r' = r \<or> r' = relay_mark now r"
proof -
  from relay_poll_db [OF assms(1)] have "outbox d' = outbox d
      \<or> outbox d' = poll_mark relay_pending (relay_mark now) locked (outbox d)"
    by (cases r) auto
  then show ?thesis using relay.poll_mark_claimed [of r' now locked "outbox d"] assms(2) by auto
qed

lemma reap_outbox: "reap_once dl locked env d = (r, d', adds) \<Longrightarrow> outbox d' = outbox d"
  by (auto simp: reap_once_def dest!: reap_txn_Inr(2) split: sum.splits prod.splits)

lemma claim_outbox: "claim_rest jd found env d = Inr d' \<Longrightarrow> outbox d' = outbox d"
  by (auto simp: claim_rest_def dest!: claim_cas_Inr split: option.splits if_splits)

definition row_origin :: "system \<Rightarrow> outbox_row \<Rightarrow> bool" where
  "row_origin s r' \<longleftrightarrow>
     (\<exists>r \<in> set (outbox (s_db s)). payload r = payload r' \<and> eventType r = eventType r' \<and> aggregateId r = aggregateId r')
     \<or> (\<exists>i jd dis te. s_workers s i = Settling jd dis \<and> \<not> is_retry dis \<and> r' = final_outbox jd dis te)"

lemma sys_step_row_origin:
  assumes "sys_step cfg s s'" "r' \<in> set (outbox (s_db s'))" "terminal_type (eventType r')"
  shows "row_origin s r'"
proof -
  have old: "row_origin s r'" if "r' \<in> set (outbox (s_db s))" using that by (auto simp: row_origin_def)
  from assms(1) show ?thesis
  proof cases
    case (step_submit su r d')
    then show ?thesis using submit_outbox [OF step_submit(2), of r'] assms(2,3) old by (auto simp: terminal_type_def)
  next
    case (step_relay locked refuses fails now r d' adds)
    then obtain r0 where "r0 \<in> set (outbox (s_db s))" "r' = r0 \<or> r' = relay_mark now r0"
      using relay_outbox [OF step_relay(2)] assms(2) by auto
    then show ?thesis unfolding row_origin_def by (auto simp: relay_mark_def)
  next
    case (step_reap dl locked env r d' adds adds')
    then show ?thesis using reap_outbox [OF step_reap(2)] assms(2) old by simp
  next
    case (step_claim i jd found env d')
    then show ?thesis using claim_outbox [OF step_claim(3)] assms(2) old by simp
  next
    case (step_settle i jd dis env r d' adds adds')
    have "r' \<in> set (outbox (s_db s)) \<or> (\<not> is_retry dis \<and> r' = final_outbox jd dis (settle_env env))"
      using settle_outbox [OF step_settle(3)] assms(2) by (auto simp: step_settle(1))
    then show ?thesis using old step_settle(2) unfolding row_origin_def by blast
  qed (use old assms(2) in auto)
qed

lemma final_row_announces:
  assumes "agrees d jd" "\<not> is_retry dis"
  shows "row_announces d (final_outbox jd dis te)"
proof -
  have "target dis = type_status (if target dis = COMPLETED then ''payment.completed'' else ''payment.failed'')"
    using assms(2) by (cases dis) (simp_all add: type_status_def)
  then show ?thesis using assms(1) by (simp add: row_announces_def final_outbox_def agrees_def)
qed

lemma terminal_rows_step:
  assumes ok: "terminal_rows_ok (s_db s)" and r: "reachable cfg s" and st: "sys_step cfg s s'"
  shows "terminal_rows_ok (s_db s')"
  unfolding terminal_rows_ok_def
proof (intro ballI impI)
  fix r'
  assume r': "r' \<in> set (outbox (s_db s'))" "terminal_type (eventType r')"
  have au: "audit_ok (s_db s)" using reachable_ledger_ok [OF r] by (simp add: ledger_ok_def)
  note keep = agrees_step [OF reachable_db_step [OF r st] au]
  from sys_step_row_origin [OF st r'] show "row_announces (s_db s') r'"
    unfolding row_origin_def
  proof (elim disjE bexE exE conjE)
    fix r0
    assume "r0 \<in> set (outbox (s_db s))" "payload r0 = payload r'" "eventType r0 = eventType r'"
      "aggregateId r0 = aggregateId r'"
    then have "row_announces (s_db s) r'" using ok r'(2) by (auto simp: terminal_rows_ok_def row_announces_def)
    then show ?thesis using keep by (auto simp: row_announces_def)
  next
    fix i jd dis te
    assume w: "s_workers s i = Settling jd dis" "\<not> is_retry dis" and f: "r' = final_outbox jd dis te"
    have "pc_agrees (s_db s) (Settling jd dis)" using reachable_jobs_agree [OF r] w(1) unfolding jobs_agree_def by metis
    then have "agrees (s_db s') jd" using keep by simp
    then show ?thesis using final_row_announces w(2) f by simp
  qed
qed

lemma reachable_terminal_rows: "reachable cfg s \<Longrightarrow> terminal_rows_ok (s_db s)"
proof (induction rule: reachable.induct)
  case (reach_init t0)
  then show ?case by (simp add: terminal_rows_ok_def initial_def empty_db_def)
qed (rule terminal_rows_step)

text \<open>A terminal row's payment has the status the row announces.\<close>

lemma announced_status:
  assumes "audit_ok d" "outbox_ok d" "r \<in> set (outbox d)" "terminal_type (eventType r)"
  obtains p where "p \<in> set (payments d)" "p_id p = aggregateId r" "status p = type_status (eventType r)"
proof -
  let ?i = "aggregateId r"
  have in_of: "eventType r \<in> set (outbox_of ?i d)"
    using assms(3) by (auto simp: outbox_of_def)
  then have "eventType r \<in> set (concat (map emits (events_of ?i (paymentEvents d))))"
    using assms(2) by (simp add: outbox_ok_def)
  then obtain e where "e \<in> set (events_of ?i (paymentEvents d))" by auto
  then have "e \<in> set (paymentEvents d)" "e_paymentId e = ?i" by (auto simp: events_of_def)
  then obtain p where p: "p \<in> set (payments d)" "p_id p = ?i" using assms(1) by (auto simp: audit_ok_def)
  from outbox_of_payment [OF assms(1,2) p(1)] in_of assms(4)
  have "status p = type_status (eventType r)"
    by (cases "status p") (auto simp: p(2) terminal_type_def type_status_def split: if_splits)
  with p show thesis by (rule that)
qed

text \<open>Everything a terminal row says about its payment, in one place.\<close>

lemma reachable_announcement:
  assumes "reachable cfg s" "r \<in> set (outbox (s_db s))" "terminal_type (eventType r)"
  shows "\<exists>p \<in> set (payments (s_db s)). p_id p = jd_paymentId (payload r)
    \<and> amountCents p = jd_amountCents (payload r) \<and> currency p = jd_currency (payload r)
    \<and> jd_status (payload r) = Some (status p) \<and> status p = type_status (eventType r)
    \<and> (status p = COMPLETED \<longrightarrow> p_id p \<in> charged s)"
proof -
  have au: "audit_ok (s_db s)" using reachable_ledger_ok [OF assms(1)] by (simp add: ledger_ok_def)
  have ra: "row_announces (s_db s) r" using reachable_terminal_rows [OF assms(1)] assms(2,3) by (simp add: terminal_rows_ok_def)
  obtain p where p: "p \<in> set (payments (s_db s))" "p_id p = aggregateId r" "status p = type_status (eventType r)"
    using announced_status [OF au reachable_outbox_ok [OF assms(1)] assms(2,3)] .
  obtain q where q: "q \<in> set (payments (s_db s))" "p_id q = jd_paymentId (payload r)"
    "amountCents q = jd_amountCents (payload r)" "currency q = jd_currency (payload r)"
    using ra by (auto simp: row_announces_def agrees_def)
  have "q = p" using distinct_key_unique [OF audit_ok_distinct [OF au]] p(1,2) q(1,2) ra
    by (simp add: row_announces_def)
  moreover have "status p = COMPLETED \<longrightarrow> p_id p \<in> charged s"
    using reachable_completed [OF assms(1)] p(1) by (simp add: completed_in_def)
  ultimately show ?thesis using p q ra by (intro bexI [of _ p]) (auto simp: row_announces_def)
qed

end
