(* ===== verification/Webhooks.thy ===== *)
theory Webhooks
  imports Http Pagination
begin

text \<open>
  The webhook API: \<open>apps/api/src/webhooks/webhooks.service.ts\<close>, its two controllers and DTOs.
  The URL check is the validator package's and is the argument \<open>is_url\<close>; the id and the random
  secret are arguments too. What is shown: secrets appear in the answer to a creation only,
  a deletion deactivates exactly its endpoint, and the deliveries page like the payments.
\<close>

subsection \<open>Endpoints\<close>

definition create_endpoint_checks :: "(string \<Rightarrow> bool) \<Rightarrow> (string \<times> (json option \<Rightarrow> bool)) list" where
  "create_endpoint_checks is_url =
     [(''url'', string_satisfies is_url),
      (''description'', \<lambda>v. is_absent v \<or> is_string v)]"

definition new_endpoint :: "string \<Rightarrow> string \<Rightarrow> string \<Rightarrow> int \<Rightarrow> webhook_endpoint" where
  "new_endpoint u i s now =
     \<lparr>w_id = i, url = u, secret = s, active = True, w_createdAt = now, description = None\<rparr>"

definition insert_endpoint :: "string \<Rightarrow> string \<Rightarrow> string \<Rightarrow> int \<Rightarrow> db \<Rightarrow> (webhook_endpoint \<times> db) result" where
  "insert_endpoint u i s now d =
     bind_result (insert_row w_id (new_endpoint u i s now) (webhookEndpoints d))
       (\<lambda>t. Inr (new_endpoint u i s now, d\<lparr>webhookEndpoints := t\<rparr>))"

definition create_endpoint :: "(string \<Rightarrow> bool) \<Rightarrow> fields \<Rightarrow> string \<Rightarrow> string \<Rightarrow> int \<Rightarrow> db
  \<Rightarrow> webhook_endpoint result \<times> db" where
  "create_endpoint is_url fs i s now d =
     (case validate (create_endpoint_checks is_url) fs of
        [] \<Rightarrow> (case insert_endpoint (the_str (map_of fs ''url'')) i s now d of
                Inl e \<Rightarrow> (Inl e, d)
              | Inr (row, d') \<Rightarrow> (Inr row, d'))
      | errs \<Rightarrow> (Inl (ValidationException errs), d))"

definition delete_endpoint :: "string \<Rightarrow> db \<Rightarrow> webhook_endpoint result \<times> db" where
  "delete_endpoint i d =
     (let here = (\<lambda>r. w_id r = i); off = (\<lambda>r. r\<lparr>active := False\<rparr>);
          rows = returning here off (webhookEndpoints d);
          d' = d\<lparr>webhookEndpoints := update_where here off (webhookEndpoints d)\<rparr>
      in case rows of
           [] \<Rightarrow> (Inl (HttpException 404 ''Endpoint for given id was not found''), d')
         | row # _ \<Rightarrow> (Inr row, d'))"

text \<open>The columns of a listed endpoint: all but the secret.\<close>

record endpoint_view =
  evw_id :: string
  evw_url :: string
  evw_active :: bool
  evw_createdAt :: int
  evw_description :: "string option"

definition endpoint_columns :: "webhook_endpoint \<Rightarrow> endpoint_view" where
  "endpoint_columns r =
     \<lparr>evw_id = w_id r, evw_url = url r, evw_active = active r, evw_createdAt = w_createdAt r,
      evw_description = description r\<rparr>"

definition list_endpoints :: "db \<Rightarrow> endpoint_view list" where
  "list_endpoints d = map endpoint_columns (select_where active (webhookEndpoints d))"

subsection \<open>Deliveries\<close>

text \<open>The columns of a listed delivery: all but the payload, and the endpoint's URL.\<close>

record delivery_view =
  dv_id :: string
  dv_endpointId :: string
  dv_eventId :: string
  dv_eventType :: string
  dv_status :: webhook_status
  dv_attempts :: nat
  dv_nextAttemptAt :: "int option"
  dv_lastError :: "string option"
  dv_createdAt :: int
  dv_deliveredAt :: "int option"
  dv_url :: "string option"

definition delivery_columns :: "webhook_delivery \<Rightarrow> string option \<Rightarrow> delivery_view" where
  "delivery_columns r u =
     \<lparr>dv_id = d_id r, dv_endpointId = endpointId r, dv_eventId = eventId r,
      dv_eventType = d_eventType r, dv_status = d_status r, dv_attempts = attempts r,
      dv_nextAttemptAt = nextAttemptAt r, dv_lastError = lastError r,
      dv_createdAt = d_createdAt r, dv_deliveredAt = deliveredAt r, dv_url = u\<rparr>"

definition joined_deliveries :: "db \<Rightarrow> delivery_view list" where
  "joined_deliveries d = concat (map (\<lambda>r.
     case select_where (\<lambda>ep. w_id ep = endpointId r) (webhookEndpoints d) of
       [] \<Rightarrow> [delivery_columns r None]
     | eps \<Rightarrow> map (\<lambda>ep. delivery_columns r (Some (url ep))) eps) (webhookDeliveries d))"

record delivery_query =
  dq_status :: "webhook_status option"
  dq_cursor :: "string option"
  dq_limit :: nat

definition list_deliveries :: "delivery_query \<Rightarrow> db \<Rightarrow> delivery_view list" where
  "list_deliveries q d =
     limit (dq_limit q + 1) (order_by_desc dv_id (select_where
       (\<lambda>r. (case dq_status q of None \<Rightarrow> True | Some s \<Rightarrow> dv_status r = s)
          \<and> (case dq_cursor q of None \<Rightarrow> True | Some c \<Rightarrow> c = [] \<or> dv_id r < c)) (joined_deliveries d)))"

definition webhook_status_names :: "(string \<times> webhook_status) list" where
  "webhook_status_names =
     [(''pending'', Pending), (''delivered'', Delivered), (''failed'', Failed), (''dead'', Dead)]"

definition pipe_delivery_query :: "string option \<Rightarrow> string option \<Rightarrow> string option \<Rightarrow> delivery_query result" where
  "pipe_delivery_query st cur lm =
     (let bad = (case st of Some s \<Rightarrow> map_of webhook_status_names s = None | None \<Rightarrow> False)
      in case parse_limit lm of
           None \<Rightarrow> Inl (ValidationException ((if bad then [''status''] else []) @ [''limit'']))
         | Some n \<Rightarrow>
             if bad then Inl (ValidationException [''status''])
             else Inr \<lparr>dq_status = Option.bind st (map_of webhook_status_names),
                       dq_cursor = cur, dq_limit = n\<rparr>)"

definition deliveries_page :: "delivery_query \<Rightarrow> db \<Rightarrow> delivery_view list \<times> string option" where
  "deliveries_page q d = page_of dv_id (dq_limit q) (list_deliveries q d)"

subsection \<open>Lemmas\<close>

lemma insert_endpoint_Inr:
  "insert_endpoint u i s now d = Inr (row, d') \<longleftrightarrow>
   i \<notin> w_id ` set (webhookEndpoints d) \<and> row = new_endpoint u i s now
   \<and> d' = d\<lparr>webhookEndpoints := webhookEndpoints d @ [row]\<rparr>"
  by (auto simp: insert_endpoint_def new_endpoint_def)

text \<open>What the list shows is independent of the secrets.\<close>

lemma list_endpoints_secret:
  "list_endpoints (d\<lparr>webhookEndpoints := map (\<lambda>r. r\<lparr>secret := f r\<rparr>) (webhookEndpoints d)\<rparr>)
   = list_endpoints d"
proof -
  have "map endpoint_columns (select_where active (map (\<lambda>r. r\<lparr>secret := f r\<rparr>) t))
      = map endpoint_columns (select_where active t)" for t
    by (induction t) (auto simp: select_where_def endpoint_columns_def)
  then show ?thesis by (simp add: list_endpoints_def)
qed

lemma list_endpoints_delete:
  "list_endpoints (snd (delete_endpoint i d)) = filter (\<lambda>v. evw_id v \<noteq> i) (list_endpoints d)"
proof -
  have "map endpoint_columns (select_where active (update_where (\<lambda>r. w_id r = i) (\<lambda>r. r\<lparr>active := False\<rparr>) t))
      = filter (\<lambda>v. evw_id v \<noteq> i) (map endpoint_columns (select_where active t))" for t
    by (induction t) (auto simp: select_where_def endpoint_columns_def update_where_def)
  then show ?thesis
    by (simp add: list_endpoints_def delete_endpoint_def Let_def split: list.splits)
qed

definition deliveries_wf :: "db \<Rightarrow> bool" where
  "deliveries_wf d \<longleftrightarrow> distinct (map w_id (webhookEndpoints d)) \<and> distinct (map d_id (webhookDeliveries d))
     \<and> (\<forall>r \<in> set (webhookDeliveries d). d_id r \<noteq> [])"

text \<open>With unique endpoint ids the join keeps one row per delivery.\<close>

lemma ids_joined:
  assumes "distinct (map w_id (webhookEndpoints d))"
  shows "map dv_id (joined_deliveries d) = map d_id (webhookDeliveries d)"
proof -
  let ?j = "\<lambda>r. case select_where (\<lambda>ep. w_id ep = endpointId r) (webhookEndpoints d) of
       [] \<Rightarrow> [delivery_columns r None]
     | eps \<Rightarrow> map (\<lambda>ep. delivery_columns r (Some (url ep))) eps"
  have one: "length (filter (\<lambda>ep. w_id ep = i) t) \<le> 1" if "distinct (map w_id t)" for i and t :: "webhook_endpoint list"
    using that by (induction t) (auto simp: filter_empty_conv image_iff)
  have "map dv_id (?j r) = [d_id r]" for r
  proof (cases "select_where (\<lambda>ep. w_id ep = endpointId r) (webhookEndpoints d)")
    case Nil
    then show ?thesis by (simp add: delivery_columns_def)
  next
    case (Cons ep eps)
    with one [OF assms, of "endpointId r"] show ?thesis
      by (simp add: select_where_def delivery_columns_def)
  qed
  then have "map dv_id (concat (map ?j t)) = map d_id t" for t by (induction t) simp_all
  then show ?thesis by (simp add: joined_deliveries_def)
qed

definition delivery_rows :: "webhook_status option \<Rightarrow> db \<Rightarrow> delivery_view list" where
  "delivery_rows st d = order_by_desc dv_id
     (select_where (\<lambda>r. case st of None \<Rightarrow> True | Some s \<Rightarrow> dv_status r = s) (joined_deliveries d))"

interpretation delivery_pages: keyset_source dv_id
  "\<lambda>st cur n d. list_deliveries \<lparr>dq_status = st, dq_cursor = cur, dq_limit = n\<rparr> d"
  delivery_rows deliveries_wf
proof unfold_locales
  fix d :: db and cur :: "string option" and st n
  assume wf: "deliveries_wf d" and cur: "cur \<noteq> Some []"
  have "select_where (\<lambda>r. (case st of None \<Rightarrow> True | Some s \<Rightarrow> dv_status r = s)
        \<and> (case cur of None \<Rightarrow> True | Some c \<Rightarrow> c = [] \<or> dv_id r < c)) (joined_deliveries d)
      = filter (below_cursor dv_id cur)
          (select_where (\<lambda>r. case st of None \<Rightarrow> True | Some s \<Rightarrow> dv_status r = s) (joined_deliveries d))"
    using cur by (auto simp: select_where_def below_cursor_def intro!: filter_cong split: option.splits)
  then show "list_deliveries \<lparr>dq_status = st, dq_cursor = cur, dq_limit = n\<rparr> d
      = take (n + 1) (filter (below_cursor dv_id cur) (delivery_rows st d))"
    by (simp add: list_deliveries_def delivery_rows_def limit_def filter_order_by_desc)
next
  fix d :: db and st
  assume "deliveries_wf d"
  then have "distinct (map dv_id (joined_deliveries d))" by (simp add: deliveries_wf_def ids_joined)
  then show "sorted_wrt (\<lambda>a b. dv_id b < dv_id a) (delivery_rows st d)"
    unfolding delivery_rows_def select_where_def
    by (intro sorted_wrt_rev_sort_key) (simp add: distinct_map_filter)
next
  fix d :: db and st r
  assume wf: "deliveries_wf d" and "r \<in> set (delivery_rows st d)"
  then have "dv_id r \<in> dv_id ` set (joined_deliveries d)" by (auto simp: delivery_rows_def)
  then have "dv_id r \<in> d_id ` set (webhookDeliveries d)"
    using wf by (metis deliveries_wf_def ids_joined list.set_map)
  then show "dv_id r \<noteq> []" using wf by (auto simp: deliveries_wf_def)
qed

end
