(* ===== verification/Dispatcher.thy ===== *)
theory Dispatcher
  imports Outbox
begin

text \<open>
  The webhook dispatcher \<open>apps/api/src/webhooks/webhooks-dispatcher.service.ts\<close>: one
  transaction claims undispatched terminal rows of the outbox, inserts one delivery per row
  and active endpoint and marks the rows; the jobs are added after the commit. \<open>fresh e ep\<close>
  is the ULID of the delivery of event \<open>e\<close> to endpoint \<open>ep\<close>, \<open>refuses\<close> the jobs the queue rejects.
\<close>

definition dispatch_pending :: "outbox_row \<Rightarrow> bool" where
  "dispatch_pending r \<longleftrightarrow> webhookDispatchedAt r = None
     \<and> eventType r \<in> {''payment.completed'', ''payment.failed''}"

definition dispatch_mark :: "int \<Rightarrow> outbox_row \<Rightarrow> outbox_row" where
  "dispatch_mark now r = r\<lparr>webhookDispatchedAt := Some now\<rparr>"

definition new_delivery :: "(string \<Rightarrow> string \<Rightarrow> string) \<Rightarrow> int \<Rightarrow> outbox_row \<Rightarrow> webhook_endpoint \<Rightarrow> webhook_delivery" where
  "new_delivery fresh now e ep =
     \<lparr>d_id = fresh (o_id e) (w_id ep), endpointId = w_id ep, eventId = o_id e,
      d_eventType = eventType e, d_payload = payload e, d_status = Pending, attempts = 0,
      nextAttemptAt = None, lastError = None, d_createdAt = now, deliveredAt = None\<rparr>"

definition delivery_batch :: "(string \<Rightarrow> string \<Rightarrow> string) \<Rightarrow> int \<Rightarrow> outbox_row list \<Rightarrow> webhook_endpoint list
  \<Rightarrow> webhook_delivery list" where
  "delivery_batch fresh now events endpoints =
     concat (map (\<lambda>e. map (new_delivery fresh now e) endpoints) events)"

definition dispatch_txn :: "string set \<Rightarrow> (string \<Rightarrow> string \<Rightarrow> string) \<Rightarrow> int \<Rightarrow> int \<Rightarrow> db
  \<Rightarrow> (webhook_delivery list \<times> db) result" where
  "dispatch_txn locked fresh db_now now d =
     (let events = claim_rows dispatch_pending locked (outbox d)
      in if length events = 0 then Inr ([], d)
         else let endpoints = select_where active (webhookEndpoints d);
                  rows = delivery_batch fresh db_now events endpoints
              in bind_result (if 0 < length rows then insert_deliveries rows d else Inr d)
                   (\<lambda>d1. Inr (rows, d1\<lparr>outbox :=
                      mark_rows (dispatch_mark now) (o_id ` set events) (outbox d1)\<rparr>)))"

text \<open>A webhook job's data is the id of its delivery.\<close>

definition dispatch_job :: "webhook_delivery \<Rightarrow> string job" where
  "dispatch_job r =
     \<lparr>job_name = ''webhook.deliver'', job_payload = d_id r, job_id = d_id r, job_delay = None\<rparr>"

definition dispatch_poll_once :: "string set \<Rightarrow> (string \<Rightarrow> string \<Rightarrow> string) \<Rightarrow> (string job \<Rightarrow> bool)
  \<Rightarrow> int \<Rightarrow> int \<Rightarrow> db \<Rightarrow> nat result \<times> db \<times> string job list" where
  "dispatch_poll_once locked fresh refuses db_now now d =
     (case dispatch_txn locked fresh db_now now d of
        Inl e \<Rightarrow> (Inl e, d, [])
      | Inr (rows, d') \<Rightarrow>
          (if list_ex refuses (map dispatch_job rows)
           then (Inl (PlainError ''queue.add''), d', filter (\<lambda>j. \<not> refuses j) (map dispatch_job rows))
           else (Inr (length rows), d', map dispatch_job rows)))"

interpretation dispatch: outbox_poller dispatch_pending "dispatch_mark now" for now
  by unfold_locales (simp_all add: dispatch_pending_def dispatch_mark_def)

lemma dispatch_mark_simps [simp]:
  "o_id (dispatch_mark now r) = o_id r" "webhookDispatchedAt (dispatch_mark now r) = Some now"
  "eventType (dispatch_mark now r) = eventType r"
  by (simp_all add: dispatch_mark_def)

text \<open>A committed poll, as one equation.\<close>

lemma dispatch_txn_Inr:
  assumes "dispatch_txn locked fresh db_now now d = Inr (rows, d')"
  shows "rows = delivery_batch fresh db_now (claim_rows dispatch_pending locked (outbox d))
           (select_where active (webhookEndpoints d))"
    and "d' = d\<lparr>webhookDeliveries := webhookDeliveries d @ rows,
              outbox := poll_mark dispatch_pending (dispatch_mark now) locked (outbox d)\<rparr>"
proof -
  let ?events = "claim_rows dispatch_pending locked (outbox d)"
  have none: "mark_rows (dispatch_mark now) {} t = t" for t by (simp add: mark_rows_def update_where_none)
  show r: "rows = delivery_batch fresh db_now ?events (select_where active (webhookEndpoints d))"
    using assms by (auto simp: dispatch_txn_def Let_def delivery_batch_def split: if_splits)
  show "d' = d\<lparr>webhookDeliveries := webhookDeliveries d @ rows,
              outbox := poll_mark dispatch_pending (dispatch_mark now) locked (outbox d)\<rparr>"
    using assms unfolding r
    by (auto simp: dispatch_txn_def Let_def poll_mark_def delivery_batch_def none
        dest!: insert_deliveries_Inr split: if_splits)
qed

lemma delivery_batch_count:
  assumes "distinct (map w_id eps)" "ep \<in> set eps"
  shows "count_where (\<lambda>r. eventId r = i \<and> endpointId r = w_id ep) (delivery_batch fresh now events eps)
    = count_where (\<lambda>e. o_id e = i) events"
proof -
  have one: "count_where (\<lambda>r. eventId r = i \<and> endpointId r = w_id ep) (map (new_delivery fresh now e) eps)
      = (if o_id e = i then 1 else 0)" for e
    using assms by (induction eps) (auto simp: new_delivery_def count_where_0 image_iff)
  show ?thesis by (induction events) (simp_all add: delivery_batch_def one)
qed

lemma in_delivery_batch:
  "r \<in> set (delivery_batch fresh now events eps) \<longleftrightarrow>
   (\<exists>e \<in> set events. \<exists>ep \<in> set eps. r = new_delivery fresh now e ep)"
  by (auto simp: delivery_batch_def)

text \<open>
  The unique constraint on event and endpoint: however often polls and their retries ran,
  an event has at most one delivery per endpoint.
\<close>

definition deliveries_unique :: "db \<Rightarrow> bool" where
  "deliveries_unique d \<longleftrightarrow> distinct (map (\<lambda>r. (eventId r, endpointId r)) (webhookDeliveries d))
     \<and> distinct (map d_id (webhookDeliveries d))"

lemma insert_deliveries_unique:
  "insert_deliveries rs d = Inr d' \<Longrightarrow> deliveries_unique d \<Longrightarrow> deliveries_unique d'"
proof (induction rs arbitrary: d)
  case (Cons r rs)
  then obtain d1 where "insert_delivery r d = Inr d1" "insert_deliveries rs d1 = Inr d'" by auto
  moreover from this Cons.prems(2) have "deliveries_unique d1" by (auto simp: deliveries_unique_def)
  ultimately show ?case using Cons.IH by blast
qed simp

lemma dispatch_txn_unique:
  assumes "dispatch_txn locked fresh db_now now d = Inr (rows, d')" "deliveries_unique d"
  shows "deliveries_unique d'"
  using assms insert_deliveries_unique
  by (fastforce simp: dispatch_txn_def Let_def deliveries_unique_def split: if_splits)

lemma insert_deliveries_ids:
  "insert_deliveries rs d = Inr d' \<Longrightarrow> distinct (map d_id (webhookDeliveries d)) \<Longrightarrow>
   distinct (map d_id (webhookDeliveries d'))"
proof (induction rs arbitrary: d)
  case (Cons r rs)
  then obtain d1 where "insert_delivery r d = Inr d1" "insert_deliveries rs d1 = Inr d'" by auto
  moreover from this Cons.prems(2) have "distinct (map d_id (webhookDeliveries d1))" by auto
  ultimately show ?case using Cons.IH by blast
qed simp

lemma dispatch_txn_ids:
  assumes "dispatch_txn locked fresh db_now now d = Inr (rows, d')" "distinct (map d_id (webhookDeliveries d))"
  shows "distinct (map d_id (webhookDeliveries d'))"
  using assms insert_deliveries_ids by (fastforce simp: dispatch_txn_def Let_def split: if_splits)

text \<open>
  What a committed poll achieves: each event it claimed has exactly one delivery to each
  active endpoint.
\<close>

lemma count_where_distinct:
  assumes "distinct (map k t)" "\<And>r. r \<in> set t \<Longrightarrow> p r \<Longrightarrow> k r = x"
  shows "count_where p t \<le> 1"
  using assms by (induction t) (auto simp: count_where_0 image_iff)

lemma dispatch_txn_delivers:
  assumes run: "dispatch_txn locked fresh db_now now d = Inr (rows, d')" and uq: "deliveries_unique d"
    and e: "e \<in> set (claim_rows dispatch_pending locked (outbox d))"
    and ep: "ep \<in> set (webhookEndpoints d)" "active ep"
  shows "count_where (\<lambda>r. eventId r = o_id e \<and> endpointId r = w_id ep) (webhookDeliveries d') = 1"
proof -
  have "count_where (\<lambda>r. eventId r = o_id e \<and> endpointId r = w_id ep) (webhookDeliveries d') \<le> 1"
    using dispatch_txn_unique [OF run uq] unfolding deliveries_unique_def
    by (intro count_where_distinct [where k = "\<lambda>r. (eventId r, endpointId r)" and x = "(o_id e, w_id ep)"]) auto
  moreover have "new_delivery fresh db_now e ep \<in> set (webhookDeliveries d')"
    using e ep by (auto simp: dispatch_txn_Inr(2) [OF run] dispatch_txn_Inr(1) [OF run] in_delivery_batch)
  then have "count_where (\<lambda>r. eventId r = o_id e \<and> endpointId r = w_id ep) (webhookDeliveries d') \<noteq> 0"
    by (auto simp: count_where_0 new_delivery_def intro!: bexI)
  ultimately show ?thesis by linarith
qed

text \<open>A row found dispatched was so before, or has its deliveries.\<close>

lemma dispatch_no_loss:
  assumes run: "dispatch_txn locked fresh db_now now d = Inr (rows, d')"
    and row: "e' \<in> set (outbox d')" "webhookDispatchedAt e' \<noteq> None"
    and ep: "ep \<in> set (webhookEndpoints d)" "active ep"
  shows "(\<exists>e \<in> set (outbox d). o_id e = o_id e' \<and> webhookDispatchedAt e \<noteq> None)
    \<or> (\<exists>r \<in> set (webhookDeliveries d'). eventId r = o_id e' \<and> endpointId r = w_id ep)"
proof -
  note d' = dispatch_txn_Inr [OF run]
  have "e' \<in> set (poll_mark dispatch_pending (dispatch_mark now) locked (outbox d))"
    using row(1) unfolding d'(2) by simp
  from dispatch.poll_mark_claimed [OF this] obtain e where e: "e \<in> set (outbox d)" "o_id e = o_id e'"
    "e' = e \<or> (e' = dispatch_mark now e \<and> o_id e \<in> o_id ` set (claim_rows dispatch_pending locked (outbox d)))"
    by blast
  show ?thesis
  proof (cases "e' = e")
    case True
    then show ?thesis using e(1) row(2) by blast
  next
    case False
    then have "o_id e' \<in> o_id ` set (claim_rows dispatch_pending locked (outbox d))" using e(2,3) by metis
    then obtain c where c: "c \<in> set (claim_rows dispatch_pending locked (outbox d))" "o_id c = o_id e'"
      by (metis imageE)
    have "ep \<in> set (select_where active (webhookEndpoints d))" using ep by simp
    with c(1) have "new_delivery fresh db_now c ep \<in> set rows"
      unfolding d'(1) in_delivery_batch by blast
    then have "new_delivery fresh db_now c ep \<in> set (webhookDeliveries d')" unfolding d'(2) by simp
    moreover have "eventId (new_delivery fresh db_now c ep) = o_id e'"
      "endpointId (new_delivery fresh db_now c ep) = w_id ep"
      using c(2) by (simp_all add: new_delivery_def)
    ultimately show ?thesis by blast
  qed
qed

subsection \<open>The dispatcher as a poll loop\<close>

record dispatch_env =
  de_locked :: "string set"
  de_fresh :: "string \<Rightarrow> string \<Rightarrow> string"
  de_refuses :: "string job \<Rightarrow> bool"
  de_db_now :: int
  de_now :: int

definition dispatcher_service :: "dispatch_env \<Rightarrow> db \<times> string job list
  \<Rightarrow> nat result \<times> (db \<times> string job list)" where
  "dispatcher_service e w =
     (case dispatch_poll_once (de_locked e) (de_fresh e) (de_refuses e) (de_db_now e) (de_now e) (fst w) of
        (r, d', adds) \<Rightarrow> (r, (d', snd w @ adds)))"

text \<open>
  No event has two deliveries to an endpoint, no job names an unknown delivery, and an event
  marked dispatched has a delivery to each active endpoint.
\<close>

definition jobs_name_deliveries :: "db \<times> string job list \<Rightarrow> bool" where
  "jobs_name_deliveries w \<longleftrightarrow> job_payload ` set (snd w) \<subseteq> d_id ` set (webhookDeliveries (fst w))"

definition dispatched_delivered :: "db \<Rightarrow> bool" where
  "dispatched_delivered d \<longleftrightarrow> (\<forall>e \<in> set (outbox d). \<forall>ep \<in> set (webhookEndpoints d).
     webhookDispatchedAt e \<noteq> None \<and> active ep
       \<longrightarrow> (\<exists>r \<in> set (webhookDeliveries d). eventId r = o_id e \<and> endpointId r = w_id ep))"

definition fanned_out :: "db \<times> string job list \<Rightarrow> bool" where
  "fanned_out w \<longleftrightarrow> deliveries_unique (fst w) \<and> dispatched_delivered (fst w) \<and> jobs_name_deliveries w"

lemma dispatched_delivered_txn:
  assumes txn: "dispatch_txn locked fresh db_now now d = Inr (rows, d')" and ok: "dispatched_delivered d"
  shows "dispatched_delivered d'"
  unfolding dispatched_delivered_def
proof (intro ballI impI)
  fix e ep
  assume e: "e \<in> set (outbox d')" and ep: "ep \<in> set (webhookEndpoints d')"
    and a: "webhookDispatchedAt e \<noteq> None \<and> active ep"
  have d': "webhookDeliveries d' = webhookDeliveries d @ rows" "webhookEndpoints d' = webhookEndpoints d"
    using dispatch_txn_Inr [OF txn] by simp_all
  have ep': "ep \<in> set (webhookEndpoints d)" using ep d'(2) by simp
  from dispatch_no_loss [OF txn e conjunct1 [OF a] ep' conjunct2 [OF a]]
  show "\<exists>r \<in> set (webhookDeliveries d'). eventId r = o_id e \<and> endpointId r = w_id ep"
  proof (elim disjE bexE conjE)
    fix e0
    assume "e0 \<in> set (outbox d)" "o_id e0 = o_id e" "webhookDispatchedAt e0 \<noteq> None"
    with ok ep' a obtain r where "r \<in> set (webhookDeliveries d)" "eventId r = o_id e" "endpointId r = w_id ep"
      unfolding dispatched_delivered_def by metis
    then show ?thesis using d'(1) by auto
  qed auto
qed

interpretation dispatcher_loop: poll_service dispatcher_service fanned_out
proof unfold_locales
  fix w w' :: "db \<times> string job list" and e r
  assume inv: "fanned_out w" and poll: "dispatcher_service e w = (r, w')"
  show "fanned_out w'"
  proof (cases "dispatch_txn (de_locked e) (de_fresh e) (de_db_now e) (de_now e) (fst w)")
    case (Inl x)
    with inv poll show ?thesis
      by (auto simp: fanned_out_def dispatcher_service_def dispatch_poll_once_def jobs_name_deliveries_def)
  next
    case (Inr rd)
    obtain rows d' where rd: "rd = (rows, d')" by (cases rd)
    note txn = Inr [unfolded rd]
    obtain adds where w': "w' = (d', snd w @ adds)" "set adds \<subseteq> dispatch_job ` set rows"
      using poll txn by (auto simp: dispatcher_service_def dispatch_poll_once_def split: if_splits)
    have d': "webhookDeliveries d' = webhookDeliveries (fst w) @ rows" using dispatch_txn_Inr [OF txn] by simp
    have "job_payload ` set adds \<subseteq> d_id ` set rows"
      using image_mono [OF w'(2), of job_payload] by (simp add: image_image dispatch_job_def)
    moreover have "job_payload ` set (snd w) \<subseteq> d_id ` set (webhookDeliveries (fst w))"
      using inv by (simp add: fanned_out_def jobs_name_deliveries_def)
    ultimately have "jobs_name_deliveries w'"
      by (simp add: jobs_name_deliveries_def w'(1) d' image_Un le_supI1 le_supI2)
    then show ?thesis
      using dispatch_txn_unique [OF txn] dispatched_delivered_txn [OF txn] inv by (simp add: fanned_out_def w'(1))
  qed
qed

end
