(* ===== verification/WebhookWorker.thy ===== *)
theory WebhookWorker
  imports Dispatcher Backoff
begin

text \<open>
  The delivery worker \<open>apps/api/src/webhooks/webhook.processor.ts\<close> and the delivery reaper
  \<open>webhook-reaper.service.ts\<close>. An attempt reads the delivery, posts the signed envelope and
  writes the outcome; the read, the post and the write are separate definitions because
  other workers run between them. HMAC and \<open>JSON.stringify\<close> of the envelope are the
  arguments \<open>hmac\<close> and \<open>stringify\<close>; what the fetch did is a \<open>fetch_result\<close>.
\<close>

record webhook_config =
  MAX_WEBHOOK_ATTEMPTS :: nat
  wh_BASE_MS :: rat
  wh_CAP_MS :: rat

record envelope =
  env_id :: string
  env_type :: string
  env_created :: int
  env_data :: job_data

record http_request =
  hr_url :: string
  hr_webhook_id :: string
  hr_timestamp :: string
  hr_signature :: string
  hr_body :: string

datatype fetch_result = Response nat | FetchError string

subsection \<open>One attempt\<close>

text \<open>The read: nothing to do, a thrown error, or the delivery with its endpoint.\<close>

definition webhook_read :: "string \<Rightarrow> db \<Rightarrow> (webhook_delivery \<times> webhook_endpoint) option result" where
  "webhook_read i d =
     (case first_row (select_where (\<lambda>r. d_id r = i) (webhookDeliveries d)) of
        None \<Rightarrow> Inr None
      | Some r \<Rightarrow>
          if d_status r = Delivered \<or> d_status r = Dead then Inr None
          else (case first_row (select_where (\<lambda>ep. w_id ep = endpointId r) (webhookEndpoints d)) of
                  None \<Rightarrow> Inl (PlainError ''Invalid Endpoint id in delivery'')
                | Some ep \<Rightarrow> Inr (Some (r, ep))))"

definition webhook_request :: "(string \<Rightarrow> string \<Rightarrow> string) \<Rightarrow> (envelope \<Rightarrow> string) \<Rightarrow> int \<Rightarrow> int
  \<Rightarrow> webhook_delivery \<Rightarrow> webhook_endpoint \<Rightarrow> http_request" where
  "webhook_request hmac stringify created now r ep =
     (let rawBody = stringify \<lparr>env_id = eventId r, env_type = d_eventType r, env_created = created,
                               env_data = d_payload r\<rparr>;
          timestamp = nat_str (nat (now div 1000))
      in \<lparr>hr_url = url ep, hr_webhook_id = eventId r, hr_timestamp = timestamp,
          hr_signature = hmac (secret ep) (timestamp @ ''.'' @ rawBody), hr_body = rawBody\<rparr>)"

fun response_ok :: "fetch_result \<Rightarrow> bool" where
  "response_ok (Response s) = (200 \<le> s \<and> s \<le> 299)"
| "response_ok (FetchError m) = False"

fun last_error :: "fetch_result \<Rightarrow> string" where
  "last_error (Response s) = (if 200 \<le> s \<and> s \<le> 299 then [] else ''HTTP '' @ nat_str s)"
| "last_error (FetchError m) = m"

definition retry_delivery_job :: "webhook_delivery \<Rightarrow> nat \<Rightarrow> js_number option \<Rightarrow> string job" where
  "retry_delivery_job r n delay =
     \<lparr>job_name = ''webhook.deliver'', job_payload = d_id r,
      job_id = d_id r @ '':retry:'' @ nat_str n, job_delay = delay\<rparr>"

definition set_delivery :: "string \<Rightarrow> (webhook_delivery \<Rightarrow> webhook_delivery) \<Rightarrow> db \<Rightarrow> db" where
  "set_delivery i f d = d\<lparr>webhookDeliveries := update_where (\<lambda>r. d_id r = i) f (webhookDeliveries d)\<rparr>"

text \<open>A time plus a delay in milliseconds, as a Date holds it.\<close>

fun add_delay :: "int \<Rightarrow> js_number \<Rightarrow> int result" where
  "add_delay now (Fin x) = Inr \<lfloor>f64 (of_int now + x)\<rfloor>"
| "add_delay now _ = Inl (PlainError ''RangeError'')"

text \<open>The write, given the delivery as it was read; \<open>now\<close> is the time and \<open>rnd\<close> the random number.\<close>

definition webhook_write :: "webhook_config \<Rightarrow> webhook_delivery \<Rightarrow> fetch_result \<Rightarrow> int \<Rightarrow> rat \<Rightarrow> db
  \<Rightarrow> unit result \<times> db \<times> string job list" where
  "webhook_write cfg r res now rnd d =
     (if response_ok res
      then (Inr (), set_delivery (d_id r)
             (\<lambda>x. x\<lparr>d_status := Delivered, deliveredAt := Some now, attempts := attempts x + 1\<rparr>) d, [])
      else let n = attempts r + 1
           in if n \<ge> MAX_WEBHOOK_ATTEMPTS cfg
              then (Inr (), set_delivery (d_id r)
                     (\<lambda>x. x\<lparr>d_status := Dead, attempts := n, lastError := Some (last_error res)\<rparr>) d, [])
              else (case computeBackoffMs (wh_BASE_MS cfg) (wh_CAP_MS cfg) rnd (int n) of
                      Inl e \<Rightarrow> (Inl e, d, [])
                    | Inr delay \<Rightarrow>
                        (case add_delay now delay of
                           Inl e \<Rightarrow> (Inl e, d, [])
                         | Inr due \<Rightarrow>
                             (Inr (), set_delivery (d_id r)
                                (\<lambda>x. x\<lparr>d_status := Failed, nextAttemptAt := Some due, attempts := n,
                                      lastError := Some (last_error res)\<rparr>) d,
                              [retry_delivery_job r n (Some delay)]))))"

text \<open>
  The handler. \<open>fetch\<close> is the network: what a request gets. The last component is the
  request sent, if one was.
\<close>

record attempt_env =
  ae_created :: int
  ae_now :: int
  ae_write :: int
  ae_rnd :: rat

definition webhook_process :: "webhook_config \<Rightarrow> (string \<Rightarrow> string \<Rightarrow> string) \<Rightarrow> (envelope \<Rightarrow> string)
  \<Rightarrow> (http_request \<Rightarrow> fetch_result) \<Rightarrow> attempt_env \<Rightarrow> string \<Rightarrow> db
  \<Rightarrow> unit result \<times> db \<times> string job list \<times> http_request option" where
  "webhook_process cfg hmac stringify fetch env i d =
     (case webhook_read i d of
        Inl e \<Rightarrow> (Inl e, d, [], None)
      | Inr None \<Rightarrow> (Inr (), d, [], None)
      | Inr (Some (r, ep)) \<Rightarrow>
          (let req = webhook_request hmac stringify (ae_created env) (ae_now env) r ep
           in case webhook_write cfg r (fetch req) (ae_write env) (ae_rnd env) d of
                (res, d', adds) \<Rightarrow> (res, d', adds, Some req)))"

subsection \<open>The reaper\<close>

definition delivery_stuck :: "int \<Rightarrow> int \<Rightarrow> webhook_delivery \<Rightarrow> bool" where
  "delivery_stuck deadline now r \<longleftrightarrow> d_status r \<in> {Pending, Failed}
     \<and> (case nextAttemptAt r of Some t \<Rightarrow> t | None \<Rightarrow> d_createdAt r) < now - deadline"

definition reaped_delivery_job :: "webhook_delivery \<Rightarrow> string job" where
  "reaped_delivery_job r =
     \<lparr>job_name = ''webhook.deliver'', job_payload = d_id r,
      job_id = (if attempts r = 0 then d_id r else d_id r @ '':retry:'' @ nat_str (attempts r)),
      job_delay = None\<rparr>"

definition webhook_reap_once :: "int \<Rightarrow> string set \<Rightarrow> int \<Rightarrow> db \<Rightarrow> string job list" where
  "webhook_reap_once deadline locked now d =
     (let stuck = limit 100 (select_where (\<lambda>r. delivery_stuck deadline now r \<and> d_id r \<notin> locked)
                    (webhookDeliveries d))
      in if length stuck = 0 then [] else map reaped_delivery_job stuck)"

subsection \<open>Attempts of one delivery\<close>

definition find_delivery :: "string \<Rightarrow> db \<Rightarrow> webhook_delivery option" where
  "find_delivery i d = first_row (select_where (\<lambda>r. d_id r = i) (webhookDeliveries d))"

definition endpoint_known :: "webhook_delivery \<Rightarrow> db \<Rightarrow> bool" where
  "endpoint_known r d \<longleftrightarrow> endpointId r \<in> w_id ` set (webhookEndpoints d)"

lemma find_delivery_id: "find_delivery i d = Some r \<Longrightarrow> d_id r = i"
  by (auto simp: find_delivery_def dest: first_row_Some_in)

lemma find_set_delivery:
  assumes "\<And>x. d_id (f x) = d_id x"
  shows "find_delivery i (set_delivery j f d) = map_option (\<lambda>r. if i = j then f r else r) (find_delivery i d)"
proof -
  have "first_row (select_where (\<lambda>r. d_id r = i) (update_where (\<lambda>r. d_id r = j) f t))
      = map_option (\<lambda>r. if i = j then f r else r) (first_row (select_where (\<lambda>r. d_id r = i) t))" for t
    by (induction t) (auto simp: select_where_def update_where_def assms)
  then show ?thesis by (simp add: find_delivery_def set_delivery_def)
qed

lemma set_delivery_endpoints [simp]: "webhookEndpoints (set_delivery j f d) = webhookEndpoints d"
  by (simp add: set_delivery_def)

lemma webhook_read_open:
  assumes "find_delivery i d = Some r" "d_status r \<noteq> Delivered" "d_status r \<noteq> Dead" "endpoint_known r d"
  shows "\<exists>ep. webhook_read i d = Inr (Some (r, ep)) \<and> w_id ep = endpointId r"
proof (cases "first_row (select_where (\<lambda>ep. w_id ep = endpointId r) (webhookEndpoints d))")
  case None
  then have "endpointId r \<notin> w_id ` set (webhookEndpoints d)"
    by (auto simp: select_where_def filter_empty_conv)
  with assms(4) show ?thesis by (simp add: endpoint_known_def)
next
  case (Some ep)
  with assms show ?thesis
    by (auto simp: webhook_read_def find_delivery_def dest: first_row_Some_in)
qed

text \<open>A delivery that is delivered or dead is left alone, and nothing is sent.\<close>

lemma webhook_process_done:
  assumes "find_delivery i d = Some r" "d_status r = Delivered \<or> d_status r = Dead"
  shows "webhook_process cfg hmac str fetch env i d = (Inr (), d, [], None)"
  using assms by (simp add: webhook_process_def webhook_read_def find_delivery_def)

text \<open>The three outcomes of a write.\<close>

lemma webhook_write_ok:
  assumes "response_ok res" "find_delivery (d_id r) d = Some r"
  shows "\<exists>d'. webhook_write cfg r res now rnd d = (Inr (), d', [])
    \<and> find_delivery (d_id r) d' = Some (r\<lparr>d_status := Delivered, deliveredAt := Some now, attempts := attempts r + 1\<rparr>)
    \<and> webhookEndpoints d' = webhookEndpoints d"
  using assms by (simp add: webhook_write_def find_set_delivery)

lemma webhook_write_dead:
  assumes "\<not> response_ok res" "MAX_WEBHOOK_ATTEMPTS cfg \<le> attempts r + 1" "find_delivery (d_id r) d = Some r"
  shows "\<exists>d'. webhook_write cfg r res now rnd d = (Inr (), d', [])
    \<and> find_delivery (d_id r) d' = Some (r\<lparr>d_status := Dead, attempts := attempts r + 1, lastError := Some (last_error res)\<rparr>)
    \<and> webhookEndpoints d' = webhookEndpoints d"
  using assms by (simp add: webhook_write_def find_set_delivery)

definition backoff_wf :: "webhook_config \<Rightarrow> nat \<Rightarrow> nat \<Rightarrow> bool" where
  "backoff_wf cfg base cap \<longleftrightarrow> wh_BASE_MS cfg = of_nat base \<and> wh_CAP_MS cfg = of_nat cap
     \<and> 0 < base \<and> cap \<le> 2 ^ 53"

lemma webhook_write_retry:
  assumes fail: "\<not> response_ok res" "attempts r + 1 < MAX_WEBHOOK_ATTEMPTS cfg"
    and cfg: "backoff_wf cfg base cap" "0 \<le> rnd" "rnd \<le> 1" and r: "find_delivery (d_id r) d = Some r"
  shows "\<exists>d' delay due. webhook_write cfg r res now rnd d
      = (Inr (), d', [retry_delivery_job r (attempts r + 1) (Some (Fin delay))])
    \<and> due = \<lfloor>f64 (of_int now + delay)\<rfloor>
    \<and> of_nat (backoff_exp base cap (int (attempts r + 1))) / 2 \<le> delay
    \<and> delay \<le> of_nat (backoff_exp base cap (int (attempts r + 1)))
    \<and> find_delivery (d_id r) d' = Some (r\<lparr>d_status := Failed, nextAttemptAt := Some due,
        attempts := attempts r + 1, lastError := Some (last_error res)\<rparr>)
    \<and> webhookEndpoints d' = webhookEndpoints d"
proof -
  have wf: "0 < base" "cap \<le> 2 ^ 53" "wh_BASE_MS cfg = of_nat base" "wh_CAP_MS cfg = of_nat cap"
    using cfg(1) by (simp_all add: backoff_wf_def)
  obtain ms where ms: "computeBackoffMs (of_nat base) (of_nat cap) rnd (int (attempts r + 1)) = Inr (Fin ms)"
      "of_nat (backoff_exp base cap (int (attempts r + 1))) / 2 \<le> ms"
      "ms \<le> of_nat (backoff_exp base cap (int (attempts r + 1)))"
    using computeBackoffMs_bounds [OF wf(1,2) _ cfg(2,3), of "int (attempts r + 1)"] by auto
  then show ?thesis using fail r wf(3,4)
    by (auto simp: webhook_write_def find_set_delivery Let_def intro!: exI [of _ ms])
qed

subsection \<open>Runs of attempts\<close>

text \<open>Successive jobs of one delivery, with what the endpoint answers to each; counts the requests sent.\<close>

fun webhook_runs :: "webhook_config \<Rightarrow> (string \<Rightarrow> string \<Rightarrow> string) \<Rightarrow> (envelope \<Rightarrow> string)
  \<Rightarrow> (fetch_result \<times> attempt_env) list \<Rightarrow> string \<Rightarrow> db \<Rightarrow> nat \<times> db" where
  "webhook_runs cfg hmac str [] i d = (0, d)"
| "webhook_runs cfg hmac str ((res, env) # as) i d =
     (case webhook_process cfg hmac str (\<lambda>_. res) env i d of
        (_, d1, _, req) \<Rightarrow>
          (case webhook_runs cfg hmac str as i d1 of
             (n, d2) \<Rightarrow> ((if req = None then 0 else 1) + n, d2)))"

lemma webhook_runs_done:
  assumes "find_delivery i d = Some r" "d_status r = Delivered \<or> d_status r = Dead"
  shows "webhook_runs cfg hmac str as i d = (0, d)"
  using webhook_process_done [OF assms] by (induction as) auto

text \<open>
  The number of leading failures decides: delivered by the first success within the budget,
  dead when the budget is used up, else failed and waiting.
\<close>

lemma webhook_runs_spec:
  assumes cfg: "backoff_wf cfg base cap" and rnd: "\<forall>a \<in> set as. 0 \<le> ae_rnd (snd a) \<and> ae_rnd (snd a) \<le> 1"
    and r: "find_delivery i d = Some r" "d_status r \<noteq> Delivered" "d_status r \<noteq> Dead" "endpoint_known r d"
    and budget: "attempts r < MAX_WEBHOOK_ATTEMPTS cfg"
  defines "k \<equiv> length (takeWhile (\<lambda>a. \<not> response_ok (fst a)) as)"
  shows "\<exists>n d' r'. webhook_runs cfg hmac str as i d = (n, d') \<and> find_delivery i d' = Some r'
    \<and> attempts r' = attempts r + n
    \<and> (if MAX_WEBHOOK_ATTEMPTS cfg \<le> attempts r + k
       then d_status r' = Dead \<and> attempts r' = MAX_WEBHOOK_ATTEMPTS cfg
       else if k < length as then d_status r' = Delivered \<and> n = k + 1
       else n = k \<and> d_status r' = (if as = [] then d_status r else Failed))"
  using rnd r budget unfolding k_def
proof (induction as arbitrary: d r)
  case Nil
  then show ?case by simp
next
  case (Cons a as)
  obtain res env where a: "a = (res, env)" by (cases a)
  have i: "d_id r = i" using find_delivery_id [OF Cons.prems(2)] .
  obtain ep where read: "webhook_read i d = Inr (Some (r, ep))"
    using webhook_read_open [OF Cons.prems(2-5)] by blast
  let ?k = "length (takeWhile (\<lambda>a. \<not> response_ok (fst a)) as)"
  have step: "webhook_runs cfg hmac str (a # as) i d = (1 + fst (webhook_runs cfg hmac str as i d1), snd (webhook_runs cfg hmac str as i d1))"
    if "webhook_write cfg r res (ae_write env) (ae_rnd env) d = (x, d1, js)" for x d1 js
    using that by (simp add: a webhook_process_def read Let_def split: prod.splits)
  show ?case
  proof (cases "response_ok res")
    case True
    obtain d1 where d1: "webhook_write cfg r res (ae_write env) (ae_rnd env) d = (Inr (), d1, [])"
      "find_delivery i d1 = Some (r\<lparr>d_status := Delivered, deliveredAt := Some (ae_write env), attempts := attempts r + 1\<rparr>)"
      using webhook_write_ok [OF True, of r d cfg "ae_write env" "ae_rnd env"] Cons.prems(2) i by auto
    have "webhook_runs cfg hmac str as i d1 = (0, d1)" by (rule webhook_runs_done [OF d1(2)]) simp
    with step [OF d1(1)] d1(2) Cons.prems(6) True show ?thesis by (simp add: a)
  next
    case fail: False
    show ?thesis
    proof (cases "MAX_WEBHOOK_ATTEMPTS cfg \<le> attempts r + 1")
      case True
      obtain d1 where d1: "webhook_write cfg r res (ae_write env) (ae_rnd env) d = (Inr (), d1, [])"
        "find_delivery i d1 = Some (r\<lparr>d_status := Dead, attempts := attempts r + 1, lastError := Some (last_error res)\<rparr>)"
        using webhook_write_dead [OF fail True, of d "ae_write env" "ae_rnd env"] Cons.prems(2) i by auto
      have "webhook_runs cfg hmac str as i d1 = (0, d1)" by (rule webhook_runs_done [OF d1(2)]) simp
      with step [OF d1(1)] d1(2) Cons.prems(6) True fail show ?thesis by (simp add: a)
    next
      case False
      have rnd0: "0 \<le> ae_rnd env" "ae_rnd env \<le> 1" using Cons.prems(1) by (simp_all add: a)
      obtain d1 js due where d1: "webhook_write cfg r res (ae_write env) (ae_rnd env) d = (Inr (), d1, js)"
        "find_delivery i d1 = Some (r\<lparr>d_status := Failed, nextAttemptAt := Some due,
          attempts := attempts r + 1, lastError := Some (last_error res)\<rparr>)" "webhookEndpoints d1 = webhookEndpoints d"
        using webhook_write_retry [OF fail _ cfg rnd0, of r d "ae_write env"] False Cons.prems(2) i by auto
      let ?r1 = "r\<lparr>d_status := Failed, nextAttemptAt := Some due,
          attempts := attempts r + 1, lastError := Some (last_error res)\<rparr>"
      have "endpoint_known ?r1 d1" using Cons.prems(5) d1(3) by (simp add: endpoint_known_def)
      have st: "(if as = [] then d_status ?r1 else Failed) = Failed" and at: "attempts ?r1 = attempts r + 1"
        by simp_all
      from \<open>endpoint_known ?r1 d1\<close> have "\<exists>n d' r'. webhook_runs cfg hmac str as i d1 = (n, d') \<and> find_delivery i d' = Some r'
          \<and> attempts r' = attempts ?r1 + n
          \<and> (if MAX_WEBHOOK_ATTEMPTS cfg \<le> attempts ?r1 + ?k
             then d_status r' = Dead \<and> attempts r' = MAX_WEBHOOK_ATTEMPTS cfg
             else if ?k < length as then d_status r' = Delivered \<and> n = ?k + 1
             else n = ?k \<and> d_status r' = (if as = [] then d_status ?r1 else Failed))"
        using Cons.prems(1) False by (intro Cons.IH [OF _ d1(2)]) simp_all
      then obtain n d' r' where
        ih: "webhook_runs cfg hmac str as i d1 = (n, d')" "find_delivery i d' = Some r'"
          "attempts r' = attempts r + 1 + n"
          "if MAX_WEBHOOK_ATTEMPTS cfg \<le> attempts r + 1 + ?k
           then d_status r' = Dead \<and> attempts r' = MAX_WEBHOOK_ATTEMPTS cfg
           else if ?k < length as then d_status r' = Delivered \<and> n = ?k + 1
           else n = ?k \<and> d_status r' = Failed"
        unfolding st at by blast
      have kk: "length (takeWhile (\<lambda>a. \<not> response_ok (fst a)) (a # as)) = Suc ?k" using fail by (simp add: a)
      show ?thesis unfolding kk
        using step [OF d1(1)] ih by (intro exI [of _ "1 + n"] exI [of _ d'] exI [of _ r']) auto
    qed
  qed
qed

subsection \<open>Concurrent attempts\<close>

text \<open>
  The write does not look at the status it overwrites: an attempt that read the delivery
  before another delivered it turns the delivered row into a failed or dead one.
\<close>

lemma stale_write_overwrites:
  assumes read: "find_delivery i d = Some r"
    and ok: "response_ok res1" "webhook_write cfg r res1 t1 rnd1 d = (x1, d1, js1)"
    and fail: "\<not> response_ok res2" "webhook_write cfg r res2 t2 rnd2 d1 = (Inr (), d2, js2)"
  shows "map_option d_status (find_delivery i d1) = Some Delivered
    \<and> map_option d_status (find_delivery i d2) = Some (if MAX_WEBHOOK_ATTEMPTS cfg \<le> attempts r + 1 then Dead else Failed)"
proof -
  have i: "d_id r = i" using find_delivery_id [OF read] .
  obtain q where q: "find_delivery i d1 = Some q" "d_status q = Delivered"
    using webhook_write_ok [OF ok(1), of r d cfg t1 rnd1] read i ok(2) by auto
  have "map_option d_status (find_delivery i d2) = Some (if MAX_WEBHOOK_ATTEMPTS cfg \<le> attempts r + 1 then Dead else Failed)"
    using fail q(1) i
    by (auto simp: webhook_write_def Let_def find_set_delivery split: if_splits sum.splits)
  with q show ?thesis by simp
qed

subsection \<open>The reaper's jobs\<close>

text \<open>A delivery is reaped under the id of the job that should have driven it.\<close>

lemma reaped_job_dispatch: "job_id (reaped_delivery_job (new_delivery fresh now e ep)) = job_id (dispatch_job (new_delivery fresh now e ep))"
  by (simp add: reaped_delivery_job_def dispatch_job_def new_delivery_def)

lemma reaped_job_retry:
  assumes "find_delivery i d = Some r" "webhook_write cfg r res now rnd d = (Inr (), d', [j])"
  shows "\<exists>r' due. find_delivery i d' = Some r' \<and> d_status r' = Failed \<and> nextAttemptAt r' = Some due
    \<and> job_id (reaped_delivery_job r') = job_id j
    \<and> (\<forall>deadline t. delivery_stuck deadline t r' \<longleftrightarrow> due + deadline < t)"
proof -
  have i: "d_id r = i" using find_delivery_id [OF assms(1)] .
  from assms(2) obtain delay due where "\<not> response_ok res" "add_delay now delay = Inr due"
    and d': "d' = set_delivery (d_id r) (\<lambda>x. x\<lparr>d_status := Failed, nextAttemptAt := Some due,
        attempts := attempts r + 1, lastError := Some (last_error res)\<rparr>) d"
    and j: "j = retry_delivery_job r (attempts r + 1) (Some delay)"
    by (auto simp: webhook_write_def Let_def split: if_splits sum.splits)
  have "find_delivery i d' = Some (r\<lparr>d_status := Failed, nextAttemptAt := Some due,
        attempts := attempts r + 1, lastError := Some (last_error res)\<rparr>)"
    using assms(1) i by (simp add: d' find_set_delivery)
  then show ?thesis
    by (auto simp: j reaped_delivery_job_def retry_delivery_job_def delivery_stuck_def)
qed

lemma webhook_reap_covers:
  assumes "r \<in> set (webhookDeliveries d)" "delivery_stuck dl now r"
    and "count_where (delivery_stuck dl now) (webhookDeliveries d) \<le> 100"
  shows "reaped_delivery_job r \<in> set (webhook_reap_once dl {} now d)"
proof -
  let ?s = "select_where (delivery_stuck dl now) (webhookDeliveries d)"
  have "limit 100 ?s = ?s" using assms(3) by (simp add: limit_def select_where_def count_where_def)
  moreover have r: "r \<in> set ?s" using assms(1,2) by simp
  moreover from r have "?s \<noteq> []" by (metis empty_iff list.set(1))
  ultimately show ?thesis using assms(1,2) by (simp add: webhook_reap_once_def Let_def)
qed

subsection \<open>The webhook reaper as a poll loop\<close>

definition webhook_reaper_service :: "int \<times> string set \<times> int \<Rightarrow> db \<times> string job list
  \<Rightarrow> unit result \<times> (db \<times> string job list)" where
  "webhook_reaper_service e w =
     (case e of (dl, locked, now) \<Rightarrow> (Inr (), (fst w, snd w @ webhook_reap_once dl locked now (fst w))))"

lemma webhook_reap_payloads:
  "job_payload ` set (webhook_reap_once dl locked now d) \<subseteq> d_id ` set (webhookDeliveries d)"
  by (auto simp: webhook_reap_once_def Let_def reaped_delivery_job_def limit_def select_where_def
      dest!: in_set_takeD)

interpretation webhook_reaper_loop: poll_service webhook_reaper_service jobs_name_deliveries
proof unfold_locales
  fix w w' :: "db \<times> string job list" and e r
  assume inv: "jobs_name_deliveries w" and poll: "webhook_reaper_service e w = (r, w')"
  obtain dl locked now where e: "e = (dl, locked, now)" by (cases e)
  have w': "w' = (fst w, snd w @ webhook_reap_once dl locked now (fst w))"
    using poll by (simp add: webhook_reaper_service_def e)
  show "jobs_name_deliveries w'"
    using inv webhook_reap_payloads [of dl locked now "fst w"]
    unfolding w' jobs_name_deliveries_def fst_conv snd_conv set_append image_Un by (rule Un_least)
qed

end
