(* ===== verification/WebhookSystem.thy ===== *)
theory WebhookSystem
  imports Announcements Webhooks WebhookWorker
begin

text \<open>
  All processes together: the payment processes of theory \<open>System\<close> with the webhook API, the
  dispatcher, any number of delivery workers and the delivery reaper on the same database.
  The webhook services only add to what the payment processes see: erasing their tables and
  marks is a simulation of the payment system, so its invariants carry over. On top of it, what
  endpoints are told is true: a request announces a payment in the status it has.
\<close>

subsection \<open>The payment processes do not see the webhook tables\<close>

definition undispatched :: "outbox_row \<Rightarrow> outbox_row" where
  "undispatched r = r\<lparr>webhookDispatchedAt := None\<rparr>"

definition core :: "db \<Rightarrow> db" where
  "core d = d\<lparr>outbox := map undispatched (outbox d), webhookEndpoints := [], webhookDeliveries := []\<rparr>"

lemma undispatched_simps [simp]:
  "o_id (undispatched r) = o_id r" "aggregateId (undispatched r) = aggregateId r"
  "eventType (undispatched r) = eventType r" "payload (undispatched r) = payload r"
  "publishedAt (undispatched r) = publishedAt r" "o_createdAt (undispatched r) = o_createdAt r"
  "undispatched (relay_mark now r) = relay_mark now (undispatched r)"
  "undispatched (dispatch_mark now r) = undispatched r"
  by (simp_all add: undispatched_def relay_mark_def dispatch_mark_def)

lemma core_tables [simp]:
  "payments (core d) = payments d" "paymentEvents (core d) = paymentEvents d"
  "idempotencyKeys (core d) = idempotencyKeys d" "outbox (core d) = map undispatched (outbox d)"
  by (simp_all add: core_def)

lemma core_updates:
  "core (d\<lparr>payments := x1\<rparr>) = core d\<lparr>payments := x1\<rparr>"
  "core (d\<lparr>paymentEvents := x2\<rparr>) = core d\<lparr>paymentEvents := x2\<rparr>"
  "core (d\<lparr>idempotencyKeys := x3\<rparr>) = core d\<lparr>idempotencyKeys := x3\<rparr>"
  "core (d\<lparr>outbox := x4\<rparr>) = core d\<lparr>outbox := map undispatched x4\<rparr>"
  "core (d\<lparr>webhookEndpoints := x5\<rparr>) = core d"
  "core (d\<lparr>webhookDeliveries := x6\<rparr>) = core d"
  by (simp_all add: core_def)

lemma core_empty [simp]: "core empty_db = empty_db"
  by (simp add: core_def empty_db_def)

lemma sort_key_map: "sort_key k (map f xs) = map f (sort_key (\<lambda>x. k (f x)) xs)"
proof -
  have ins: "insort_key k (f x) (map f ys) = map f (insort_key (\<lambda>x. k (f x)) x ys)" for x ys
    by (induction ys) simp_all
  show ?thesis by (induction xs) (simp_all add: ins sort_key_def)
qed

text \<open>Every operation of the payment processes commutes with the erasure.\<close>

lemma insert_core [simp]:
  "insert_payment r (core d) = map_sum id core (insert_payment r d)"
  "insert_event e (core d) = map_sum id core (insert_event e d)"
  "insert_idempotency_key i (core d) = map_sum id core (insert_idempotency_key i d)"
  by (auto simp: insert_payment_def insert_event_def insert_idempotency_key_def insert_row_def core_updates)

lemma insert_outbox_core:
  "undispatched r = r \<Longrightarrow> insert_outbox r (core d) = map_sum id core (insert_outbox r d)"
  by (auto simp: insert_outbox_def insert_row_def core_updates image_iff)

lemma bind_core:
  "bind_result (map_sum id core x) f = bind_result x (\<lambda>d. f (core d))"
  "map_sum id g (bind_result y h) = bind_result y (\<lambda>z. map_sum id g (h z))"
  by (cases x; simp) (cases y; simp)

lemma insert_events_core [simp]: "insert_events es (core d) = map_sum id core (insert_events es d)"
  by (induction es arbitrary: d) (simp_all add: bind_core)

lemmas core_push = core_updates(1-4) [symmetric]

lemma find_key_core [simp]: "find_key c k (core d) = find_key c k d"
  by (simp add: find_key_def)

lemma undispatched_new [simp]:
  "undispatched (submitted_outbox row corr env) = submitted_outbox row corr env"
  "undispatched (final_outbox jd dis te) = final_outbox jd dis te"
  by (simp_all add: undispatched_def submitted_outbox_def final_outbox_def)

lemma submit_txn_core:
  "submit_txn dto c k h corr env (core d) = map_sum id (map_prod id core) (submit_txn dto c k h corr env d)"
  by (simp add: submit_txn_def Let_def bind_core insert_outbox_core)

lemma submit_core:
  "submit su (core d) = map_prod id core (submit su d)"
  by (simp add: submit_def insert_txn_def submit_txn_core split: sum.splits option.splits)

lemma mark_core: "mark_rows (relay_mark now) is (map undispatched t) = map undispatched (mark_rows (relay_mark now) is t)"
  by (simp add: mark_rows_def update_where_def)

lemma claim_core: "claim_rows relay_pending locked (map undispatched t) = map undispatched (claim_rows relay_pending locked t)"
proof -
  have "relay_pending (undispatched r) = relay_pending r" for r by (simp add: relay_pending_def)
  then show ?thesis
    by (simp add: claim_rows_def limit_def order_by_def select_where_def filter_map comp_def sort_key_map take_map)
qed

lemma relay_core:
  "relay_poll_once locked refuses fails now (core d) = map_prod id (map_prod core id) (relay_poll_once locked refuses fails now d)"
proof -
  have "relay_job (undispatched r) = relay_job r" for r by (simp add: relay_job_def)
  then have j: "map relay_job (map undispatched t) = map relay_job t" for t by simp
  have i: "map o_id (map undispatched t) = map o_id t" for t by simp
  show ?thesis
    by (simp add: relay_poll_once_def Let_def claim_core j i mark_core core_updates del: map_map)
qed

lemma reap_core:
  "reap_once dl locked env (core d) = map_prod id (map_prod core id) (reap_once dl locked env d)"
proof -
  have "reap_txn dl locked env (core d) = map_sum id (map_prod id core) (reap_txn dl locked env d)"
    by (simp add: reap_txn_def Let_def core_push bind_core)
  then show ?thesis by (simp add: reap_once_def split: sum.splits)
qed

lemma claim_read_core [simp]: "claim_read i (core d) = claim_read i d"
  by (simp add: claim_read_def)

lemma claim_rest_core: "claim_rest jd f env (core d) = map_sum id core (claim_rest jd f env d)"
  by (simp add: claim_rest_def claim_cas_def Let_def core_push split: option.splits)

lemma settle_core:
  "settle cfg env jd dis (core d) = map_prod id (map_prod core id) (settle cfg env jd dis d)"
proof -
  have r: "retry_txn mx jd re te (core d) = map_sum id (map_prod id core) (retry_txn mx jd re te d)" for mx re te
    by (simp add: retry_txn_def Let_def core_push bind_core split: option.splits)
  have f: "final_txn jd dis te (core d) = map_sum id core (final_txn jd dis te d)" for te
    by (simp add: final_txn_def Let_def core_push bind_core insert_outbox_core)
  show ?thesis by (simp add: settle_def r f split: sum.splits disposition.splits)
qed

definition core_sys :: "system \<Rightarrow> system" where
  "core_sys s = s\<lparr>s_db := core (s_db s)\<rparr>"

lemma core_sys_simps [simp]:
  "s_db (core_sys s) = core (s_db s)" "s_banks (core_sys s) = s_banks s" "s_queue (core_sys s) = s_queue s"
  "s_workers (core_sys s) = s_workers s" "s_breakers (core_sys s) = s_breakers s" "s_calls (core_sys s) = s_calls s"
  "s_lives (core_sys s) = s_lives s" "s_charged (core_sys s) = s_charged s" "charged (core_sys s) = charged s"
  by (simp_all add: core_sys_def)

lemma core_sys_updates [simp]:
  "core_sys (set_worker i pc s) = set_worker i pc (core_sys s)"
  "core_sys (set_breaker i br s) = set_breaker i br (core_sys s)"
  "core_sys (s\<lparr>s_db := d\<rparr>) = core_sys s\<lparr>s_db := core d\<rparr>"
  "core_sys (s\<lparr>s_queue := q\<rparr>) = core_sys s\<lparr>s_queue := q\<rparr>"
  "core_sys (s\<lparr>s_banks := bs\<rparr>) = core_sys s\<lparr>s_banks := bs\<rparr>"
  "core_sys (set_bank i b s) = set_bank i b (core_sys s)" "core_sys (restart i now s) = restart i now (core_sys s)"
  "core_sys (s\<lparr>s_calls := cs\<rparr>) = core_sys s\<lparr>s_calls := cs\<rparr>"
  by (simp_all add: core_sys_def set_worker_def set_breaker_def set_bank_def restart_def)

lemma core_initial [simp]: "core_sys (initial t0) = initial t0"
  by (simp add: core_sys_def initial_def)

text \<open>A step of the payment processes is one on the erased database.\<close>

lemma core_step: "sys_step cfg s s' \<Longrightarrow> sys_step cfg (core_sys s) (core_sys s')"
proof (induction rule: sys_step.induct)
  case (step_submit su s r d')
  then have "submit su (s_db (core_sys s)) = (r, core d')" by (simp add: submit_core)
  from sys_step.step_submit [OF this, of cfg] show ?case by simp
next
  case (step_relay locked refuses fails now s r d' adds)
  then have "relay_poll_once locked refuses fails now (s_db (core_sys s)) = (r, core d', adds)" by (simp add: relay_core)
  from sys_step.step_relay [OF this, of cfg] show ?case by simp
next
  case (step_reap dl locked env s r d' adds adds')
  then have "reap_once dl locked env (s_db (core_sys s)) = (r, core d', adds)" by (simp add: reap_core)
  from sys_step.step_reap [OF this step_reap(2), of cfg] show ?case by simp
next
  case (step_dequeue s i j jd)
  then have "sys_step cfg (core_sys s) (set_worker i (Claiming jd (claim_read (jd_paymentId jd) (s_db (core_sys s)))) (core_sys s))"
    by (intro sys_step.step_dequeue) simp_all
  then show ?case by simp
next
  case (step_claim s i jd found env d')
  then have "claim_rest jd found env (s_db (core_sys s)) = Inr (core d')" by (simp add: claim_rest_core)
  from sys_step.step_claim [OF _ this] step_claim(1) show ?case by simp
next
  case (step_settle s i jd dis env r d' adds adds')
  then have "settle cfg env jd dis (s_db (core_sys s)) = (r, core d', adds)" by (simp add: settle_core)
  from sys_step.step_settle [OF _ this step_settle(3)] step_settle(1) show ?case by simp
next
  case (step_answer s i jd out b' dis br now)
  then show ?case using sys_step.step_answer [of "core_sys s" i jd out b' dis br cfg now] by simp
next
  case (step_call s i jd now br)
  then show ?case using sys_step.step_call [of "core_sys s" i jd cfg now br] by simp
next
  case (step_late i req s out b')
  then show ?case using sys_step.step_late [of i req "core_sys s" out b' cfg] by simp
next
  case (step_chaos s i m n l)
  show ?case using sys_step.step_chaos [of cfg "core_sys s" i m n l] by simp
qed (auto intro: sys_step.intros)

subsection \<open>The steps\<close>

datatype delivery_pc =
    Free
  | Posting webhook_delivery webhook_endpoint
  | Answered webhook_delivery fetch_result

text \<open>\<open>hk_sent\<close> remembers the requests the endpoints got, with what the fetch gave.\<close>

record hooked =
  hk_sys :: system
  hk_jobs :: "string job list"
  hk_workers :: "nat \<Rightarrow> delivery_pc"
  hk_sent :: "(http_request \<times> fetch_result) list"

definition hk_initial :: "int \<Rightarrow> hooked" where
  "hk_initial t0 = \<lparr>hk_sys = initial t0, hk_jobs = [], hk_workers = (\<lambda>_. Free), hk_sent = []\<rparr>"

abbreviation hk_db :: "hooked \<Rightarrow> db" where
  "hk_db w \<equiv> s_db (hk_sys w)"

definition set_hk_db :: "db \<Rightarrow> hooked \<Rightarrow> hooked" where
  "set_hk_db d w = w\<lparr>hk_sys := (hk_sys w)\<lparr>s_db := d\<rparr>\<rparr>"

definition set_hk_worker :: "nat \<Rightarrow> delivery_pc \<Rightarrow> hooked \<Rightarrow> hooked" where
  "set_hk_worker i pc w = w\<lparr>hk_workers := (hk_workers w)(i := pc)\<rparr>"

lemma set_hk_simps [simp]:
  "hk_db (set_hk_db d w) = d" "hk_jobs (set_hk_db d w) = hk_jobs w" "hk_workers (set_hk_db d w) = hk_workers w"
  "hk_sent (set_hk_db d w) = hk_sent w" "hk_sys (set_hk_db d w) = (hk_sys w)\<lparr>s_db := d\<rparr>"
  "hk_sys (set_hk_worker i pc w) = hk_sys w" "hk_jobs (set_hk_worker i pc w) = hk_jobs w"
  "hk_workers (set_hk_worker i pc w) = (hk_workers w)(i := pc)" "hk_sent (set_hk_worker i pc w) = hk_sent w"
  by (simp_all add: set_hk_db_def set_hk_worker_def)

inductive hook_step :: "processor_config \<Rightarrow> webhook_config \<Rightarrow> (string \<Rightarrow> string \<Rightarrow> string)
  \<Rightarrow> (envelope \<Rightarrow> string) \<Rightarrow> hooked \<Rightarrow> hooked \<Rightarrow> bool" for cfg wcfg hmac str where
  hook_core: "sys_step cfg (hk_sys w) s' \<Longrightarrow> hook_step cfg wcfg hmac str w (w\<lparr>hk_sys := s'\<rparr>)"
| hook_create: "create_endpoint is_url fs i sec now (hk_db w) = (r, d') \<Longrightarrow>
    hook_step cfg wcfg hmac str w (set_hk_db d' w)"
| hook_delete: "delete_endpoint i (hk_db w) = (r, d') \<Longrightarrow> hook_step cfg wcfg hmac str w (set_hk_db d' w)"
| hook_dispatch: "dispatch_poll_once locked fresh refuses db_now now (hk_db w) = (r, d', adds) \<Longrightarrow>
    set adds' \<subseteq> set adds \<Longrightarrow>
    hook_step cfg wcfg hmac str w (set_hk_db d' w\<lparr>hk_jobs := hk_jobs w @ adds'\<rparr>)"
| hook_read: "hk_workers w n = Free \<Longrightarrow> j \<in> set (hk_jobs w) \<Longrightarrow>
    webhook_read (job_payload j) (hk_db w) = Inr (Some (r, ep)) \<Longrightarrow>
    hook_step cfg wcfg hmac str w (set_hk_worker n (Posting r ep) w)"
| hook_post: "hk_workers w n = Posting r ep \<Longrightarrow> q = webhook_request hmac str created now r ep \<Longrightarrow>
    hook_step cfg wcfg hmac str w (set_hk_worker n (Answered r res) w\<lparr>hk_sent := hk_sent w @ [(q, res)]\<rparr>)"
| hook_write: "hk_workers w n = Answered r res \<Longrightarrow>
    webhook_write wcfg r res now rn (hk_db w) = (x, d', adds) \<Longrightarrow> adds' = adds \<or> adds' = [] \<Longrightarrow>
    hook_step cfg wcfg hmac str w (set_hk_worker n Free (set_hk_db d' w)\<lparr>hk_jobs := hk_jobs w @ adds'\<rparr>)"
| hook_crash: "hook_step cfg wcfg hmac str w (set_hk_worker n Free w)"
| hook_reap: "set adds' \<subseteq> set (webhook_reap_once deadline locked now (hk_db w)) \<Longrightarrow>
    hook_step cfg wcfg hmac str w (w\<lparr>hk_jobs := hk_jobs w @ adds'\<rparr>)"

inductive hook_reachable :: "processor_config \<Rightarrow> webhook_config \<Rightarrow> (string \<Rightarrow> string \<Rightarrow> string)
  \<Rightarrow> (envelope \<Rightarrow> string) \<Rightarrow> hooked \<Rightarrow> bool" for cfg wcfg hmac str where
  hook_init: "hook_reachable cfg wcfg hmac str (hk_initial t0)"
| hook_next: "hook_reachable cfg wcfg hmac str w \<Longrightarrow> hook_step cfg wcfg hmac str w w' \<Longrightarrow>
    hook_reachable cfg wcfg hmac str w'"

inductive_cases hook_stepE: "hook_step cfg wcfg hmac str w w'"

subsection \<open>The simulation\<close>

lemma dispatch_once_cases:
  assumes "dispatch_poll_once locked fresh refuses db_now now d = (r, d', adds)"
  obtains (rolled_back) "d' = d" "adds = []"
  | (committed) rows where "dispatch_txn locked fresh db_now now d = Inr (rows, d')"
      "set adds \<subseteq> dispatch_job ` set rows"
  using assms by (auto simp: dispatch_poll_once_def split: sum.splits if_splits)

lemma core_dispatch: "dispatch_txn locked fresh db_now now d = Inr (rows, d') \<Longrightarrow> core d' = core d"
proof -
  assume "dispatch_txn locked fresh db_now now d = Inr (rows, d')"
  from dispatch_txn_Inr(2) [OF this] show ?thesis
    by (simp add: core_def poll_mark_def mark_rows_def update_where_def)
qed

lemma webhook_write_db:
  assumes "webhook_write wcfg r res now rn d = (x, d', adds)"
  obtains (unchanged) "d' = d" "adds = []"
  | (updated) f where "d' = set_delivery (d_id r) f d"
      "\<And>y. d_id (f y) = d_id y" "\<And>y. endpointId (f y) = endpointId y" "\<And>y. eventId (f y) = eventId y"
      "\<And>y. d_eventType (f y) = d_eventType y" "\<And>y. d_payload (f y) = d_payload y"
      "\<And>y. d_status (f y) = Delivered \<Longrightarrow> response_ok res"
      "job_payload ` set adds \<subseteq> {d_id r}"
proof -
  let ?n = "attempts r + 1"
  consider (ok) "response_ok res"
    | (dead) "\<not> response_ok res" "MAX_WEBHOOK_ATTEMPTS wcfg \<le> ?n"
    | (retry) "\<not> response_ok res" "\<not> MAX_WEBHOOK_ATTEMPTS wcfg \<le> ?n" by blast
  then show thesis
  proof cases
    case ok
    show thesis
      by (rule updated [of "\<lambda>x. x\<lparr>d_status := Delivered, deliveredAt := Some now, attempts := attempts x + 1\<rparr>"])
        (use assms ok in \<open>simp_all add: webhook_write_def\<close>)
  next
    case dead
    show thesis
      by (rule updated [of "\<lambda>x. x\<lparr>d_status := Dead, attempts := ?n, lastError := Some (last_error res)\<rparr>"])
        (use assms dead in \<open>simp_all add: webhook_write_def Let_def\<close>)
  next
    case retry
    consider "d' = d" "adds = []"
      | delay due where "d' = set_delivery (d_id r) (\<lambda>x. x\<lparr>d_status := Failed, nextAttemptAt := Some due,
            attempts := ?n, lastError := Some (last_error res)\<rparr>) d"
          "adds = [retry_delivery_job r ?n (Some delay)]"
      using assms retry by (auto simp: webhook_write_def Let_def split: sum.splits)
    then show thesis
    proof cases
      case 2
      show thesis by (rule updated [OF 2(1)]) (simp_all add: 2(2) retry_delivery_job_def)
    qed (rule unchanged)
  qed
qed

lemma create_endpoint_db:
  assumes "create_endpoint is_url fs i sec now d = (r, d')"
  obtains (refused) "d' = d"
  | (created) u where "i \<notin> w_id ` set (webhookEndpoints d)"
      "d' = d\<lparr>webhookEndpoints := webhookEndpoints d @ [new_endpoint u i sec now]\<rparr>"
proof (cases "d' = d")
  case False
  let ?u = "the_str (map_of fs ''url'')"
  from False assms obtain row where "insert_endpoint ?u i sec now d = Inr (row, d')"
    by (auto simp: create_endpoint_def split: list.splits sum.splits)
  then show thesis by (intro created) (auto simp: insert_endpoint_def new_endpoint_def)
qed (rule refused)

lemma delete_endpoint_db:
  "delete_endpoint i d = (r, d') \<Longrightarrow>
   d' = d\<lparr>webhookEndpoints := update_where (\<lambda>r. w_id r = i) (\<lambda>r. r\<lparr>active := False\<rparr>) (webhookEndpoints d)\<rparr>"
  by (auto simp: delete_endpoint_def Let_def split: list.splits)

lemma core_set_delivery [simp]: "core (set_delivery i f d) = core d"
  by (simp add: set_delivery_def core_updates)

lemma hook_step_core:
  assumes "hook_step cfg wcfg hmac str w w'"
  shows "core_sys (hk_sys w') = core_sys (hk_sys w) \<or> sys_step cfg (core_sys (hk_sys w)) (core_sys (hk_sys w'))"
proof -
  have same: "core d' = core (s_db s) \<Longrightarrow> core_sys (s\<lparr>s_db := d'\<rparr>) = core_sys s" for s d'
    by (simp add: core_sys_def)
  from assms show ?thesis
  proof cases
    case (hook_core s')
    then show ?thesis using core_step by simp
  next
    case (hook_create is_url fs i sec now r d')
    from hook_create(2) show ?thesis
      by (cases rule: create_endpoint_db) (simp_all add: hook_create(1) same core_updates)
  next
    case (hook_delete i r d')
    show ?thesis by (simp add: hook_delete(1) same core_updates delete_endpoint_db [OF hook_delete(2)])
  next
    case (hook_dispatch locked fresh refuses db_now now r d' adds adds')
    from hook_dispatch(2) have "core d' = core (hk_db w)"
      by (cases rule: dispatch_once_cases) (simp_all add: core_dispatch)
    then show ?thesis by (simp add: hook_dispatch(1) same)
  next
    case (hook_write n r res now rn x d' adds adds')
    from hook_write(3) have "core d' = core (hk_db w)"
      by (cases rule: webhook_write_db) simp_all
    then show ?thesis by (simp add: hook_write(1) same)
  qed simp_all
qed

lemma hook_reachable_core: "hook_reachable cfg wcfg hmac str w \<Longrightarrow> reachable cfg (core_sys (hk_sys w))"
proof (induction rule: hook_reachable.induct)
  case (hook_init t0)
  then show ?case by (simp add: hk_initial_def reach_init)
next
  case (hook_next w w')
  then show ?case using hook_step_core reach_step by metis
qed

text \<open>What a database keeps of an earlier one: its events, endpoints and deliveries, up to their marks.\<close>

definition extends :: "db \<Rightarrow> db \<Rightarrow> bool" where
  "extends d d' \<longleftrightarrow>
     (\<forall>e \<in> set (outbox d). \<exists>e' \<in> set (outbox d'). o_id e' = o_id e \<and> eventType e' = eventType e \<and> payload e' = payload e)
     \<and> (\<forall>ep \<in> set (webhookEndpoints d). \<exists>ep' \<in> set (webhookEndpoints d').
          w_id ep' = w_id ep \<and> url ep' = url ep \<and> secret ep' = secret ep)
     \<and> (\<forall>x \<in> set (webhookDeliveries d). \<exists>x' \<in> set (webhookDeliveries d').
          d_id x' = d_id x \<and> eventId x' = eventId x \<and> endpointId x' = endpointId x)"

lemma extends_refl [simp]: "extends d d"
  unfolding extends_def by blast

lemma extends_rows:
  assumes "set (outbox d) \<subseteq> set (outbox d')" "webhookEndpoints d' = webhookEndpoints d"
    and "set (webhookDeliveries d) \<subseteq> set (webhookDeliveries d')"
  shows "extends d d'"
  unfolding extends_def assms(2) using assms(1,3) by (intro conjI ballI) blast+

lemma extends_marked:
  assumes "outbox d' = poll_mark pend mark locked (outbox d)" "webhookEndpoints d' = webhookEndpoints d"
    and "set (webhookDeliveries d) \<subseteq> set (webhookDeliveries d')"
    and "\<And>e. o_id (mark e) = o_id e" "\<And>e. eventType (mark e) = eventType e" "\<And>e. payload (mark e) = payload e"
  shows "extends d d'"
proof -
  have "\<exists>e' \<in> set (outbox d'). o_id e' = o_id e \<and> eventType e' = eventType e \<and> payload e' = payload e"
    if e: "e \<in> set (outbox d)" for e
  proof (cases "o_id e \<in> o_id ` set (claim_rows pend locked (outbox d))")
    case True
    then have "mark e \<in> set (outbox d')" using e unfolding assms(1) poll_mark_def mark_rows_def in_update_where by blast
    then show ?thesis using assms(4-6) by blast
  next
    case False
    then have "e \<in> set (outbox d')" using e unfolding assms(1) poll_mark_def mark_rows_def in_update_where by blast
    then show ?thesis by blast
  qed
  then show ?thesis unfolding extends_def assms(2) using assms(3) by (intro conjI ballI) blast+
qed

lemma submit_tables:
  "submit su d = (r, d') \<Longrightarrow> set (outbox d) \<subseteq> set (outbox d') \<and> webhookEndpoints d' = webhookEndpoints d
    \<and> webhookDeliveries d' = webhookDeliveries d"
  unfolding submit_def by (drule insert_txn_atomic) (auto simp: submitted_db_def Let_def)

lemma reap_tables:
  "reap_once dl locked env d = (r, d', adds) \<Longrightarrow> webhookEndpoints d' = webhookEndpoints d
    \<and> webhookDeliveries d' = webhookDeliveries d"
  by (auto simp: reap_once_def dest!: reap_txn_Inr(2) split: sum.splits prod.splits)

lemma claim_tables:
  "claim_rest jd found env d = Inr d' \<Longrightarrow> webhookEndpoints d' = webhookEndpoints d
    \<and> webhookDeliveries d' = webhookDeliveries d"
  by (auto simp: claim_rest_def dest!: claim_cas_Inr split: option.splits if_splits)

lemma settle_tables:
  "settle cfg env jd dis d = (r, d', adds) \<Longrightarrow> webhookEndpoints d' = webhookEndpoints d
    \<and> webhookDeliveries d' = webhookDeliveries d"
  by (cases dis) (auto simp: settle_def dest!: retry_txn_Inr final_txn_Inr split: sum.splits prod.splits)

lemma sys_step_extends:
  assumes "sys_step cfg s s'"
  shows "extends (s_db s) (s_db s') \<and> webhookDeliveries (s_db s') = webhookDeliveries (s_db s)"
  using assms
proof cases
  case (step_submit su r d')
  then show ?thesis using submit_tables [OF step_submit(2)] by (auto intro: extends_rows)
next
  case (step_relay locked refuses fails now r d' adds)
  from relay_poll_db [OF step_relay(2)] consider "d' = s_db s"
    | "d' = (s_db s)\<lparr>outbox := poll_mark relay_pending (relay_mark now) locked (outbox (s_db s))\<rparr>"
    by (cases r) auto
  then show ?thesis
    by cases (auto simp: step_relay(1) intro!: extends_marked [where mark = "relay_mark now"] simp: relay_mark_def)
next
  case (step_reap dl locked env r d' adds adds')
  then show ?thesis using reap_tables [OF step_reap(2)] reap_outbox [OF step_reap(2)] by (auto intro: extends_rows)
next
  case (step_claim i jd found env d')
  then show ?thesis using claim_tables [OF step_claim(3)] claim_outbox [OF step_claim(3)] by (auto intro: extends_rows)
next
  case (step_settle i jd dis env r d' adds adds')
  then show ?thesis using settle_tables [OF step_settle(3)] settle_outbox [OF step_settle(3)]
    by (auto intro: extends_rows)
qed simp_all

subsection \<open>The delivery handler is a run of steps\<close>

lemma webhook_process_steps:
  assumes free: "hk_workers w n = Free" and j: "j \<in> set (hk_jobs w)"
    and p: "webhook_process wcfg hmac str fetch env (job_payload j) (hk_db w) = (x, d', adds, Some q)"
  shows "(hook_step cfg wcfg hmac str)\<^sup>*\<^sup>* w
    (set_hk_worker n Free (set_hk_db d' w)\<lparr>hk_jobs := hk_jobs w @ adds, hk_sent := hk_sent w @ [(q, fetch q)]\<rparr>)"
proof -
  from p obtain r ep where rd: "webhook_read (job_payload j) (hk_db w) = Inr (Some (r, ep))"
    and q: "q = webhook_request hmac str (ae_created env) (ae_now env) r ep"
    and wr: "webhook_write wcfg r (fetch q) (ae_write env) (ae_rnd env) (hk_db w) = (x, d', adds)"
    by (auto simp: webhook_process_def Let_def split: sum.splits option.splits prod.splits)
  let ?w1 = "set_hk_worker n (Posting r ep) w"
  let ?w2 = "set_hk_worker n (Answered r (fetch q)) ?w1\<lparr>hk_sent := hk_sent ?w1 @ [(q, fetch q)]\<rparr>"
  let ?w3 = "set_hk_worker n Free (set_hk_db d' ?w2)\<lparr>hk_jobs := hk_jobs ?w2 @ adds\<rparr>"
  have 1: "hook_step cfg wcfg hmac str w ?w1" by (rule hook_read [OF free j rd])
  have 2: "hook_step cfg wcfg hmac str ?w1 ?w2" by (rule hook_post [OF _ q]) simp
  have 3: "hook_step cfg wcfg hmac str ?w2 ?w3"
    by (rule hook_write [where r = r and res = "fetch q" and x = x and adds = adds]) (use wr in simp_all)
  have "?w3 = set_hk_worker n Free (set_hk_db d' w)\<lparr>hk_jobs := hk_jobs w @ adds, hk_sent := hk_sent w @ [(q, fetch q)]\<rparr>"
    by (simp add: set_hk_worker_def set_hk_db_def)
  with 1 2 3 show ?thesis by (metis (no_types, lifting) rtranclp.rtrancl_into_rtrancl rtranclp.rtrancl_refl)
qed

text \<open>Every state of the payment processes is one of all processes, before any webhook step.\<close>

definition unhooked :: "system \<Rightarrow> hooked" where
  "unhooked s = \<lparr>hk_sys = s, hk_jobs = [], hk_workers = (\<lambda>_. Free), hk_sent = []\<rparr>"

lemma reachable_unhooked: "reachable cfg s \<Longrightarrow> hook_reachable cfg wcfg hmac str (unhooked s)"
proof (induction rule: reachable.induct)
  case (reach_init t0)
  then show ?case using hook_init by (simp add: unhooked_def hk_initial_def)
next
  case (reach_step s s')
  have "hook_step cfg wcfg hmac str (unhooked s) (unhooked s\<lparr>hk_sys := s'\<rparr>)"
    by (rule hook_core) (simp add: unhooked_def reach_step.hyps(2))
  with reach_step.IH show ?case by (auto simp: unhooked_def intro: hook_next)
qed

text \<open>A deleted endpoint is one the worker still reads: it does not look at \<open>active\<close>.\<close>

lemma first_updated:
  assumes "first_row (select_where q t) = Some r" "\<And>r. q (f r) = q r"
  shows "first_row (select_where q (update_where q f t)) = Some (f r) \<and> first_row (returning q f t) = Some (f r)"
proof -
  obtain rs where rs: "select_where q t = r # rs" using assms(1) by (cases "select_where q t") auto
  then have "q r" by (auto simp: select_where_def dest: filter_eq_ConsD)
  moreover have "select_where q (update_where q f t) = update_where q f (select_where q t)"
    using assms(2) by (rule select_where_update_where)
  ultimately show ?thesis using rs by (simp add: update_where_def returning_def select_where_def)
qed

lemma webhook_read_deleted:
  assumes "webhook_read i d = Inr (Some (r, ep))"
  shows "\<exists>d'. delete_endpoint (w_id ep) d = (Inr (ep\<lparr>active := False\<rparr>), d')
    \<and> webhook_read i d' = Inr (Some (r, ep\<lparr>active := False\<rparr>))"
proof -
  have r: "first_row (select_where (\<lambda>r. d_id r = i) (webhookDeliveries d)) = Some r" "\<not> (d_status r = Delivered \<or> d_status r = Dead)"
    and ep: "first_row (select_where (\<lambda>e. w_id e = endpointId r) (webhookEndpoints d)) = Some ep"
    using assms by (auto simp: webhook_read_def split: option.splits if_splits)
  have i: "w_id ep = endpointId r" using first_row_Some_in [OF ep] by simp
  have u: "first_row (select_where (\<lambda>e. w_id e = endpointId r) (update_where (\<lambda>e. w_id e = endpointId r)
        (\<lambda>e. e\<lparr>active := False\<rparr>) (webhookEndpoints d))) = Some (ep\<lparr>active := False\<rparr>)
    \<and> first_row (returning (\<lambda>e. w_id e = endpointId r) (\<lambda>e. e\<lparr>active := False\<rparr>) (webhookEndpoints d))
      = Some (ep\<lparr>active := False\<rparr>)"
    by (rule first_updated [OF ep]) simp
  then obtain rest where "returning (\<lambda>e. w_id e = endpointId r) (\<lambda>e. e\<lparr>active := False\<rparr>) (webhookEndpoints d)
      = ep\<lparr>active := False\<rparr> # rest" by (auto simp: first_row_def split: list.splits)
  then show ?thesis using r u by (simp add: delete_endpoint_def i Let_def webhook_read_def)
qed

end
