(* ===== verification/WebhookTruth.thy ===== *)
theory WebhookTruth
  imports WebhookSystem
begin

text \<open>
  What endpoints are told, in every reachable state of all processes together: each request
  carries the signed payload of a terminal outbox row to the URL of a registered endpoint, and a
  delivery is marked delivered only after its endpoint has answered one with a success.
\<close>

subsection \<open>The facts about rows, requests and workers\<close>

definition has_event :: "db \<Rightarrow> webhook_delivery \<Rightarrow> bool" where
  "has_event d r \<longleftrightarrow> (\<exists>e \<in> set (outbox d). terminal_type (eventType e) \<and> o_id e = eventId r
     \<and> eventType e = d_eventType r \<and> payload e = d_payload r)"

definition same_row :: "db \<Rightarrow> webhook_delivery \<Rightarrow> bool" where
  "same_row d r \<longleftrightarrow> (\<exists>x \<in> set (webhookDeliveries d). d_id x = d_id r \<and> eventId x = eventId r \<and> endpointId x = endpointId r)"

definition target_of :: "db \<Rightarrow> string \<Rightarrow> string \<Rightarrow> string \<Rightarrow> bool" where
  "target_of d i u sec \<longleftrightarrow> (\<exists>ep \<in> set (webhookEndpoints d). w_id ep = i \<and> url ep = u \<and> secret ep = sec)"

definition announces :: "(string \<Rightarrow> string \<Rightarrow> string) \<Rightarrow> (envelope \<Rightarrow> string) \<Rightarrow> db \<Rightarrow> http_request \<Rightarrow> bool" where
  "announces hmac str d q \<longleftrightarrow> (\<exists>r i sec created. has_event d r \<and> target_of d i (hr_url q) sec
     \<and> hr_webhook_id q = eventId r
     \<and> hr_body q = str \<lparr>env_id = eventId r, env_type = d_eventType r, env_created = created, env_data = d_payload r\<rparr>
     \<and> hr_signature q = hmac sec (hr_timestamp q @ ''.'' @ hr_body q))"

definition accepted :: "(http_request \<times> fetch_result) list \<Rightarrow> string \<Rightarrow> string \<Rightarrow> bool" where
  "accepted sent ev u \<longleftrightarrow> (\<exists>(q, res) \<in> set sent. response_ok res \<and> hr_webhook_id q = ev \<and> hr_url q = u)"

definition was_accepted :: "db \<Rightarrow> (http_request \<times> fetch_result) list \<Rightarrow> webhook_delivery \<Rightarrow> bool" where
  "was_accepted d sent r \<longleftrightarrow> (\<exists>u sec. target_of d (endpointId r) u sec \<and> accepted sent (eventId r) u)"

fun delivery_pc_ok :: "db \<Rightarrow> (http_request \<times> fetch_result) list \<Rightarrow> delivery_pc \<Rightarrow> bool" where
  "delivery_pc_ok d sent Free = True"
| "delivery_pc_ok d sent (Posting r ep) =
     (has_event d r \<and> same_row d r \<and> target_of d (endpointId r) (url ep) (secret ep))"
| "delivery_pc_ok d sent (Answered r res) = (same_row d r \<and> (response_ok res \<longrightarrow> was_accepted d sent r))"

definition hook_inv :: "(string \<Rightarrow> string \<Rightarrow> string) \<Rightarrow> (envelope \<Rightarrow> string) \<Rightarrow> hooked \<Rightarrow> bool" where
  "hook_inv hmac str w \<longleftrightarrow>
     distinct (map d_id (webhookDeliveries (hk_db w)))
     \<and> (\<forall>r \<in> set (webhookDeliveries (hk_db w)). has_event (hk_db w) r
          \<and> (d_status r = Delivered \<longrightarrow> was_accepted (hk_db w) (hk_sent w) r))
     \<and> (\<forall>n. delivery_pc_ok (hk_db w) (hk_sent w) (hk_workers w n))
     \<and> (\<forall>(q, res) \<in> set (hk_sent w). announces hmac str (hk_db w) q)"

subsection \<open>They survive the growth of the database and of the log\<close>

lemma has_event_mono: "extends d d' \<Longrightarrow> has_event d r \<Longrightarrow> has_event d' r"
  unfolding extends_def has_event_def by metis

lemma same_row_mono: "extends d d' \<Longrightarrow> same_row d r \<Longrightarrow> same_row d' r"
  unfolding extends_def same_row_def by metis

lemma target_of_mono: "extends d d' \<Longrightarrow> target_of d i u sec \<Longrightarrow> target_of d' i u sec"
  unfolding extends_def target_of_def by metis

lemma announces_mono: "extends d d' \<Longrightarrow> announces hmac str d q \<Longrightarrow> announces hmac str d' q"
  unfolding announces_def using has_event_mono target_of_mono by blast

lemma was_accepted_mono:
  "extends d d' \<Longrightarrow> set sent \<subseteq> set sent' \<Longrightarrow> was_accepted d sent r \<Longrightarrow> was_accepted d' sent' r"
  unfolding was_accepted_def accepted_def using target_of_mono by blast

lemma delivery_pc_ok_mono:
  "extends d d' \<Longrightarrow> set sent \<subseteq> set sent' \<Longrightarrow> delivery_pc_ok d sent pc \<Longrightarrow> delivery_pc_ok d' sent' pc"
  by (cases pc) (auto simp: has_event_mono same_row_mono target_of_mono was_accepted_mono)

text \<open>
  What a step has to show: the database grows, the deliveries stay distinct and are old ones or
  justified, the one worker that moves is, and the requests it adds are.
\<close>

lemma hook_inv_next:
  assumes inv: "hook_inv hmac str w" and ext: "extends (hk_db w) (hk_db w')"
    and sent: "hk_sent w' = hk_sent w @ new" "\<forall>(q, res) \<in> set new. announces hmac str (hk_db w') q"
    and ids: "distinct (map d_id (webhookDeliveries (hk_db w')))"
    and rows: "\<And>r'. r' \<in> set (webhookDeliveries (hk_db w')) \<Longrightarrow> r' \<in> set (webhookDeliveries (hk_db w))
      \<or> (has_event (hk_db w') r' \<and> (d_status r' = Delivered \<longrightarrow> was_accepted (hk_db w') (hk_sent w') r'))"
    and pcs: "\<And>n. hk_workers w' n = hk_workers w n \<or> delivery_pc_ok (hk_db w') (hk_sent w') (hk_workers w' n)"
  shows "hook_inv hmac str w'"
proof -
  have sub: "set (hk_sent w) \<subseteq> set (hk_sent w')" using sent(1) by simp
  have r: "has_event (hk_db w') r' \<and> (d_status r' = Delivered \<longrightarrow> was_accepted (hk_db w') (hk_sent w') r')"
    if "r' \<in> set (webhookDeliveries (hk_db w'))" for r'
    using rows [OF that] inv has_event_mono [OF ext] was_accepted_mono [OF ext sub] unfolding hook_inv_def by blast
  have p: "delivery_pc_ok (hk_db w') (hk_sent w') (hk_workers w' n)" for n
    using pcs [of n] inv delivery_pc_ok_mono [OF ext sub] unfolding hook_inv_def by metis
  have q: "\<forall>(q, res) \<in> set (hk_sent w'). announces hmac str (hk_db w') q"
    using sent inv announces_mono [OF ext] unfolding hook_inv_def by fastforce
  from r p q ids show ?thesis unfolding hook_inv_def by blast
qed

lemma hook_inv_quiet:
  assumes "hook_inv hmac str w" "extends (hk_db w) (hk_db w')"
    and "webhookDeliveries (hk_db w') = webhookDeliveries (hk_db w)"
    and "hk_sent w' = hk_sent w" "hk_workers w' = hk_workers w"
  shows "hook_inv hmac str w'"
  by (rule hook_inv_next [OF assms(1,2), where new = "[]"]) (use assms in \<open>auto simp: hook_inv_def\<close>)

subsection \<open>Every step keeps them\<close>

lemma has_event_new:
  assumes "e \<in> set (claim_rows dispatch_pending locked (outbox d))"
  shows "has_event d (new_delivery fresh now e ep)"
  using claim_rows_in [OF assms]
  by (auto simp: has_event_def new_delivery_def dispatch_pending_def terminal_type_def)

lemma extends_create:
  "extends d (d\<lparr>webhookEndpoints := webhookEndpoints d @ eps\<rparr>)"
  unfolding extends_def by (intro conjI ballI) auto

lemma extends_delete:
  "extends d (d\<lparr>webhookEndpoints := update_where P (\<lambda>r. r\<lparr>active := False\<rparr>) (webhookEndpoints d)\<rparr>)"
proof -
  have "\<exists>ep' \<in> set (update_where P (\<lambda>r. r\<lparr>active := False\<rparr>) t). w_id ep' = w_id ep \<and> url ep' = url ep \<and> secret ep' = secret ep"
    if "ep \<in> set t" for ep t
    using that by (induction t) (auto simp: update_where_def)
  then show ?thesis unfolding extends_def by (intro conjI ballI) auto
qed

lemma extends_write:
  assumes "\<And>y. d_id (f y) = d_id y" "\<And>y. endpointId (f y) = endpointId y" "\<And>y. eventId (f y) = eventId y"
  shows "extends d (set_delivery i f d)"
proof -
  have "\<exists>x' \<in> set (update_where P f t). d_id x' = d_id x \<and> eventId x' = eventId x \<and> endpointId x' = endpointId x"
    if "x \<in> set t" for x t P
    using that assms by (induction t) (auto simp: update_where_def)
  then show ?thesis unfolding extends_def set_delivery_def by (intro conjI ballI) auto
qed

lemma extends_dispatch:
  assumes "dispatch_txn locked fresh db_now now d = Inr (rows, d')"
  shows "extends d d'"
  by (rule extends_marked [where pend = dispatch_pending and mark = "dispatch_mark now" and locked = locked])
    (simp_all add: dispatch_txn_Inr(2) [OF assms] dispatch_mark_def)

lemma hook_inv_step:
  assumes inv: "hook_inv hmac str w" and st: "hook_step cfg wcfg hmac str w w'"
  shows "hook_inv hmac str w'"
  using st
proof cases
  case (hook_core s')
  then show ?thesis using sys_step_extends [OF hook_core(2)] by (intro hook_inv_quiet [OF inv]) auto
next
  case (hook_create is_url fs i sec now r d')
  from hook_create(2) show ?thesis
    by (cases rule: create_endpoint_db)
      (auto simp: hook_create(1) extends_create intro!: hook_inv_quiet [OF inv])
next
  case (hook_delete i r d')
  from delete_endpoint_db [OF hook_delete(2)] show ?thesis
    by (auto simp: hook_delete(1) extends_delete intro!: hook_inv_quiet [OF inv])
next
  case (hook_dispatch locked fresh refuses db_now now r d' adds adds')
  from hook_dispatch(2) show ?thesis
  proof (cases rule: dispatch_once_cases)
    case rolled_back
    then show ?thesis by (intro hook_inv_quiet [OF inv]) (simp_all add: hook_dispatch(1))
  next
    case (committed rows)
    note d' = dispatch_txn_Inr [OF committed(1)]
    have ext: "extends (hk_db w) d'" by (rule extends_dispatch [OF committed(1)])
    have new: "has_event d' r \<and> d_status r \<noteq> Delivered" if "r \<in> set rows" for r
    proof -
      from that obtain e ep where "e \<in> set (claim_rows dispatch_pending locked (outbox (hk_db w)))"
        "r = new_delivery fresh db_now e ep"
        unfolding d'(1) in_delivery_batch by blast
      then show ?thesis using has_event_mono [OF ext has_event_new] by (simp add: new_delivery_def)
    qed
    have "distinct (map d_id (webhookDeliveries d'))"
      using dispatch_txn_ids [OF committed(1)] inv by (simp add: hook_inv_def)
    then show ?thesis using ext new
      by (intro hook_inv_next [OF inv, where new = "[]"]) (auto simp: hook_dispatch(1) d'(2))
  qed
next
  case (hook_read n j r ep)
  have r: "r \<in> set (webhookDeliveries (hk_db w))" "ep \<in> set (webhookEndpoints (hk_db w))" "w_id ep = endpointId r"
    using hook_read(4) by (auto simp: webhook_read_def dest: first_row_Some_in split: option.splits if_splits)
  then have "delivery_pc_ok (hk_db w) (hk_sent w) (Posting r ep)"
    using inv by (auto simp: hook_inv_def same_row_def target_of_def)
  then show ?thesis using inv by (intro hook_inv_next [OF inv, where new = "[]"]) (auto simp: hook_read(1) hook_inv_def)
next
  case (hook_post n r ep q created now res)
  have ok: "has_event (hk_db w) r" "same_row (hk_db w) r" "target_of (hk_db w) (endpointId r) (url ep) (secret ep)"
    using inv hook_post(2) unfolding hook_inv_def by (metis delivery_pc_ok.simps(2))+
  have q: "hr_url q = url ep" "hr_webhook_id q = eventId r"
    "hr_body q = str \<lparr>env_id = eventId r, env_type = d_eventType r, env_created = created, env_data = d_payload r\<rparr>"
    "hr_signature q = hmac (secret ep) (hr_timestamp q @ ''.'' @ hr_body q)"
    by (simp_all add: hook_post(3) webhook_request_def Let_def)
  have an: "announces hmac str (hk_db w) q"
    unfolding announces_def using ok(1,3) q by metis
  have "was_accepted (hk_db w) (hk_sent w @ [(q, res)]) r" if "response_ok res"
    using ok(3) q(1,2) that unfolding was_accepted_def accepted_def by auto
  then show ?thesis using an ok(2) inv
    by (intro hook_inv_next [OF inv, where new = "[(q, res)]"]) (auto simp: hook_post(1) hook_inv_def)
next
  case (hook_write n r res now rn x d' adds adds')
  have ok: "same_row (hk_db w) r" "response_ok res \<longrightarrow> was_accepted (hk_db w) (hk_sent w) r"
    using inv hook_write(2) unfolding hook_inv_def by (metis delivery_pc_ok.simps(3))+
  from hook_write(3) show ?thesis
  proof (cases rule: webhook_write_db)
    case unchanged
    then show ?thesis using inv
      by (intro hook_inv_next [OF inv, where new = "[]"]) (auto simp: hook_write(1) hook_inv_def)
  next
    case (updated f)
    have ext: "extends (hk_db w) d'" unfolding updated(1) by (rule extends_write [OF updated(2-4)])
    obtain x0 where x0: "x0 \<in> set (webhookDeliveries (hk_db w))" "d_id x0 = d_id r" "eventId x0 = eventId r"
      "endpointId x0 = endpointId r" using ok(1) by (auto simp: same_row_def)
    have row: "r' \<in> set (webhookDeliveries (hk_db w))
        \<or> (has_event d' r' \<and> (d_status r' = Delivered \<longrightarrow> was_accepted d' (hk_sent w) r'))"
      if r': "r' \<in> set (webhookDeliveries d')" for r'
    proof -
      from r' have "(\<exists>y \<in> set (webhookDeliveries (hk_db w)). d_id y = d_id r \<and> r' = f y)
          \<or> r' \<in> set (webhookDeliveries (hk_db w))"
        unfolding updated(1) set_delivery_def by (auto simp: in_update_where)
      then show ?thesis
      proof (elim disjE bexE conjE)
        fix y
        assume y: "y \<in> set (webhookDeliveries (hk_db w))" "d_id y = d_id r" "r' = f y"
        have "y = x0" using distinct_key_unique [of d_id, OF _ y(1) x0(1)] inv y(2) x0(2) by (simp add: hook_inv_def)
        have "has_event (hk_db w) y" using inv y(1) by (simp add: hook_inv_def)
        then have he: "has_event d' r'" using has_event_mono [OF ext] y(3) updated(4-6) by (simp add: has_event_def)
        have "was_accepted d' (hk_sent w) r'" if "d_status r' = Delivered"
        proof -
          have "was_accepted (hk_db w) (hk_sent w) r" using ok(2) updated(7) that y(3) by blast
          then have "was_accepted d' (hk_sent w) r" by (rule was_accepted_mono [OF ext subset_refl])
          then show ?thesis using \<open>y = x0\<close> x0(3,4) y(3) updated(3,4) by (simp add: was_accepted_def)
        qed
        with he show ?thesis by blast
      qed blast
    qed
    have "distinct (map d_id (webhookDeliveries d'))"
      using inv by (simp add: updated(1) set_delivery_def map_update_where updated(2) hook_inv_def)
    then show ?thesis using ext row
      by (intro hook_inv_next [OF inv, where new = "[]"]) (auto simp: hook_write(1))
  qed
next
  case (hook_crash n)
  then show ?thesis using inv by (intro hook_inv_next [OF inv, where new = "[]"]) (auto simp: hook_inv_def)
next
  case (hook_reap adds' deadline now locked)
  then show ?thesis by (intro hook_inv_quiet [OF inv]) auto
qed

lemma reachable_hook_inv: "hook_reachable cfg wcfg hmac str w \<Longrightarrow> hook_inv hmac str w"
proof (induction rule: hook_reachable.induct)
  case (hook_init t0)
  then show ?case by (simp add: hook_inv_def hk_initial_def initial_def empty_db_def)
qed (rule hook_inv_step)

text \<open>The payment an event of the full database is about.\<close>

lemma hook_event_payment:
  assumes "hook_reachable cfg wcfg hmac str w" "has_event (hk_db w) r"
  shows "\<exists>p \<in> set (payments (hk_db w)). p_id p = jd_paymentId (d_payload r)
    \<and> amountCents p = jd_amountCents (d_payload r) \<and> currency p = jd_currency (d_payload r)
    \<and> jd_status (d_payload r) = Some (status p) \<and> status p = type_status (d_eventType r)
    \<and> (status p = COMPLETED \<longrightarrow> p_id p \<in> charged (hk_sys w))"
proof -
  from assms(2) obtain e where e: "e \<in> set (outbox (hk_db w))" "terminal_type (eventType e)"
    "eventType e = d_eventType r" "payload e = d_payload r" by (auto simp: has_event_def)
  have "undispatched e \<in> set (outbox (s_db (core_sys (hk_sys w))))" using e(1) by simp
  from reachable_announcement [OF hook_reachable_core [OF assms(1)] this] e(2-4) show ?thesis by simp
qed

end
