(* ===== verification/QueuedWebhooks.thy ===== *)
theory QueuedWebhooks
  imports JobQueue WebhookTruth
begin

text \<open>
  The webhook processes over a job store, as \<open>QueuedSystem\<close> has the payment processes. The webhooks
  queue removes its settled jobs, and the delivery reaper adds again the job a delivery should have,
  under the id that job had. Shown: every run is a run of \<open>WebhookSystem\<close>, and in every reachable
  state an open delivery can still be delivered: a lost or failed job never blocks its successor.
\<close>

type_synonym 'q delivery_store = "(string, 'q) job_store"

record 'q hooks =
  h_hk :: hooked
  h_store :: 'q
  h_held :: "nat \<Rightarrow> string option"

definition h_initial :: "'q delivery_store \<Rightarrow> int \<Rightarrow> 'q hooks" where
  "h_initial W t0 = \<lparr>h_hk = hk_initial t0, h_store = js_empty W, h_held = (\<lambda>_. None)\<rparr>"

abbreviation h_db :: "'q hooks \<Rightarrow> db" where
  "h_db l \<equiv> hk_db (h_hk l)"

abbreviation h_find :: "'q delivery_store \<Rightarrow> 'q hooks \<Rightarrow> string job_map" where
  "h_find W l \<equiv> js_find W (h_store l)"

definition h_adds :: "'q delivery_store \<Rightarrow> db \<Rightarrow> string job list \<Rightarrow> 'q hooks \<Rightarrow> 'q hooks" where
  "h_adds W d adds l =
     l\<lparr>h_hk := set_hk_db d (h_hk l)\<lparr>hk_jobs := hk_jobs (h_hk l) @ adds\<rparr>,
       h_store := fold (js_add W) adds (h_store l)\<rparr>"

definition h_free :: "nat \<Rightarrow> 'q hooks \<Rightarrow> 'q hooks" where
  "h_free n l = l\<lparr>h_hk := set_hk_worker n Free (h_hk l), h_held := (h_held l)(n := None)\<rparr>"

definition h_finish :: "'q delivery_store \<Rightarrow> nat \<Rightarrow> string \<Rightarrow> bool \<Rightarrow> 'q hooks \<Rightarrow> 'q hooks" where
  "h_finish W n k ok l = h_free n (l\<lparr>h_store := js_finish W n k ok (h_store l)\<rparr>)"

text \<open>A step that adds no job and starts or ends no attempt.\<close>

definition quiet_hook :: "processor_config \<Rightarrow> webhook_config \<Rightarrow> (string \<Rightarrow> string \<Rightarrow> string)
  \<Rightarrow> (envelope \<Rightarrow> string) \<Rightarrow> hooked \<Rightarrow> hooked \<Rightarrow> bool" where
  "quiet_hook cfg wcfg hmac str w w' \<longleftrightarrow> hook_step cfg wcfg hmac str w w' \<and> hk_jobs w' = hk_jobs w
     \<and> (\<forall>n. hk_workers w' n = Free \<longleftrightarrow> hk_workers w n = Free)"

text \<open>
  A handler that finds nothing to do returns at once (\<open>hq_skip\<close>); one whose queries fail, or whose
  endpoint is missing, throws (\<open>hq_refuse\<close>).
\<close>

inductive hq_step :: "'q delivery_store \<Rightarrow> processor_config \<Rightarrow> webhook_config \<Rightarrow> (string \<Rightarrow> string \<Rightarrow> string)
  \<Rightarrow> (envelope \<Rightarrow> string) \<Rightarrow> 'q hooks \<Rightarrow> 'q hooks \<Rightarrow> bool" for W cfg wcfg hmac str where
  hq_quiet: "quiet_hook cfg wcfg hmac str (h_hk l) w' \<Longrightarrow> hq_step W cfg wcfg hmac str l (l\<lparr>h_hk := w'\<rparr>)"
| hq_dispatch: "dispatch_poll_once locked fresh refuses db_now now (h_db l) = (r, d', adds) \<Longrightarrow>
    set adds' \<subseteq> set adds \<Longrightarrow> hq_step W cfg wcfg hmac str l (h_adds W d' adds' l)"
| hq_reap: "set adds' \<subseteq> set (webhook_reap_once deadline locked now (h_db l)) \<Longrightarrow>
    hq_step W cfg wcfg hmac str l (h_adds W (h_db l) adds' l)"
| hq_read: "hk_workers (h_hk l) n = Free \<Longrightarrow> h_find W l k = Some e \<Longrightarrow> en_state e = Queued \<Longrightarrow>
    webhook_read (job_payload (en_job e)) (h_db l) = Inr (Some (r, ep)) \<Longrightarrow>
    hq_step W cfg wcfg hmac str l (l\<lparr>h_hk := set_hk_worker n (Posting r ep) (h_hk l),
      h_store := js_take W n k (h_store l), h_held := (h_held l)(n \<mapsto> k)\<rparr>)"
| hq_skip: "hk_workers (h_hk l) n = Free \<Longrightarrow> h_find W l k = Some e \<Longrightarrow> en_state e = Queued \<Longrightarrow>
    webhook_read (job_payload (en_job e)) (h_db l) = Inr None \<Longrightarrow>
    hq_step W cfg wcfg hmac str l (l\<lparr>h_store := js_finish W n k True (js_take W n k (h_store l))\<rparr>)"
| hq_refuse: "hk_workers (h_hk l) n = Free \<Longrightarrow> h_find W l k = Some e \<Longrightarrow> en_state e = Queued \<Longrightarrow>
    hq_step W cfg wcfg hmac str l (l\<lparr>h_store := js_finish W n k False (js_take W n k (h_store l))\<rparr>)"
| hq_write: "hk_workers (h_hk l) n = Answered r res \<Longrightarrow> h_held l n = Some k \<Longrightarrow>
    webhook_write wcfg r res now rn (h_db l) = (Inr (), d', adds) \<Longrightarrow>
    hq_step W cfg wcfg hmac str l (h_finish W n k True (h_adds W d' adds l))"
| hq_write_throws: "hk_workers (h_hk l) n = Answered r res \<Longrightarrow> h_held l n = Some k \<Longrightarrow>
    webhook_write wcfg r res now rn (h_db l) = (x, d', adds) \<Longrightarrow>
    hq_step W cfg wcfg hmac str l (h_finish W n k False (h_adds W d' [] l))"
| hq_throw: "h_held l n = Some k \<Longrightarrow> hq_step W cfg wcfg hmac str l (h_finish W n k False l)"
| hq_crash: "hq_step W cfg wcfg hmac str l (h_free n l)"
| hq_stall: "hq_step W cfg wcfg hmac str l (l\<lparr>h_store := js_stall W k (h_store l)\<rparr>)"

inductive hq_reachable :: "'q delivery_store \<Rightarrow> processor_config \<Rightarrow> webhook_config \<Rightarrow> (string \<Rightarrow> string \<Rightarrow> string)
  \<Rightarrow> (envelope \<Rightarrow> string) \<Rightarrow> 'q hooks \<Rightarrow> bool" for W cfg wcfg hmac str where
  hq_init: "hq_reachable W cfg wcfg hmac str (h_initial W t0)"
| hq_next: "hq_reachable W cfg wcfg hmac str l \<Longrightarrow> hq_step W cfg wcfg hmac str l l' \<Longrightarrow>
    hq_reachable W cfg wcfg hmac str l'"

inductive_cases hq_stepE: "hq_step W cfg wcfg hmac str l l'"

lemma h_adds_simps [simp]:
  "h_hk (h_adds W d adds l) = set_hk_db d (h_hk l)\<lparr>hk_jobs := hk_jobs (h_hk l) @ adds\<rparr>"
  "h_store (h_adds W d adds l) = fold (js_add W) adds (h_store l)" "h_held (h_adds W d adds l) = h_held l"
  by (simp_all add: h_adds_def)

lemma h_free_simps [simp]:
  "h_hk (h_free n l) = set_hk_worker n Free (h_hk l)" "h_store (h_free n l) = h_store l"
  "h_held (h_free n l) = (h_held l)(n := None)"
  by (simp_all add: h_free_def)

lemma h_finish_simps [simp]:
  "h_hk (h_finish W n k ok l) = set_hk_worker n Free (h_hk l)"
  "h_store (h_finish W n k ok l) = js_finish W n k ok (h_store l)"
  "h_held (h_finish W n k ok l) = (h_held l)(n := None)"
  by (simp_all add: h_finish_def)

lemma set_hk_worker_jobs [simp]:
  "set_hk_worker n pc (w\<lparr>hk_jobs := js\<rparr>) = set_hk_worker n pc w\<lparr>hk_jobs := js\<rparr>"
  by (cases w) (simp add: set_hk_worker_def)

lemma steps_hq_reachable:
  "(hq_step W cfg wcfg hmac str)\<^sup>*\<^sup>* l l' \<Longrightarrow> hq_reachable W cfg wcfg hmac str l \<Longrightarrow> hq_reachable W cfg wcfg hmac str l'"
  by (induction rule: rtranclp_induct) (auto intro: hq_next)

subsection \<open>Every run is a run of the webhook system\<close>

definition delivery_store_ok :: "'q delivery_store \<Rightarrow> 'q hooks \<Rightarrow> bool" where
  "delivery_store_ok W l \<longleftrightarrow> holds_only (hk_jobs (h_hk l)) (h_find W l) \<and> unsettled (h_find W l)"

locale webhooks_queue = bull_queue W "queue_options WEBHOOKS_QUEUE" mx
  for W :: "(string, 'q) job_store" and mx :: nat
begin

lemma delivery_store_ok_step:
  assumes "delivery_store_ok W l" "hq_step W cfg wcfg hmac str l l'"
  shows "delivery_store_ok W l'"
  using assms(2)
proof cases
  case (hq_quiet w')
  with assms(1) show ?thesis by (simp add: delivery_store_ok_def quiet_hook_def)
qed (use assms(1) in \<open>auto simp: delivery_store_ok_def find_take find_stall find_finish find_adds\<close>)

lemma hq_store_ok: "hq_reachable W cfg wcfg hmac str l \<Longrightarrow> delivery_store_ok W l"
proof (induction rule: hq_reachable.induct)
  case (hq_init t0)
  show ?case by (simp add: delivery_store_ok_def h_initial_def find_empty)
qed (use delivery_store_ok_step in blast)

lemma hq_step_hook:
  assumes "delivery_store_ok W l" "hq_step W cfg wcfg hmac str l l'"
  shows "(hook_step cfg wcfg hmac str)\<^sup>*\<^sup>* (h_hk l) (h_hk l')"
  using assms(2)
proof cases
  case (hq_quiet w')
  then show ?thesis by (auto simp: quiet_hook_def)
next
  case (hq_dispatch locked fresh refuses db_now now r d' adds adds')
  from hook_step.hook_dispatch [OF hq_dispatch(2,3)] show ?thesis by (simp add: hq_dispatch(1) r_into_rtranclp)
next
  case (hq_reap adds' deadline locked now)
  from hook_step.hook_reap [OF hq_reap(2)] show ?thesis
    by (simp add: hq_reap(1) set_hk_db_def r_into_rtranclp)
next
  case (hq_read n k e r ep)
  have "en_job e \<in> set (hk_jobs (h_hk l))"
    using holds_onlyD [of _ "h_find W l" k e] hq_read(3) assms(1) by (simp add: delivery_store_ok_def)
  from hook_step.hook_read [OF hq_read(2) this hq_read(5)] show ?thesis by (simp add: hq_read(1) r_into_rtranclp)
next
  case (hq_write n r res k now rn d' adds)
  from hook_step.hook_write [OF hq_write(2,4), of adds] show ?thesis
    by (simp add: hq_write(1) r_into_rtranclp)
next
  case (hq_write_throws n r res k now rn x d' adds)
  from hook_step.hook_write [OF hq_write_throws(2,4), of "[]"] show ?thesis
    by (simp add: hq_write_throws(1) r_into_rtranclp)
next
  case (hq_throw n k)
  then show ?thesis by (auto intro: r_into_rtranclp hook_step.hook_crash)
next
  case (hq_crash n)
  then show ?thesis by (auto intro: r_into_rtranclp hook_step.hook_crash)
qed simp_all

lemma hq_hook_reachable: "hq_reachable W cfg wcfg hmac str l \<Longrightarrow> hook_reachable cfg wcfg hmac str (h_hk l)"
proof (induction rule: hq_reachable.induct)
  case (hq_init t0)
  show ?case by (simp add: h_initial_def hook_init)
next
  case (hq_next l l')
  have "(hook_step cfg wcfg hmac str)\<^sup>*\<^sup>* (h_hk l) (h_hk l')"
    using hq_step_hook [OF hq_store_ok [OF hq_next(1)] hq_next(2)] .
  then show ?case using hq_next.IH by (induction rule: rtranclp_induct) (auto intro: hook_reachable.hook_next)
qed

end

subsection \<open>A delivery keeps its endpoint\<close>

definition endpoints_known :: "db \<Rightarrow> bool" where
  "endpoints_known d \<longleftrightarrow> (\<forall>r \<in> set (webhookDeliveries d). endpoint_known r d)"

lemma endpoint_known_extends: "extends d d' \<Longrightarrow> endpoint_known r d \<Longrightarrow> endpoint_known r d'"
  unfolding extends_def endpoint_known_def by (metis (no_types, lifting) image_iff)

lemma endpoints_known_extends:
  assumes "endpoints_known d" "extends d d'"
    and "\<And>r'. r' \<in> set (webhookDeliveries d') \<Longrightarrow> (\<exists>r \<in> set (webhookDeliveries d). endpointId r = endpointId r')
      \<or> endpoint_known r' d"
  shows "endpoints_known d'"
  unfolding endpoints_known_def
proof
  fix r' assume "r' \<in> set (webhookDeliveries d')"
  from assms(3) [OF this] have "endpoint_known r' d"
    using assms(1) unfolding endpoints_known_def endpoint_known_def by metis
  with assms(2) show "endpoint_known r' d'" by (rule endpoint_known_extends)
qed

lemma endpoints_known_step:
  assumes known: "endpoints_known (hk_db w)" and st: "hook_step cfg wcfg hmac str w w'"
  shows "endpoints_known (hk_db w')"
  using st
proof cases
  case (hook_core s')
  with sys_step_extends [OF hook_core(2)] show ?thesis by (intro endpoints_known_extends [OF known]) auto
next
  case (hook_create is_url fs i sec now r d')
  from hook_create(2) show ?thesis
    by (cases rule: create_endpoint_db) (use known hook_create(1) in \<open>auto simp: endpoints_known_def endpoint_known_def\<close>)
next
  case (hook_delete i r d')
  note d' = delete_endpoint_db [OF hook_delete(2)]
  show ?thesis unfolding hook_delete(1)
    by (rule endpoints_known_extends [OF known]) (auto simp: d' extends_delete)
next
  case (hook_dispatch locked fresh refuses db_now now r d' adds adds')
  from hook_dispatch(2) show ?thesis
  proof (cases rule: dispatch_once_cases)
    case (committed rows)
    note d' = dispatch_txn_Inr [OF committed(1)]
    have "endpoint_known x (hk_db w)" if "x \<in> set rows" for x
      using that unfolding d'(1) by (auto simp: delivery_batch_def new_delivery_def endpoint_known_def select_where_def)
    then show ?thesis using known
      by (auto simp: hook_dispatch(1) d'(2) endpoints_known_def endpoint_known_def)
  qed (use known hook_dispatch(1) in simp)
next
  case (hook_write n r res now rn x d' adds adds')
  from hook_write(3) show ?thesis
    by (cases rule: webhook_write_db)
      (use known hook_write(1) in \<open>auto simp: endpoints_known_def endpoint_known_def set_delivery_def in_update_where\<close>)
qed (use known in simp_all)

lemma reachable_endpoints_known: "hook_reachable cfg wcfg hmac str w \<Longrightarrow> endpoints_known (hk_db w)"
proof (induction rule: hook_reachable.induct)
  case (hook_init t0)
  show ?case by (simp add: endpoints_known_def hk_initial_def initial_def empty_db_def)
qed (use endpoints_known_step in blast)

subsection \<open>Every open delivery can be delivered\<close>

definition open_delivery :: "webhook_delivery \<Rightarrow> bool" where
  "open_delivery r \<longleftrightarrow> d_status r \<in> {Pending, Failed}"

definition deliverable :: "'q delivery_store \<Rightarrow> processor_config \<Rightarrow> webhook_config \<Rightarrow> (string \<Rightarrow> string \<Rightarrow> string)
  \<Rightarrow> (envelope \<Rightarrow> string) \<Rightarrow> 'q hooks \<Rightarrow> string \<Rightarrow> bool" where
  "deliverable W cfg wcfg hmac str l i \<longleftrightarrow> (\<exists>l' r. (hq_step W cfg wcfg hmac str)\<^sup>*\<^sup>* l l'
     \<and> r \<in> set (webhookDeliveries (h_db l')) \<and> d_id r = i \<and> d_status r = Delivered)"

text \<open>A pass of the reaper late enough to find the delivery due, with every other row locked.\<close>

lemma webhook_reap_one:
  assumes "distinct (map d_id (webhookDeliveries d))" "r \<in> set (webhookDeliveries d)" "open_delivery r"
  obtains now where "webhook_reap_once 0 (- {d_id r}) now d = [reaped_delivery_job r]"
proof -
  define now where "now = (case nextAttemptAt r of Some t \<Rightarrow> t | None \<Rightarrow> d_createdAt r) + 1"
  let ?sel = "select_where (\<lambda>x. delivery_stuck 0 now x \<and> d_id x \<notin> - {d_id r}) (webhookDeliveries d)"
  have "delivery_stuck 0 now r" using assms(3) by (simp add: delivery_stuck_def open_delivery_def now_def)
  then have "set ?sel = {r}" using assms(2) distinct_key_unique [OF assms(1) _ assms(2)] by auto
  moreover have "distinct ?sel" using assms(1) by (simp add: select_where_def distinct_map)
  ultimately have "?sel = [r]" by (rule singleton_list)
  then have "webhook_reap_once 0 (- {d_id r}) now d = [reaped_delivery_job r]"
    by (simp add: webhook_reap_once_def limit_def)
  then show thesis by (rule that)
qed

context webhooks_queue
begin

text \<open>Whatever holds an id can be cleared away without touching the database.\<close>

lemma clear_queued:
  assumes "h_find W l k = Some e" "en_state e = Queued"
  obtains l' where "(hq_step W cfg wcfg hmac str)\<^sup>*\<^sup>* l l'" "h_db l' = h_db l" "h_find W l' k = None"
proof -
  let ?l1 = "h_free 0 l"
  let ?l2 = "?l1\<lparr>h_store := js_finish W 0 k False (js_take W 0 k (h_store ?l1))\<rparr>"
  have "hq_step W cfg wcfg hmac str l ?l1" by (rule hq_crash)
  moreover have "hq_step W cfg wcfg hmac str ?l1 ?l2" using assms by (intro hq_refuse) simp_all
  moreover have "h_find W ?l2 k = None"
    using assms by (simp add: find_finish find_take job_map_defs queue_options_simps)
  ultimately show thesis by (intro that [of ?l2]) auto
qed

lemma clear_id:
  assumes "delivery_store_ok W l"
  obtains l' where "(hq_step W cfg wcfg hmac str)\<^sup>*\<^sup>* l l'" "h_db l' = h_db l" "h_find W l' k = None"
proof (cases "h_find W l k")
  case None
  then show thesis by (intro that [of l]) simp_all
next
  case (Some e)
  show thesis
  proof (cases "en_state e = Queued")
    case True
    from clear_queued [OF Some True] that show thesis by blast
  next
    case False
    then have a: "is_active (en_state e)" using assms Some by (auto simp: delivery_store_ok_def unsettled_def)
    let ?l1 = "l\<lparr>h_store := js_stall W k (h_store l)\<rparr>"
    have 1: "hq_step W cfg wcfg hmac str l ?l1" by (rule hq_stall)
    show thesis
    proof (cases "en_stalls e < mx")
      case True
      let ?e = "e\<lparr>en_state := Queued, en_stalls := en_stalls e + 1\<rparr>"
      have "h_find W ?l1 k = Some ?e" using a True Some by (simp add: find_stall map_stall_def)
      moreover have "en_state ?e = Queued" by simp
      ultimately obtain l' where "(hq_step W cfg wcfg hmac str)\<^sup>*\<^sup>* ?l1 l'" "h_db l' = h_db ?l1"
        "h_find W l' k = None" by (rule clear_queued)
      with 1 show thesis by (intro that [of l']) (auto intro: converse_rtranclp_into_rtranclp)
    next
      case False
      then have "h_find W ?l1 k = None"
        using a Some by (simp add: find_stall map_stall_def settled_entry_def queue_options_simps)
      with 1 show thesis by (intro that [of ?l1]) auto
    qed
  qed
qed

text \<open>A queued job of an open delivery, a free worker and an endpoint that answers with a success.\<close>

lemma deliver_queued:
  assumes e: "h_find W l k = Some e" "en_state e = Queued" "job_payload (en_job e) = d_id r"
    and read: "webhook_read (d_id r) (h_db l) = Inr (Some (r, ep))" and r: "r \<in> set (webhookDeliveries (h_db l))"
  shows "deliverable W cfg wcfg hmac str l (d_id r)"
proof -
  define l1 where "l1 = h_free 0 l"
  define l2 where "l2 = l1\<lparr>h_hk := set_hk_worker 0 (Posting r ep) (h_hk l1), h_store := js_take W 0 k (h_store l1),
      h_held := (h_held l1)(0 \<mapsto> k)\<rparr>"
  define q where "q = webhook_request hmac str 0 0 r ep"
  define w3 where "w3 = set_hk_worker 0 (Answered r (Response 200)) (h_hk l2)\<lparr>hk_sent := hk_sent (h_hk l2) @ [(q, Response 200)]\<rparr>"
  define l3 where "l3 = l2\<lparr>h_hk := w3\<rparr>"
  define d' where "d' = set_delivery (d_id r)
      (\<lambda>x. x\<lparr>d_status := Delivered, deliveredAt := Some 0, attempts := attempts x + 1\<rparr>) (h_db l)"
  define l4 where "l4 = h_finish W 0 k True (h_adds W d' [] l3)"
  have 1: "hq_step W cfg wcfg hmac str l l1" unfolding l1_def by (rule hq_crash)
  have 2: "hq_step W cfg wcfg hmac str l1 l2" unfolding l2_def
    by (rule hq_read [where e = e]) (use e(1,2) read in \<open>simp_all add: l1_def e(3)\<close>)
  have "hook_step cfg wcfg hmac str (h_hk l2) w3" unfolding w3_def
    by (rule hook_post) (simp_all add: l2_def q_def)
  then have "quiet_hook cfg wcfg hmac str (h_hk l2) w3" by (auto simp: quiet_hook_def w3_def l2_def)
  then have 3: "hq_step W cfg wcfg hmac str l2 l3" unfolding l3_def by (rule hq_quiet)
  have db3: "h_db l3 = h_db l" by (simp add: l3_def w3_def l2_def l1_def)
  have "webhook_write wcfg r (Response 200) 0 0 (h_db l3) = (Inr (), d', [])"
    by (simp add: webhook_write_def db3 d'_def)
  then have 4: "hq_step W cfg wcfg hmac str l3 l4" unfolding l4_def
    by (intro hq_write [where r = r and res = "Response 200"]) (simp_all add: l3_def w3_def l2_def)
  have "r\<lparr>d_status := Delivered, deliveredAt := Some 0, attempts := attempts r + 1\<rparr> \<in> set (webhookDeliveries (h_db l4))"
    using r by (auto simp: l4_def d'_def set_delivery_def in_update_where)
  moreover from 1 2 3 4 have "(hq_step W cfg wcfg hmac str)\<^sup>*\<^sup>* l l4"
    by (meson converse_rtranclp_into_rtranclp rtranclp.rtrancl_refl)
  ultimately show ?thesis unfolding deliverable_def by (intro exI conjI) (assumption | simp)+
qed

lemma open_deliverable:
  assumes reach: "hq_reachable W cfg wcfg hmac str l" and r: "r \<in> set (webhookDeliveries (h_db l))" "open_delivery r"
  shows "deliverable W cfg wcfg hmac str l (d_id r)"
proof -
  define k where "k = job_id (reaped_delivery_job r)"
  obtain l1 where 1: "(hq_step W cfg wcfg hmac str)\<^sup>*\<^sup>* l l1" and db1: "h_db l1 = h_db l" and k1: "h_find W l1 k = None"
    using clear_id [OF hq_store_ok [OF reach]] .
  note hook = hq_hook_reachable [OF reach]
  have dist: "distinct (map d_id (webhookDeliveries (h_db l)))"
    using reachable_hook_inv [OF hook] by (simp add: hook_inv_def)
  obtain now where reap: "webhook_reap_once 0 (- {d_id r}) now (h_db l1) = [reaped_delivery_job r]"
    using webhook_reap_one [OF dist r] db1 by metis
  let ?l2 = "h_adds W (h_db l1) [reaped_delivery_job r] l1"
  have 2: "hq_step W cfg wcfg hmac str l1 ?l2"
    by (rule hq_reap [where deadline = 0 and locked = "- {d_id r}" and now = now]) (simp add: reap)
  have e: "h_find W ?l2 k = Some (new_entry (reaped_delivery_job r))"
    using k1 by (simp add: find_add map_add_job_def k_def)
  have "find_delivery (d_id r) (h_db l) = Some r"
    unfolding find_delivery_def by (rule first_row_select_key [OF dist r(1)])
  moreover have "endpoint_known r (h_db l)" using reachable_endpoints_known [OF hook] r(1) by (simp add: endpoints_known_def)
  ultimately obtain ep where "webhook_read (d_id r) (h_db l) = Inr (Some (r, ep))"
    using webhook_read_open [of "d_id r" "h_db l" r] r(2) by (auto simp: open_delivery_def)
  then have "deliverable W cfg wcfg hmac str ?l2 (d_id r)"
    using r(1) db1 by (intro deliver_queued [OF e, of r ep]) (simp_all add: new_entry_def reaped_delivery_job_def)
  with 1 2 show ?thesis unfolding deliverable_def by (metis rtranclp.rtrancl_into_rtrancl rtranclp_trans)
qed

end

text \<open>The payment processes run before any webhook is registered.\<close>

lemma hq_reachable_unhooked:
  "reachable cfg s \<Longrightarrow> hq_reachable W cfg wcfg hmac str \<lparr>h_hk = unhooked s, h_store = js_empty W, h_held = (\<lambda>_. None)\<rparr>"
proof (induction rule: reachable.induct)
  case (reach_init t0)
  show ?case using hq_init [of W cfg wcfg hmac str t0] by (simp add: h_initial_def unhooked_def hk_initial_def)
next
  case (reach_step s s')
  let ?l = "\<lparr>h_hk = unhooked s, h_store = js_empty W, h_held = (\<lambda>_. None)\<rparr>"
  have "hook_step cfg wcfg hmac str (unhooked s) (unhooked s')"
    using hook_core [of cfg "unhooked s" s'] reach_step.hyps(2) by (simp add: unhooked_def)
  then have "quiet_hook cfg wcfg hmac str (h_hk ?l) (unhooked s')" by (simp add: quiet_hook_def unhooked_def)
  from hq_next [OF reach_step.IH hq_quiet [OF this]] show ?case by simp
qed

end
