(* ===== verification/BankConfig.thy ===== *)
theory BankConfig
  imports Http Bank PollLoop
begin

text \<open>
  The chaos control: \<open>apps/api/src/admin\<close> patches the one row of \<open>bank_config\<close>, and
  \<open>apps/api/src/bank/bank-config-sync.service.ts\<close>, in the worker, pushes the row onto the
  simulated adapter when its \<open>updated_at\<close> is newer than the one applied last. What is shown:
  a patch changes the given columns only, polls that see nothing new leave the adapter's
  failure counter alone, and so a configured number of failures heals under polling.
\<close>

definition BANK_CONFIG_ID :: string where
  "BANK_CONFIG_ID = ''singleton''"

definition bank_config_get :: "db \<Rightarrow> bank_config_row option" where
  "bank_config_get d = first_row (select_where (\<lambda>r. b_id r = BANK_CONFIG_ID) (bankConfig d))"

subsection \<open>The patch\<close>

record update_bank_config_dto =
  ub_mode :: "bank_mode field"
  ub_latencyMs :: "int field"
  ub_failN :: "int field"

definition bank_mode_names :: "(string \<times> bank_mode) list" where
  "bank_mode_names =
     [(''always_authorize'', Always_authorize), (''always_decline'', Always_decline),
      (''always_error'', Always_error), (''fail_n_then_authorize'', Fail_n_then_authorize)]"

definition update_bank_config_checks :: "(string \<times> (json option \<Rightarrow> bool)) list" where
  "update_bank_config_checks =
     [(''mode'', \<lambda>v. is_absent v \<or> string_satisfies (\<lambda>s. s \<in> set (map fst bank_mode_names)) v),
      (''latencyMs'', \<lambda>v. is_absent v \<or> int_between 0 30000 v),
      (''failN'', \<lambda>v. is_absent v \<or> int_between 0 100 v)]"

fun mode_field :: "json option \<Rightarrow> bank_mode field" where
  "mode_field (Some (JStr s)) = (case map_of bank_mode_names s of Some m \<Rightarrow> Given m | None \<Rightarrow> Undefined)"
| "mode_field (Some JNull) = Null"
| "mode_field _ = Undefined"

definition pipe_update_bank_config :: "fields \<Rightarrow> update_bank_config_dto result" where
  "pipe_update_bank_config fs =
     (case validate update_bank_config_checks fs of
        [] \<Rightarrow> Inr \<lparr>ub_mode = mode_field (map_of fs ''mode''),
                  ub_latencyMs = nat_field (map_of fs ''latencyMs''),
                  ub_failN = nat_field (map_of fs ''failN'')\<rparr>
      | errs \<Rightarrow> Inl (ValidationException errs))"

text \<open>SET of one column: a field that is undefined is not in the patch.\<close>

fun set_column :: "'a field \<Rightarrow> 'a \<Rightarrow> 'a" where
  "set_column (Given a) old = a"
| "set_column _ old = old"

definition patch_row :: "update_bank_config_dto \<Rightarrow> int \<Rightarrow> bank_config_row \<Rightarrow> bank_config_row" where
  "patch_row dto now r =
     r\<lparr>b_updatedAt := now, mode := set_column (ub_mode dto) (mode r),
       latencyMs := set_column (ub_latencyMs dto) (latencyMs r),
       failN := (case ub_failN dto of Given n \<Rightarrow> nat n | _ \<Rightarrow> failN r)\<rparr>"

text \<open>A null reaches the NOT NULL columns only when there is a row to update.\<close>

definition bank_config_update :: "update_bank_config_dto \<Rightarrow> int \<Rightarrow> db \<Rightarrow> bank_config_row option result \<times> db" where
  "bank_config_update dto now d =
     (let here = (\<lambda>r. b_id r = BANK_CONFIG_ID);
          rows = returning here (patch_row dto now) (bankConfig d)
      in if rows \<noteq> [] \<and> (ub_mode dto = Null \<or> ub_latencyMs dto = Null \<or> ub_failN dto = Null)
         then (Inl (DbError ''23502''), d)
         else (Inr (first_row rows),
               d\<lparr>bankConfig := update_where here (patch_row dto now) (bankConfig d)\<rparr>))"

definition controller_update :: "fields \<Rightarrow> int \<Rightarrow> db \<Rightarrow> bank_config_row option result \<times> db" where
  "controller_update fs now d =
     (case pipe_update_bank_config fs of
        Inl e \<Rightarrow> (Inl e, d)
      | Inr dto \<Rightarrow> bank_config_update dto now d)"

subsection \<open>The poll\<close>

text \<open>\<open>lastAppliedAt\<close> and the adapter; without a row the method throws on \<open>row.updatedAt\<close>.\<close>

definition sync_once :: "db \<Rightarrow> int option \<times> sim_bank \<Rightarrow> (int option \<times> sim_bank) result" where
  "sync_once d st =
     (case bank_config_get d of
        None \<Rightarrow> Inl (PlainError ''TypeError'')
      | Some row \<Rightarrow>
          (let bank = (case fst st of
                 None \<Rightarrow> setConfig (Some (mode row)) (Some (failN row)) (Some (latencyMs row)) (snd st)
               | Some t \<Rightarrow> if t < b_updatedAt row
                   then setConfig (Some (mode row)) (Some (failN row)) (Some (latencyMs row)) (snd st)
                   else snd st)
           in Inr (Some (b_updatedAt row), bank)))"

definition sync_tick :: "db \<Rightarrow> int option \<times> sim_bank \<Rightarrow> int option \<times> sim_bank" where
  "sync_tick d st = (case sync_once d st of Inl e \<Rightarrow> st | Inr st' \<Rightarrow> st')"

lemma bank_config_get_update:
  assumes "bank_config_get d = Some row"
    and "ub_mode dto \<noteq> Null" "ub_latencyMs dto \<noteq> Null" "ub_failN dto \<noteq> Null"
  shows "bank_config_update dto now d = (Inr (Some (patch_row dto now row)),
      d\<lparr>bankConfig := update_where (\<lambda>r. b_id r = BANK_CONFIG_ID) (patch_row dto now) (bankConfig d)\<rparr>)
    \<and> bank_config_get (snd (bank_config_update dto now d)) = Some (patch_row dto now row)"
proof -
  let ?h = "\<lambda>r. b_id r = BANK_CONFIG_ID"
  have p: "first_row (returning ?h f t) = map_option f (first_row (select_where ?h t))" for f :: "bank_config_row \<Rightarrow> bank_config_row" and t
    by (simp add: returning_def select_where_def first_row_def split: list.splits)
  have "select_where ?h (update_where ?h (patch_row dto now) t) = returning ?h (patch_row dto now) t" for t
    by (induction t) (auto simp: select_where_def update_where_def returning_def patch_row_def)
  then show ?thesis
    using assms p [of "patch_row dto now" "bankConfig d"]
    by (simp add: bank_config_update_def Let_def bank_config_get_def)
qed

text \<open>A newer row is applied, one already applied changes nothing.\<close>

lemma sync_applies:
  assumes "bank_config_get d = Some row" "\<And>t. fst st = Some t \<Longrightarrow> t < b_updatedAt row"
  shows "sync_tick d st = (Some (b_updatedAt row),
    setConfig (Some (mode row)) (Some (failN row)) (Some (latencyMs row)) (snd st))"
  using assms by (cases "fst st") (auto simp: sync_tick_def sync_once_def)

lemma sync_idle:
  assumes "bank_config_get d = Some row"
  shows "sync_tick d (Some (b_updatedAt row), b) = (Some (b_updatedAt row), b)"
  using assms by (simp add: sync_tick_def sync_once_def)

subsection \<open>Polls between bank calls\<close>

datatype bank_activity = Poll | Call bank_request

fun run_bank :: "db \<Rightarrow> bank_activity list \<Rightarrow> int option \<times> sim_bank
  \<Rightarrow> bank_outcome list \<times> (int option \<times> sim_bank)" where
  "run_bank d [] st = ([], st)"
| "run_bank d (Poll # as) st = run_bank d as (sync_tick d st)"
| "run_bank d (Call r # as) st =
     (case authorize r (snd st) of
        (out, b') \<Rightarrow> (case run_bank d as (fst st, b') of (outs, st') \<Rightarrow> (out # outs, st')))"

fun calls_of :: "bank_activity list \<Rightarrow> bank_request list" where
  "calls_of [] = []"
| "calls_of (Poll # as) = calls_of as"
| "calls_of (Call r # as) = r # calls_of as"

text \<open>While the row does not change, the polls are invisible.\<close>

lemma run_bank_polls:
  assumes "bank_config_get d = Some row"
  shows "run_bank d as (Some (b_updatedAt row), b)
    = (fst (auth_all authorize (calls_of as) b), (Some (b_updatedAt row), snd (auth_all authorize (calls_of as) b)))"
proof (induction as arbitrary: b rule: calls_of.induct)
  case (2 as)
  then show ?case by (simp add: sync_idle [OF assms])
qed (simp_all split: prod.splits)

lemma auth_all_replicate: "auth_all authorize (replicate n r) b = authorize_n n r b"
  by (induction n arbitrary: b) (simp_all split: prod.splits)

text \<open>
  Setting \<open>fail_n_then_authorize\<close> with \<open>n\<close> and polling: the next payment fails \<open>n\<close> times and
  then succeeds, however often the poll runs in between.
\<close>

lemma chaos_heals:
  assumes row: "bank_config_get d = Some row" "mode row = Fail_n_then_authorize"
    and new: "\<And>t. fst st = Some t \<Longrightarrow> t < b_updatedAt row"
    and fresh: "store (snd st) (br_idempotencyKey r) = None"
    and calls: "calls_of as = replicate (Suc (failN row)) r"
  shows "fst (run_bank d (Poll # as) st) = replicate (failN row) (BankError True ''bank_unavailable'')
      @ [Authorized (''bank_'' @ br_idempotencyKey r)]
    \<and> getCharges (snd (snd (run_bank d (Poll # as) st))) = getCharges (snd st) + 1"
proof -
  let ?b = "setConfig (Some (mode row)) (Some (failN row)) (Some (latencyMs row)) (snd st)"
  have b: "sb_mode ?b = Fail_n_then_authorize" "store ?b = store (snd st)" "failCount ?b = 0"
    "sb_failN ?b = failN row" "charges ?b = charges (snd st)"
    by (simp_all add: setConfig_def row(2))
  have tick: "sync_tick d st = (Some (b_updatedAt row), ?b)" using sync_applies [OF row(1) new] .
  have "run_bank d (Poll # as) st = (fst (authorize_n (Suc (failN row)) r ?b),
      (Some (b_updatedAt row), snd (authorize_n (Suc (failN row)) r ?b)))"
    by (simp only: run_bank.simps tick run_bank_polls [OF row(1)] calls auth_all_replicate)
  then show ?thesis
    using fail_n_heals [of ?b r "failN row"] fresh b by (simp add: getCharges_def)
qed

subsection \<open>The sync as a poll loop\<close>

definition sync_service :: "db \<Rightarrow> int option \<times> sim_bank \<Rightarrow> unit result \<times> (int option \<times> sim_bank)" where
  "sync_service d st = (map_sum id (\<lambda>_. ()) (sync_once d st), sync_tick d st)"

interpretation sync_loop: poll_service sync_service "\<lambda>st. sim_bank_inv (snd st) \<and> store (snd st) = charged_store"
  for charged_store
  by unfold_locales
    (auto simp: sync_service_def sync_tick_def sync_once_def Let_def setConfig_def sim_bank_inv_def
      split: sum.splits option.splits if_splits)

end
