(* ===== verification/OutboxCleanup.thy ===== *)
theory OutboxCleanup
  imports Schema PollLoop
begin

text \<open>
  The partition keeper \<open>apps/api/src/relay/outbox-cleanup.service.ts\<close>: it creates the daily
  partitions of the outbox table a week ahead and drops those older than the retention. The
  UTC calendar of JavaScript's Date is written out as ECMAScript defines it. A partition is
  its name and its range of \<open>created_at\<close> in milliseconds, and dropping it deletes the rows in
  the range; the default partition holds the rows outside all ranges.
\<close>

subsection \<open>The UTC calendar\<close>

definition MS_PER_DAY :: int where
  "MS_PER_DAY = 86400000"

definition day_from_year :: "int \<Rightarrow> int" where
  "day_from_year y = 365 * (y - 1970) + (y - 1969) div 4 - (y - 1901) div 100 + (y - 1601) div 400"

definition is_leap :: "int \<Rightarrow> bool" where
  "is_leap y \<longleftrightarrow> y mod 4 = 0 \<and> (y mod 100 \<noteq> 0 \<or> y mod 400 = 0)"

text \<open>The first day of a month (0 to 11) within its year.\<close>

definition month_start :: "bool \<Rightarrow> nat \<Rightarrow> int" where
  "month_start leap m =
     [0, 31, 59, 90, 120, 151, 181, 212, 243, 273, 304, 334] ! m + (if leap \<and> 2 \<le> m then 1 else 0)"

lemma century_leap: "(n + 1) div 100 - n div 100 \<le> (n + 1) div 4 - n div (4::int)"
proof -
  define q r where "q = n div 100" and "r = n mod 100"
  have n: "n = r + q * 100" and r: "0 \<le> r" "r < 100" by (simp_all add: q_def r_def)
  show ?thesis
  proof (cases "r = 99")
    case True
    then have "(n + 1) div 100 = q + 1" using div_mult_self1 [of 100 0 "q + 1"] by (simp add: n)
    moreover have "(n + 1) div 4 = 25 * q + 25" using True by (simp add: n)
    moreover have "n = 3 + (25 * q + 24) * 4" using True by (simp add: n)
    then have "n div 4 = 25 * q + 24" by (simp only: div_mult_self1)
    ultimately show ?thesis by (simp add: q_def)
  next
    case False
    then have "(r + 1) div 100 = 0" using r by (intro div_pos_pos_trivial) simp_all
    moreover have "n + 1 = (r + 1) + q * 100" by (simp add: n)
    then have "(n + 1) div 100 = q + (r + 1) div 100" by (simp only: div_mult_self1)
    ultimately have "(n + 1) div 100 = q" by simp
    moreover have "n div 4 \<le> (n + 1) div 4" by (intro zdiv_mono1) simp_all
    ultimately show ?thesis by (simp add: q_def)
  qed
qed

lemma day_from_year_step: "day_from_year y + 365 \<le> day_from_year (y + 1)"
proof -
  have sum: "365 * (y - 1970) + p - q + r + 365 \<le> 365 * (y + 1 - 1970) + p' - q' + r'"
    if "q' - q \<le> p' - p" "r \<le> r'" for p q r p' q' r' :: int
    using that by simp
  have "y - 1969 = (y - 1901) + (- 17) * 4" "y + 1 - 1969 = (y - 1901 + 1) + (- 17) * 4" by simp_all
  then have p: "(y - 1969) div 4 = - 17 + (y - 1901) div 4" "(y + 1 - 1969) div 4 = - 17 + (y - 1901 + 1) div 4"
    by (metis div_mult_self1 zero_neq_numeral)+
  have q: "(y + 1 - 1901) div 100 = (y - 1901 + 1) div 100" by (rule arg_cong [where f = "\<lambda>x. x div 100"]) simp
  show ?thesis unfolding day_from_year_def
  proof (rule sum)
    show "(y + 1 - 1901) div 100 - (y - 1901) div 100 \<le> (y + 1 - 1969) div 4 - (y - 1969) div 4"
      unfolding p q using century_leap [of "y - 1901"] by (simp only: add_diff_cancel_left)
    show "(y - 1601) div 400 \<le> (y + 1 - 1601) div 400" by (intro zdiv_mono1) simp_all
  qed
qed

lemma day_from_year_ge: "365 * int n + day_from_year y \<le> day_from_year (y + int n)"
proof (induction n)
  case (Suc n)
  then show ?case using day_from_year_step [of "y + int n"] by (simp add: algebra_simps)
qed simp

text \<open>The year of a day: down from an upper bound.\<close>

function year_down :: "int \<Rightarrow> int \<Rightarrow> int" where
  "year_down y z = (if day_from_year y \<le> z then y else year_down (y - 1) z)"
  by pat_completeness auto

termination
proof (relation "measure (\<lambda>(y, z). nat (day_from_year y - z))")
  show "wf (measure (\<lambda>(y, z). nat (day_from_year y - z)))" by simp
next
  fix y z :: int
  assume "\<not> day_from_year y \<le> z"
  then show "((y - 1, z), (y, z)) \<in> measure (\<lambda>(y, z). nat (day_from_year y - z))"
    using day_from_year_step [of "y - 1"] by simp
qed

declare year_down.simps [simp del]

definition year_of :: "int \<Rightarrow> int" where
  "year_of z = year_down (1970 + z div 365) z"

definition month_of :: "int \<Rightarrow> nat" where
  "month_of z = (let y = year_of z; doy = z - day_from_year y
     in length (filter (\<lambda>m. month_start (is_leap y) m \<le> doy) [1..<12]))"

definition date_of :: "int \<Rightarrow> int" where
  "date_of z = z - day_from_year (year_of z) - month_start (is_leap (year_of z)) (month_of z) + 1"

text \<open>\<open>Date.UTC\<close> of a year, a month from 0 and a date, as a day; months overflow into years.\<close>

definition utc_day :: "int \<Rightarrow> int \<Rightarrow> int \<Rightarrow> int" where
  "utc_day y m d =
     (let yr = (if 0 \<le> y \<and> y \<le> 99 then 1900 + y else y); ym = yr + m div 12
      in day_from_year ym + month_start (is_leap ym) (nat (m mod 12)) + d - 1)"

text \<open>\<open>toISOString\<close> of a midnight, cut after ten characters.\<close>

definition iso_year :: "int \<Rightarrow> string" where
  "iso_year y =
     (if 0 \<le> y \<and> y \<le> 9999 then pad_start 4 (CHR ''0'') (nat_str (nat y))
      else (if y < 0 then ''-'' else ''+'') @ pad_start 6 (CHR ''0'') (nat_str (nat \<bar>y\<bar>)))"

definition isoDay :: "int \<Rightarrow> string" where
  "isoDay z = take 10 (iso_year (year_of z) @ ''-''
     @ pad_start 2 (CHR ''0'') (nat_str (month_of z + 1)) @ ''-''
     @ pad_start 2 (CHR ''0'') (nat_str (nat (date_of z))) @ ''T00:00:00.000Z'')"

text \<open>\<open>utcDay(offset)\<close>, as a day number, at time \<open>now\<close>.\<close>

definition utcDay :: "int \<Rightarrow> int \<Rightarrow> int" where
  "utcDay now offset = now div MS_PER_DAY + offset"

subsection \<open>Partitions\<close>

record part =
  part_name :: string
  part_from :: int
  part_to :: int

record outbox_store =
  parts :: "part list"
  rows_of :: "outbox_row list"

definition partition_name :: "int \<Rightarrow> string" where
  "partition_name z = ''outbox_p'' @ filter (\<lambda>c. c \<noteq> CHR ''-'') (isoDay z)"

definition day_part :: "int \<Rightarrow> part" where
  "day_part z = \<lparr>part_name = partition_name z, part_from = z * MS_PER_DAY, part_to = (z + 1) * MS_PER_DAY\<rparr>"

definition in_part :: "part \<Rightarrow> outbox_row \<Rightarrow> bool" where
  "in_part p r \<longleftrightarrow> part_from p \<le> o_createdAt r \<and> o_createdAt r < part_to p"

text \<open>
  CREATE TABLE IF NOT EXISTS .. PARTITION OF: nothing if the name exists; an error if the
  range overlaps a partition or the default partition has rows in it.
\<close>

definition create_partition :: "part \<Rightarrow> outbox_store \<Rightarrow> outbox_store result" where
  "create_partition p st =
     (if part_name p \<in> set (map part_name (parts st)) then Inr st
      else if list_ex (\<lambda>q. part_from q < part_to p \<and> part_from p < part_to q) (parts st)
      then Inl (DbError ''42P17'')
      else if list_ex (in_part p) (rows_of st) then Inl (DbError ''23514'')
      else Inr (st\<lparr>parts := parts st @ [p]\<rparr>))"

definition drop_partition :: "string \<Rightarrow> outbox_store \<Rightarrow> outbox_store" where
  "drop_partition nm st =
     st\<lparr>parts := filter (\<lambda>p. part_name p \<noteq> nm) (parts st),
        rows_of := filter (\<lambda>r. \<not> list_ex (\<lambda>p. part_name p = nm \<and> in_part p r) (parts st)) (rows_of st)\<rparr>"

definition AHEAD_DAYS :: nat where
  "AHEAD_DAYS = 7"

text \<open>The loop over the days ahead: what was created before an error stays.\<close>

fun create_days :: "int list \<Rightarrow> outbox_store \<Rightarrow> unit result \<times> outbox_store" where
  "create_days [] st = (Inr (), st)"
| "create_days (z # zs) st =
     (case create_partition (day_part z) st of
        Inl e \<Rightarrow> (Inl e, st)
      | Inr st' \<Rightarrow> create_days zs st')"

definition ensurePartitions :: "int \<Rightarrow> outbox_store \<Rightarrow> unit result \<times> outbox_store" where
  "ensurePartitions now st =
     create_days (map (\<lambda>i. utcDay now (int i)) [0..<AHEAD_DAYS + 1]) st"

text \<open>The regular expression, as the three groups.\<close>

definition match_partition :: "string \<Rightarrow> (string \<times> string \<times> string) option" where
  "match_partition nm =
     (let ds = drop 8 nm
      in if take 8 nm = ''outbox_p'' \<and> length ds = 8 \<and> list_all is_digit ds
         then Some (take 4 ds, take 2 (drop 4 ds), drop 6 ds) else None)"

definition partition_day :: "string \<Rightarrow> int option" where
  "partition_day nm = map_option
     (\<lambda>(y, m, d). utc_day (int (digits_val y)) (int (digits_val m) - 1) (int (digits_val d)))
     (match_partition nm)"

definition dropExpired :: "int \<Rightarrow> int \<Rightarrow> outbox_store \<Rightarrow> outbox_store" where
  "dropExpired retention now st =
     foldl (\<lambda>s p. case partition_day (part_name p) of
              None \<Rightarrow> s
            | Some z \<Rightarrow> if z < utcDay now (- retention) then drop_partition (part_name p) s else s)
       st (parts st)"

definition cleanup_tick :: "int \<Rightarrow> int \<Rightarrow> outbox_store \<Rightarrow> outbox_store" where
  "cleanup_tick retention now st =
     (case ensurePartitions now st of
        (Inl e, st') \<Rightarrow> st'
      | (Inr _, st') \<Rightarrow> dropExpired retention now st')"

subsection \<open>The calendar round trip\<close>

lemma year_down_spec:
  "z < day_from_year (y + 1) \<Longrightarrow>
   day_from_year (year_down y z) \<le> z \<and> z < day_from_year (year_down y z + 1) \<and> year_down y z \<le> y"
proof (induction y z rule: year_down.induct)
  case (1 y z)
  show ?case
  proof (cases "day_from_year y \<le> z")
    case True
    with "1.prems" show ?thesis by (simp add: year_down.simps [of y z])
  next
    case False
    with "1.IH" show ?thesis by (simp add: year_down.simps [of y z])
  qed
qed

lemma year_of_spec:
  assumes "0 \<le> z"
  shows "day_from_year (year_of z) \<le> z" "z < day_from_year (year_of z + 1)"
proof -
  have d0: "day_from_year 1970 = 0" by (simp add: day_from_year_def)
  have "365 * int (nat (z div 365) + 1) + day_from_year 1970 \<le> day_from_year (1970 + int (nat (z div 365) + 1))"
    by (rule day_from_year_ge)
  moreover have "int (nat (z div 365) + 1) = z div 365 + 1" using assms by (simp add: pos_imp_zdiv_nonneg_iff)
  moreover have "z < 365 * (z div 365 + 1)" by presburger
  ultimately have "z < day_from_year (1970 + z div 365 + 1)" using d0 by (simp add: algebra_simps)
  from year_down_spec [OF this] show "day_from_year (year_of z) \<le> z" "z < day_from_year (year_of z + 1)"
    by (simp_all add: year_of_def)
qed

lemma day_from_year_mono: "a \<le> b \<Longrightarrow> day_from_year a \<le> day_from_year b"
  using day_from_year_ge [of "nat (b - a)" a] by simp

lemma year_of_range:
  assumes "0 \<le> z" "z < 2932897"
  shows "1970 \<le> year_of z" "year_of z \<le> 9999"
proof -
  note s = year_of_spec [OF assms(1)]
  show "1970 \<le> year_of z"
  proof (rule ccontr)
    assume "\<not> 1970 \<le> year_of z"
    then have "day_from_year (year_of z + 1) \<le> day_from_year 1970" by (intro day_from_year_mono) simp
    with s(2) assms(1) show False by (simp add: day_from_year_def)
  qed
  show "year_of z \<le> 9999"
  proof (rule ccontr)
    assume "\<not> year_of z \<le> 9999"
    then have "day_from_year 10000 \<le> day_from_year (year_of z)" by (intro day_from_year_mono) simp
    with s(1) assms(2) show False by (simp add: day_from_year_def)
  qed
qed

lemma year_length: "day_from_year (y + 1) \<le> day_from_year y + 367"
proof -
  have step: "(x + 1) div k \<le> x div k + 1" if "0 < k" for x k :: int
  proof -
    have "(x + 1) div k \<le> (x + k) div k" using that by (intro zdiv_mono1) simp_all
    then show ?thesis using that by simp
  qed
  have "(y + 1 - 1969) div 4 \<le> (y - 1969) div 4 + 1" "(y + 1 - 1601) div 400 \<le> (y - 1601) div 400 + 1"
    using step [of 4 "y - 1969"] step [of 400 "y - 1601"] by (simp_all add: algebra_simps)
  moreover have "(y - 1901) div 100 \<le> (y + 1 - 1901) div 100" by (intro zdiv_mono1) simp_all
  moreover have "365 * (y + 1 - 1970) + p' - q' + r' \<le> 365 * (y - 1970) + p - q + r + 367"
    if "p' \<le> p + 1" "r' \<le> r + 1" "q \<le> q'" for p q r p' q' r' :: int
    using that by simp
  ultimately show ?thesis unfolding day_from_year_def by blast
qed

lemma month_of_le: "month_of z \<le> 11"
proof -
  have "month_of z \<le> length [1..<12]" unfolding month_of_def Let_def by (rule length_filter_le)
  then show ?thesis by simp
qed

lemma month_start_found:
  fixes doy :: int and leap :: bool
  assumes "0 \<le> doy" "doy < 367"
  defines "m \<equiv> length (filter (\<lambda>m. month_start leap m \<le> doy) [1..<12])"
  shows "month_start leap m \<le> doy" "doy < month_start leap m + 50"
proof -
  have "[1..<12] = [1, 2, 3, 4, 5, 6, 7, 8, 9, 10, 11]" by (simp add: upt_rec)
  then show "month_start leap m \<le> doy" "doy < month_start leap m + 50"
    using assms(1,2) unfolding m_def by (cases leap; simp add: month_start_def)+
qed

lemma date_of_range:
  assumes "0 \<le> z"
  shows "1 \<le> date_of z" "date_of z \<le> 50"
proof -
  note y = year_of_spec [OF assms]
  have "0 \<le> z - day_from_year (year_of z)" "z - day_from_year (year_of z) < 367"
    using y year_length [of "year_of z"] by simp_all
  from month_start_found [OF this, of "is_leap (year_of z)"]
  show "1 \<le> date_of z" "date_of z \<le> 50" by (simp_all add: date_of_def month_of_def Let_def)
qed

lemma utc_day_of:
  assumes "0 \<le> z" "z < 2932897"
  shows "utc_day (year_of z) (int (month_of z)) (date_of z) = z"
proof -
  have "int (month_of z) div 12 = 0" "int (month_of z) mod 12 = int (month_of z)"
    using month_of_le [of z] by simp_all
  then show ?thesis using year_of_range [OF assms] by (simp add: utc_day_def Let_def date_of_def)
qed

text \<open>The name of a day's partition parses back to the day, from 1970 to 9999.\<close>

lemma partition_day_name:
  assumes "0 \<le> z" "z < 2932897"
  shows "partition_day (partition_name z) = Some z"
proof -
  let ?y = "pad_start 4 (CHR ''0'') (nat_str (nat (year_of z)))"
  let ?m = "pad_start 2 (CHR ''0'') (nat_str (month_of z + 1))"
  let ?d = "pad_start 2 (CHR ''0'') (nat_str (nat (date_of z)))"
  note yr = year_of_range [OF assms] and dt = date_of_range [OF assms(1)]
  have y: "length ?y = 4" "list_all is_digit ?y" "digits_val ?y = nat (year_of z)"
    using yr by (auto intro!: pad_digits)
  have m: "length ?m = 2" "list_all is_digit ?m" "digits_val ?m = month_of z + 1"
    using month_of_le [of z] by (auto intro!: pad_digits)
  have d: "length ?d = 2" "list_all is_digit ?d" "digits_val ?d = nat (date_of z)"
    using dt by (auto intro!: pad_digits)
  have nodash: "filter (\<lambda>c. c \<noteq> CHR ''-'') s = s" if "list_all is_digit s" for s
    using that by (auto simp: list_all_iff is_digit_def intro!: filter_True)
  have "isoDay z = ?y @ ''-'' @ ?m @ ''-'' @ ?d"
    using y(1) m(1) d(1) yr by (simp add: isoDay_def iso_year_def)
  then have "partition_name z = ''outbox_p'' @ ?y @ ?m @ ?d"
    by (simp add: partition_name_def nodash [OF y(2)] nodash [OF m(2), simplified] nodash [OF d(2)])
  then have "match_partition (partition_name z) = Some (?y, ?m, ?d)"
    using y(1,2) m(1,2) d(1,2) by (simp add: match_partition_def Let_def)
  then show ?thesis
    using utc_day_of [OF assms] y(3) m(3) d(3) yr dt by (simp add: partition_day_def)
qed

subsection \<open>What the tick keeps and what it deletes\<close>

text \<open>Partitions named like a day's are that day's, and no name is used twice.\<close>

definition canonical :: "outbox_store \<Rightarrow> bool" where
  "canonical st \<longleftrightarrow> distinct (map part_name (parts st))
     \<and> (\<forall>p \<in> set (parts st). \<forall>z. partition_day (part_name p) = Some z \<longrightarrow> p = day_part z)"

definition expired :: "int \<Rightarrow> part \<Rightarrow> bool" where
  "expired cutoff p \<longleftrightarrow> (\<exists>z. partition_day (part_name p) = Some z \<and> z < cutoff)"

lemma drop_partition_rows:
  assumes "distinct (map part_name (parts s))" "p \<in> set (parts s)"
  shows "rows_of (drop_partition (part_name p) s) = filter (\<lambda>r. \<not> in_part p r) (rows_of s)"
proof -
  have "list_ex (\<lambda>q. part_name q = part_name p \<and> in_part q r) (parts s) \<longleftrightarrow> in_part p r" for r
    using distinct_key_unique [OF assms(1) _ assms(2)] assms(2) by (auto simp: list_ex_iff)
  then show ?thesis by (simp add: drop_partition_def)
qed

lemma drop_fold:
  assumes "distinct (map part_name (parts s))" "set ps \<subseteq> set (parts s)" "distinct (map part_name ps)"
  shows "rows_of (foldl (\<lambda>s p. case partition_day (part_name p) of
              None \<Rightarrow> s
            | Some z \<Rightarrow> if z < cutoff then drop_partition (part_name p) s else s) s ps)
    = filter (\<lambda>r. \<not> (\<exists>p \<in> set ps. expired cutoff p \<and> in_part p r)) (rows_of s)"
  using assms
proof (induction ps arbitrary: s)
  case (Cons p ps)
  show ?case
  proof (cases "expired cutoff p")
    case True
    let ?s = "drop_partition (part_name p) s"
    have "distinct (map part_name (parts ?s))"
      using Cons.prems(1) by (simp add: drop_partition_def distinct_map_filter)
    moreover have "set ps \<subseteq> set (parts ?s)"
      using Cons.prems(2,3) by (auto simp: drop_partition_def) (metis imageI)
    moreover have "(case partition_day (part_name p) of None \<Rightarrow> s
        | Some z \<Rightarrow> if z < cutoff then drop_partition (part_name p) s else s) = ?s"
      using True by (auto simp: expired_def)
    ultimately show ?thesis
      using Cons.IH [of ?s] Cons.prems(1-3) drop_partition_rows [of s p] True
      by (auto simp: conj_commute intro!: filter_cong)
  next
    case False
    then have "(case partition_day (part_name p) of None \<Rightarrow> s
        | Some z \<Rightarrow> if z < cutoff then drop_partition (part_name p) s else s) = s"
      by (auto simp: expired_def split: option.splits)
    then show ?thesis using Cons.IH [of s] Cons.prems False by (auto intro!: filter_cong)
  qed
qed simp

text \<open>Exactly the rows of expired partitions are deleted, published or not.\<close>

lemma dropExpired_rows:
  assumes "canonical st"
  shows "rows_of (dropExpired ret now st)
    = filter (\<lambda>r. \<not> (\<exists>p \<in> set (parts st). expired (utcDay now (- ret)) p \<and> in_part p r)) (rows_of st)"
  using drop_fold [of st "parts st" "utcDay now (- ret)"] assms
  by (simp add: dropExpired_def canonical_def)

lemma dropExpired_keeps:
  assumes "canonical st" "r \<in> set (rows_of st)" "utcDay now (- ret) * MS_PER_DAY \<le> o_createdAt r"
  shows "r \<in> set (rows_of (dropExpired ret now st))"
proof -
  have "\<not> in_part p r" if p: "p \<in> set (parts st)" "expired (utcDay now (- ret)) p" for p
  proof -
    from p assms(1) obtain z where z: "p = day_part z" "z < utcDay now (- ret)"
      by (auto simp: expired_def canonical_def)
    then have "(z + 1) * MS_PER_DAY \<le> utcDay now (- ret) * MS_PER_DAY"
      by (intro mult_right_mono) (simp_all add: MS_PER_DAY_def)
    then show ?thesis using assms(3) z(1) by (simp add: in_part_def day_part_def)
  qed
  then show ?thesis using assms(1,2) by (auto simp: dropExpired_rows)
qed

lemma create_partition_day:
  assumes c: "canonical st" and z: "0 \<le> z" "z < 2932897" and ok: "create_partition (day_part z) st = Inr st'"
  shows "canonical st' \<and> day_part z \<in> set (parts st') \<and> set (parts st) \<subseteq> set (parts st') \<and> rows_of st' = rows_of st"
proof (cases "partition_name z \<in> set (map part_name (parts st))")
  case True
  then obtain p where "p \<in> set (parts st)" "part_name p = partition_name z" by auto
  moreover from this have "p = day_part z"
    using c partition_day_name [OF z] by (auto simp: canonical_def)
  moreover have "st' = st" using ok True by (simp add: create_partition_def day_part_def)
  ultimately show ?thesis using c by simp
next
  case False
  then have "st' = st\<lparr>parts := parts st @ [day_part z]\<rparr>"
    using ok by (auto simp: create_partition_def day_part_def split: if_splits)
  moreover have "part_name (day_part z) = partition_name z" by (simp add: day_part_def)
  ultimately show ?thesis using c False partition_day_name [OF z] by (auto simp: canonical_def)
qed

lemma create_days_all:
  assumes "canonical st" "\<forall>z \<in> set zs. 0 \<le> z \<and> z < 2932897" "create_days zs st = (Inr (), st')"
  shows "canonical st' \<and> day_part ` set zs \<subseteq> set (parts st') \<and> set (parts st) \<subseteq> set (parts st')
    \<and> rows_of st' = rows_of st"
  using assms
proof (induction zs arbitrary: st)
  case (Cons z zs)
  then obtain st1 where 1: "create_partition (day_part z) st = Inr st1" "create_days zs st1 = (Inr (), st')"
    by (auto split: sum.splits)
  from create_partition_day [OF Cons.prems(1) _ _ 1(1)] Cons.prems(2)
  have c: "canonical st1" "day_part z \<in> set (parts st1)" "set (parts st) \<subseteq> set (parts st1)" "rows_of st1 = rows_of st"
    by simp_all
  from Cons.IH [OF c(1) _ 1(2)] Cons.prems(2) c show ?case by auto
qed simp

text \<open>After a successful pass every moment of the next eight UTC days has its partition.\<close>

lemma ensurePartitions_covers:
  assumes c: "canonical st" and now: "0 \<le> now div MS_PER_DAY" "now div MS_PER_DAY + 7 < 2932897"
    and ok: "ensurePartitions now st = (Inr (), st')"
    and t: "utcDay now 0 * MS_PER_DAY \<le> t" "t < utcDay now 8 * MS_PER_DAY"
  shows "\<exists>p \<in> set (parts st'). part_from p \<le> t \<and> t < part_to p"
proof -
  define z where "z = t div MS_PER_DAY"
  have ms: "0 < MS_PER_DAY" by (simp add: MS_PER_DAY_def)
  have "now div MS_PER_DAY \<le> z" unfolding z_def
    using zdiv_mono1 [OF t(1) ms] by (simp add: utcDay_def MS_PER_DAY_def)
  moreover have "z < now div MS_PER_DAY + 8"
  proof (rule ccontr)
    assume "\<not> z < now div MS_PER_DAY + 8"
    then have "utcDay now 8 * MS_PER_DAY \<le> z * MS_PER_DAY"
      using ms by (intro mult_right_mono) (simp_all add: utcDay_def)
    moreover have "z * MS_PER_DAY \<le> t" by (simp add: z_def MS_PER_DAY_def)
    ultimately show False using t(2) by simp
  qed
  ultimately have "z = utcDay now (int (nat (z - now div MS_PER_DAY)))" "nat (z - now div MS_PER_DAY) < AHEAD_DAYS + 1"
    by (simp_all add: utcDay_def AHEAD_DAYS_def)
  moreover from this(2) have "nat (z - now div MS_PER_DAY) \<in> set [0..<AHEAD_DAYS + 1]"
    by (simp only: set_upt atLeastLessThan_iff le0 simp_thms)
  ultimately have "z \<in> set (map (\<lambda>i. utcDay now (int i)) [0..<AHEAD_DAYS + 1])"
    unfolding set_map by blast
  moreover have "\<forall>z \<in> set (map (\<lambda>i. utcDay now (int i)) [0..<AHEAD_DAYS + 1]). 0 \<le> z \<and> z < 2932897"
    using now by (auto simp: utcDay_def AHEAD_DAYS_def)
  ultimately have "day_part z \<in> set (parts st')"
    using create_days_all [OF c _ ok [unfolded ensurePartitions_def]] by blast
  moreover have "z * MS_PER_DAY \<le> t" "t < (z + 1) * MS_PER_DAY"
    unfolding z_def using ms by (simp_all add: MS_PER_DAY_def)
  ultimately show ?thesis by (intro bexI [of _ "day_part z"]) (simp_all add: day_part_def)
qed

subsection \<open>The cleanup as a poll loop\<close>

definition cleanup_service :: "int \<times> int \<Rightarrow> outbox_store \<Rightarrow> unit result \<times> outbox_store" where
  "cleanup_service e st = (case e of (retention, now) \<Rightarrow>
     (fst (ensurePartitions now st), cleanup_tick retention now st))"

lemma create_days_rows: "rows_of (snd (create_days zs st)) = rows_of st"
proof (induction zs arbitrary: st)
  case (Cons z zs)
  show ?case
  proof (cases "create_partition (day_part z) st")
    case (Inr st')
    then have "rows_of st' = rows_of st" by (auto simp: create_partition_def split: if_splits)
    with Inr Cons show ?thesis by simp
  qed simp
qed simp

lemma drop_foldl_rows:
  "set (rows_of (foldl (\<lambda>s p. case f p of None \<Rightarrow> s | Some z \<Rightarrow> if g z then drop_partition (part_name p) s else s) st ps))
     \<subseteq> set (rows_of st)"
proof (induction ps arbitrary: st)
  case (Cons p ps)
  let ?st = "case f p of None \<Rightarrow> st | Some z \<Rightarrow> if g z then drop_partition (part_name p) st else st"
  have "set (rows_of ?st) \<subseteq> set (rows_of st)" by (auto simp: drop_partition_def split: option.splits)
  with Cons [of ?st] show ?case by auto
qed simp

lemma cleanup_tick_rows: "set (rows_of (cleanup_tick ret now st)) \<subseteq> set (rows_of st)"
proof -
  obtain r st1 where e: "ensurePartitions now st = (r, st1)" by fastforce
  have "rows_of (snd (ensurePartitions now st)) = rows_of st"
    by (simp add: ensurePartitions_def create_days_rows)
  then have "rows_of st1 = rows_of st" by (simp add: e)
  moreover have "set (rows_of (dropExpired ret now st1)) \<subseteq> set (rows_of st1)"
    unfolding dropExpired_def by (rule drop_foldl_rows)
  ultimately show ?thesis by (simp add: cleanup_tick_def e split: sum.splits)
qed

text \<open>The loop never adds a row.\<close>

interpretation cleanup_loop: poll_service cleanup_service "\<lambda>st. set (rows_of st) \<subseteq> R" for R
proof unfold_locales
  fix st st' e r
  assume "set (rows_of st) \<subseteq> R" "cleanup_service e st = (r, st')"
  then show "set (rows_of st') \<subseteq> R"
    using cleanup_tick_rows [of "fst e" "snd e" st] by (auto simp: cleanup_service_def split: prod.splits)
qed

end
