(* ===== verification/Platform.thy ===== *)
theory Platform
  imports Config CircuitBreaker Http
begin

text \<open>
  The wiring that has logic of its own: the provider registry of
  \<open>apps/api/src/common/provider-registry.ts\<close> with the bank's entry in \<open>bank.module.ts\<close>, the
  gauges of \<open>apps/api/src/metrics\<close>, the metrics server of \<open>worker.ts\<close>, and the health probe.
  Shown: the adapter a loaded configuration names is always registered, although the registry
  lookup alone accepts names inherited from the object prototype.
\<close>

fun join_with :: "string \<Rightarrow> string list \<Rightarrow> string" where
  "join_with sep [] = []"
| "join_with sep [s] = s"
| "join_with sep (s # t # ss) = s @ sep @ join_with sep (t # ss)"

subsection \<open>Provider registry\<close>

text \<open>
  \<open>registry[key]\<close> on an object literal: an own property, or one that every object inherits.
  Every inherited one is a function or an object, hence truthy.
\<close>

datatype 'a js_property = Own 'a | Inherited string

definition OBJECT_PROTOTYPE :: "string list" where
  "OBJECT_PROTOTYPE =
     [''constructor'', ''hasOwnProperty'', ''isPrototypeOf'', ''propertyIsEnumerable'',
      ''toLocaleString'', ''toString'', ''valueOf'', ''__proto__'', ''__defineGetter__'',
      ''__defineSetter__'', ''__lookupGetter__'', ''__lookupSetter__'']"

definition js_lookup :: "(string \<times> 'a) list \<Rightarrow> string \<Rightarrow> 'a js_property option" where
  "js_lookup obj key =
     (case map_of obj key of
        Some v \<Rightarrow> Some (Own v)
      | None \<Rightarrow> if key \<in> set OBJECT_PROTOTYPE then Some (Inherited key) else None)"

record 'a provider =
  provide :: string
  useClass :: "'a js_property"

definition selectProvider :: "string \<Rightarrow> (string \<times> 'a) list \<Rightarrow> string \<Rightarrow> 'a provider result" where
  "selectProvider token registry key =
     (case js_lookup registry key of
        None \<Rightarrow> Inl (PlainError (''No provider registered for '' @ token @ ''=\"'' @ key @ ''\". ''
          @ ''Known: '' @ join_with '', '' (map fst registry)))
      | Some impl \<Rightarrow> Inr \<lparr>provide = token, useClass = impl\<rparr>)"

datatype bank_class = SimulatedBankAdapter

definition BANK_REGISTRY :: "(string \<times> bank_class) list" where
  "BANK_REGISTRY = [(''simulated'', SimulatedBankAdapter)]"

definition bank_provider :: "config \<Rightarrow> bank_class provider result" where
  "bank_provider c = selectProvider ''BANK'' BANK_REGISTRY (adapter (bank c))"

lemma selectProvider_own:
  "map_of registry key = Some impl \<Longrightarrow>
   selectProvider token registry key = Inr \<lparr>provide = token, useClass = Own impl\<rparr>"
  by (simp add: selectProvider_def js_lookup_def)

text \<open>The guard of the registry is not enough alone: an inherited name passes it.\<close>

lemma selectProvider_inherited:
  "map_of registry ''constructor'' = None \<Longrightarrow>
   selectProvider token registry ''constructor''
     = Inr \<lparr>provide = token, useClass = Inherited ''constructor''\<rparr>"
  by (simp add: selectProvider_def js_lookup_def OBJECT_PROTOTYPE_def)

lemma bank_provider_loaded:
  assumes "load_config e = Inr c"
  shows "bank_provider c = Inr \<lparr>provide = ''BANK'', useClass = Own SimulatedBankAdapter\<rparr>"
proof -
  have "adapter (bank c) = ''simulated''"
    using load_config_sound [OF assms] by (simp add: config_wf_def)
  then show ?thesis by (simp add: bank_provider_def BANK_REGISTRY_def selectProvider_own)
qed

subsection \<open>Gauges\<close>

text \<open>The value \<open>WorkerMetricsService\<close> sets for a breaker at each scrape.\<close>

fun breaker_value :: "circuit_state \<Rightarrow> nat" where
  "breaker_value CLOSED = 0"
| "breaker_value OPEN = 1"
| "breaker_value HALF_OPEN = 2"

definition collect_breaker :: "breaker \<Rightarrow> nat" where
  "collect_breaker b = breaker_value (getState b)"

lemma breaker_value_inj: "breaker_value s = breaker_value t \<Longrightarrow> s = t"
  by (cases s; cases t) simp_all

text \<open>
  \<open>QueueMetricsService\<close>: a gauge maps its labels to a value. \<open>getJobCounts\<close> of the queue
  library is the argument \<open>counts\<close>: per queue, the states it answers with.
\<close>

type_synonym depth_gauge = "string \<times> string \<Rightarrow> nat option"

definition JOB_STATES :: "string list" where
  "JOB_STATES = [''waiting'', ''active'', ''delayed'', ''failed'']"

definition collect_queue :: "string \<Rightarrow> (string \<Rightarrow> nat option) \<Rightarrow> depth_gauge \<Rightarrow> depth_gauge" where
  "collect_queue name c g =
     fold (\<lambda>st h. h((name, st) \<mapsto> (case c st of None \<Rightarrow> 0 | Some n \<Rightarrow> n))) JOB_STATES g"

definition collect_depth :: "(string \<Rightarrow> string \<Rightarrow> nat option) \<Rightarrow> depth_gauge \<Rightarrow> depth_gauge" where
  "collect_depth counts g =
     fold (\<lambda>name. collect_queue name (counts name)) [''payments'', ''webhooks''] g"

text \<open>A scrape leaves no reading of an earlier one.\<close>

lemma collect_queue_reads:
  "collect_queue name c g (q, st) =
     (if q = name \<and> st \<in> set JOB_STATES
      then Some (case c st of None \<Rightarrow> 0 | Some n \<Rightarrow> n) else g (q, st))"
  by (auto simp: collect_queue_def JOB_STATES_def)

lemma collect_depth_reads:
  "q \<in> {''payments'', ''webhooks''} \<Longrightarrow> st \<in> set JOB_STATES \<Longrightarrow>
   collect_depth counts g (q, st) = Some (case counts q st of None \<Rightarrow> 0 | Some n \<Rightarrow> n)"
  by (auto simp: collect_depth_def collect_queue_reads)

text \<open>The HTTP server beside the worker: status and body; \<open>metrics\<close> is the registry's text.\<close>

definition metrics_server :: "string \<Rightarrow> string \<Rightarrow> nat \<times> string" where
  "metrics_server metrics path = (if path = ''/metrics'' then (200, metrics) else (404, []))"

subsection \<open>Health\<close>

text \<open>
  \<open>pingCheck\<close>: \<open>SELECT 1\<close> answers or throws; the status of the indicator is its key, whether
  it is up, and a message. A \<open>HealthCheckError\<close> carries its causes.
\<close>

record indicator_status =
  is_key :: string
  is_up :: bool
  is_message :: "string option"

datatype health_error = HealthCheckError string indicator_status

definition pingCheck :: "string \<Rightarrow> 'a result \<Rightarrow> health_error + indicator_status" where
  "pingCheck key query =
     (case query of
        Inr _ \<Rightarrow> Inr \<lparr>is_key = key, is_up = True, is_message = None\<rparr>
      | Inl _ \<Rightarrow> Inl (HealthCheckError ''postgres down''
          \<lparr>is_key = key, is_up = False, is_message = Some ''could not reach postgres''\<rparr>))"

definition live :: string where
  "live = ''ok''"

text \<open>\<open>ready\<close> hands one indicator to the terminus check, which is the argument \<open>check\<close>.\<close>

definition ready :: "((health_error + indicator_status) list \<Rightarrow> 'r) \<Rightarrow> 'a result \<Rightarrow> 'r" where
  "ready check query = check [pingCheck ''postgres'' query]"

lemma pingCheck_up: "isl (pingCheck key q) \<longleftrightarrow> isl q"
  by (cases q) (simp_all add: pingCheck_def)

end
