(* ===== verification/WebIds.thy ===== *)
theory WebIds
  imports Prelude "HOL-Library.Word"
begin

unbundle bit_operations_syntax

text \<open>
  The identifiers and query strings of the web client: \<open>apps/web/src/lib/id.ts\<close>, which builds
  a version 4 UUID from random bytes where \<open>crypto.randomUUID\<close> is missing, and the
  serialisation of URLSearchParams that \<open>apps/web/src/lib/api.ts\<close> uses. Shown: the fallback
  always has the UUID layout, loses none of the 122 random bits, and a serialised query reads
  back as the parameters that were set.
\<close>

subsection \<open>Hexadecimal bytes\<close>

definition hex_char :: "nat \<Rightarrow> char" where
  "hex_char d = (if d < 10 then char_of (48 + d) else char_of (87 + d))"

definition hex_val :: "char \<Rightarrow> nat" where
  "hex_val c = (let n = of_char c :: nat in if n < 58 then n - 48 else if n < 91 then n - 55 else n - 87)"

text \<open>\<open>x.toString(16)\<close> of a byte, and its \<open>padStart(2, '0')\<close>.\<close>

definition to_hex :: "8 word \<Rightarrow> string" where
  "to_hex x = (if unat x < 16 then [hex_char (unat x)]
     else [hex_char (unat x div 16), hex_char (unat x mod 16)])"

definition hex_byte :: "8 word \<Rightarrow> string" where
  "hex_byte x = pad_start 2 (CHR ''0'') (to_hex x)"

lemma hex_val_char [simp]: "d < 16 \<Longrightarrow> hex_val (hex_char d) = d"
  by (simp add: hex_val_def hex_char_def Let_def)

lemma hex_char_not_dash [simp]: "d < 16 \<Longrightarrow> hex_char d \<noteq> CHR ''-''"
proof
  assume "d < 16" "hex_char d = CHR ''-''"
  then have "(of_char (hex_char d) :: nat) = 45" by simp
  with \<open>d < 16\<close> show False by (simp add: hex_char_def split: if_splits)
qed

lemma hex_byte_eq: "hex_byte x = [hex_char (unat x div 16), hex_char (unat x mod 16)]"
proof (cases "unat x < 16")
  case True
  moreover have "hex_char 0 = CHR ''0''" by (simp add: hex_char_def char_of_def bit_iff_odd)
  ultimately show ?thesis by (simp add: hex_byte_def to_hex_def pad_start_def numeral_2_eq_2)
qed (simp add: hex_byte_def to_hex_def pad_start_def)

lemma unat_byte [simp]: "unat (x :: 8 word) div 16 < 16"
proof -
  have "unat x < 256" using unsigned_less [where ?'a = nat, of x] by simp
  then show ?thesis by (simp add: less_mult_imp_div_less)
qed

fun unhex :: "string \<Rightarrow> 8 word list" where
  "unhex (a # b # s) = word_of_nat (16 * hex_val a + hex_val b) # unhex s"
| "unhex _ = []"

lemma unhex_hex_byte [simp]: "unhex (hex_byte x @ s) = x # unhex s"
  by (simp add: hex_byte_eq)

subsection \<open>The fallback UUID\<close>

text \<open>The two bytes the fallback overwrites: the version nibble and the variant bits.\<close>

definition stamp_version :: "8 word list \<Rightarrow> 8 word list" where
  "stamp_version b =
     (let b1 = b[6 := (b ! 6 AND 0x0f) OR 0x40] in b1[8 := (b1 ! 8 AND 0x3f) OR 0x80])"

definition uuid_text :: "string list \<Rightarrow> string" where
  "uuid_text h =
     h ! 0 @ h ! 1 @ h ! 2 @ h ! 3 @ ''-'' @ h ! 4 @ h ! 5 @ ''-'' @ h ! 6 @ h ! 7 @ ''-''
     @ h ! 8 @ h ! 9 @ ''-'' @ h ! 10 @ h ! 11 @ h ! 12 @ h ! 13 @ h ! 14 @ h ! 15"

text \<open>
  \<open>randomId\<close>: \<open>uuid\<close> is what \<open>crypto.randomUUID\<close> returns where it exists, \<open>b\<close> the sixteen
  bytes \<open>getRandomValues\<close> fills in.
\<close>

definition randomId :: "string option \<Rightarrow> 8 word list \<Rightarrow> string" where
  "randomId uuid b =
     (case uuid of
        Some u \<Rightarrow> u
      | None \<Rightarrow> uuid_text (map hex_byte (stamp_version b)))"

text \<open>The layout of a version 4 UUID (RFC 9562): groups of 8, 4, 4, 4 and 12 digits.\<close>

definition uuid_dashes :: "bool list" where
  "uuid_dashes = replicate 8 False @ [True] @ replicate 4 False @ [True] @ replicate 4 False @ [True]
     @ replicate 4 False @ [True] @ replicate 12 False"

definition uuid_v4 :: "string \<Rightarrow> bool" where
  "uuid_v4 s \<longleftrightarrow>
     map (\<lambda>c. c = CHR ''-'') s = uuid_dashes \<and> s ! 14 = CHR ''4'' \<and> s ! 19 \<in> set ''89ab''"

text \<open>The high nibbles of the stamped bytes.\<close>

lemma high_nibble: "unat x div 16 = unat (drop_bit 4 (x :: 8 word))"
  by (simp add: unat_div drop_bit_eq_div)

lemma version_byte: "unat ((x AND 0x0f) OR 0x40 :: 8 word) div 16 = 4"
proof -
  have "drop_bit 4 (0x0f :: 8 word) = 0" "drop_bit 4 (0x40 :: 8 word) = 4" by simp_all
  then have "drop_bit 4 ((x AND 0x0f) OR 0x40 :: 8 word) = 4" by (simp add: drop_bit_or drop_bit_and)
  then show ?thesis by (simp add: high_nibble)
qed

lemma variant_byte: "unat ((x AND 0x3f) OR 0x80 :: 8 word) div 16 \<in> {8, 9, 10, 11}"
proof -
  define y where "y = drop_bit 4 x AND 3"
  have d: "drop_bit 4 (0x3f :: 8 word) = 3" "drop_bit 4 (0x80 :: 8 word) = 8" by simp_all
  have b: "drop_bit 4 ((x AND 0x3f) OR 0x80 :: 8 word) = y OR 8"
    by (simp only: drop_bit_or drop_bit_and d y_def)
  have "y = take_bit 2 (drop_bit 4 x)" by (simp add: y_def take_bit_eq_mask mask_numeral)
  then have "unat y < 4" by (simp add: take_bit_eq_mod unat_mod)
  then have u: "unat y \<in> {0, 1, 2, 3}" by auto
  have "y \<in> word_of_nat ` {0, 1, 2, 3}"
    by (rule image_eqI [OF _ u]) simp
  then have "unat (y OR 8) \<in> {8, 9, 10, 11}" by auto
  then show ?thesis using b by (simp add: high_nibble)
qed

lemma length_stamp [simp]: "length (stamp_version b) = length b"
  by (simp add: stamp_version_def Let_def)

lemma stamp_nth:
  assumes "length b = 16"
  shows "stamp_version b ! 6 = (b ! 6 AND 0x0f) OR 0x40" "stamp_version b ! 8 = (b ! 8 AND 0x3f) OR 0x80"
  using assms by (simp_all add: stamp_version_def Let_def)

lemma list16:
  assumes "length b = 16"
  shows "b = [b ! 0, b ! 1, b ! 2, b ! 3, b ! 4, b ! 5, b ! 6, b ! 7, b ! 8, b ! 9, b ! 10, b ! 11,
    b ! 12, b ! 13, b ! 14, b ! 15]"
  using assms by (intro nth_equalityI) (auto simp: less_Suc_eq numeral_eq_Suc)

text \<open>The text as a list of 36 characters.\<close>

definition hi :: "8 word \<Rightarrow> char" where "hi x = hex_char (unat x div 16)"
definition lo :: "8 word \<Rightarrow> char" where "lo x = hex_char (unat x mod 16)"

lemma nibble_not_dash [simp]: "hi x \<noteq> CHR ''-''" "lo x \<noteq> CHR ''-''"
  by (simp_all add: hi_def lo_def)

lemma uuid_text_chars:
  assumes "length m = 16"
  shows "uuid_text (map hex_byte m) =
    [hi (m!0), lo (m!0), hi (m!1), lo (m!1), hi (m!2), lo (m!2), hi (m!3), lo (m!3), CHR ''-'',
     hi (m!4), lo (m!4), hi (m!5), lo (m!5), CHR ''-'',
     hi (m!6), lo (m!6), hi (m!7), lo (m!7), CHR ''-'',
     hi (m!8), lo (m!8), hi (m!9), lo (m!9), CHR ''-'',
     hi (m!10), lo (m!10), hi (m!11), lo (m!11), hi (m!12), lo (m!12), hi (m!13), lo (m!13),
     hi (m!14), lo (m!14), hi (m!15), lo (m!15)]"
  using assms by (simp add: uuid_text_def hex_byte_eq hi_def lo_def)

lemma uuid_dashes_eq:
  "uuid_dashes = [False, False, False, False, False, False, False, False, True,
     False, False, False, False, True, False, False, False, False, True,
     False, False, False, False, True, False, False, False, False, False, False,
     False, False, False, False, False, False]"
  by (simp add: uuid_dashes_def numeral_eq_Suc)

lemma hex_char_values:
  "hex_char 4 = CHR ''4''" "hex_char 8 = CHR ''8''" "hex_char 9 = CHR ''9''"
  "hex_char 10 = CHR ''a''" "hex_char 11 = CHR ''b''"
  by (simp_all add: hex_char_def char_of_def bit_iff_odd)

lemma hi_variant: "hi ((x AND 0x3f) OR 0x80) \<in> set ''89ab''"
proof -
  have "hi ((x AND 0x3f) OR 0x80) \<in> hex_char ` {8, 9, 10, 11}"
    unfolding hi_def by (rule imageI) (rule variant_byte)
  then show ?thesis by (simp only: image_insert image_empty hex_char_values list.set)
qed

lemma randomId_shape:
  assumes "length b = 16"
  shows "uuid_v4 (randomId None b)"
proof -
  define m where "m = stamp_version b"
  have len: "length m = 16" using assms by (simp add: m_def)
  have v: "hi (m ! 6) = CHR ''4''"
    unfolding m_def stamp_nth [OF assms] hi_def version_byte by (simp add: hex_char_values)
  have w: "hi (m ! 8) \<in> set ''89ab''"
    unfolding m_def stamp_nth [OF assms] by (rule hi_variant)
  have s: "randomId None b = uuid_text (map hex_byte m)" by (simp add: randomId_def m_def)
  have "map (\<lambda>c. c = CHR ''-'') (randomId None b) = uuid_dashes"
    unfolding s uuid_text_chars [OF len] uuid_dashes_eq list.map by (simp only: nibble_not_dash refl)
  moreover have "randomId None b ! 14 = hi (m ! 6)" unfolding s uuid_text_chars [OF len] by simp
  moreover have "randomId None b ! 19 = hi (m ! 8)" unfolding s uuid_text_chars [OF len] by simp
  ultimately show ?thesis unfolding uuid_v4_def using v w by simp
qed

text \<open>The digits without the dashes are the stamped bytes.\<close>

lemma randomId_bytes:
  assumes "length b = 16"
  shows "unhex (filter (\<lambda>c. c \<noteq> CHR ''-'') (randomId None b)) = stamp_version b"
proof -
  let ?m = "stamp_version b"
  have m: "length ?m = 16" using assms by simp
  have u: "unhex (hi x # lo x # s) = x # unhex s" for x s
    using unhex_hex_byte [of x s] by (simp add: hex_byte_eq hi_def lo_def)
  show ?thesis
    unfolding randomId_def option.case uuid_text_chars [OF m]
    by (subst (33) list16 [OF m]) (simp add: u del: unhex.simps(1))
qed

text \<open>The 122 bits the fallback keeps of its random bytes: two ids are equal just when these are.\<close>

definition random_bits :: "8 word list \<Rightarrow> 8 word list" where
  "random_bits b = b[6 := b ! 6 AND 0x0f, 8 := b ! 8 AND 0x3f]"

lemma unstamp:
  "((x AND 0x0f) OR 0x40) AND 0x0f = (x AND 0x0f :: 8 word)"
  "((x AND 0x3f) OR 0x80) AND 0x3f = (x AND 0x3f :: 8 word)"
  by (simp_all add: bit.conj_disj_distrib2 and.assoc)

lemma random_bits_stamp: "length b = 16 \<Longrightarrow> random_bits (stamp_version b) = random_bits b"
  by (simp add: random_bits_def stamp_version_def Let_def unstamp list_update_swap)

lemma stamp_random_bits: "length b = 16 \<Longrightarrow> stamp_version (random_bits b) = stamp_version b"
  by (rule nth_equalityI)
    (simp_all add: random_bits_def stamp_version_def Let_def and.assoc nth_list_update)

lemma randomId_eq_iff:
  assumes "length b = 16" "length c = 16"
  shows "randomId None b = randomId None c \<longleftrightarrow> random_bits b = random_bits c"
proof
  assume "randomId None b = randomId None c"
  then have "stamp_version b = stamp_version c"
    using randomId_bytes [OF assms(1)] randomId_bytes [OF assms(2)] by simp
  then show "random_bits b = random_bits c" by (metis random_bits_stamp assms)
next
  assume "random_bits b = random_bits c"
  then have "stamp_version b = stamp_version c" by (metis stamp_random_bits assms)
  then show "randomId None b = randomId None c" by (simp add: randomId_def)
qed

subsection \<open>Query strings\<close>

text \<open>
  The application/x-www-form-urlencoded serialiser of URLSearchParams on strings of characters
  up to U+00FF: each is one or two UTF-8 bytes, and a byte is kept when it is alphanumeric or
  one of \<open>* - . _\<close>, a blank is a plus, any other is percent-encoded.
\<close>

definition utf8 :: "char \<Rightarrow> nat list" where
  "utf8 c = (let n = of_char c in if n < 128 then [n] else [192 + n div 64, 128 + n mod 64])"

definition form_safe :: "nat \<Rightarrow> bool" where
  "form_safe n \<longleftrightarrow> (48 \<le> n \<and> n \<le> 57) \<or> (65 \<le> n \<and> n \<le> 90) \<or> (97 \<le> n \<and> n \<le> 122)
     \<or> n \<in> {42, 45, 46, 95}"

definition upper_hex :: "nat \<Rightarrow> char" where
  "upper_hex d = (if d < 10 then char_of (48 + d) else char_of (55 + d))"

definition form_byte :: "nat \<Rightarrow> string" where
  "form_byte n =
     (if form_safe n then [char_of n]
      else if n = 32 then ''+''
      else [CHR ''%'', upper_hex (n div 16), upper_hex (n mod 16)])"

definition form_encode :: "string \<Rightarrow> string" where
  "form_encode s = concat (map form_byte (concat (map utf8 s)))"

fun search_params :: "(string \<times> string) list \<Rightarrow> string" where
  "search_params [] = []"
| "search_params [(k, v)] = form_encode k @ ''='' @ form_encode v"
| "search_params ((k, v) # p # ps) = form_encode k @ ''='' @ form_encode v @ ''&'' @ search_params (p # ps)"

text \<open>The bytes a receiver decodes from an encoded string.\<close>

fun form_bytes :: "string \<Rightarrow> nat list" where
  "form_bytes [] = []"
| "form_bytes (c # s) =
     (if c = CHR ''%''
      then (case s of a # b # r \<Rightarrow> (16 * hex_val a + hex_val b) # form_bytes r | _ \<Rightarrow> 37 # form_bytes s)
      else if c = CHR ''+'' then 32 # form_bytes s
      else of_char c # form_bytes s)"

fun utf8_decode :: "nat list \<Rightarrow> string" where
  "utf8_decode [] = []"
| "utf8_decode (n # ns) =
     (if n < 128 then char_of n # utf8_decode ns
      else (case ns of m # r \<Rightarrow> char_of (64 * (n - 192) + (m - 128)) # utf8_decode r | [] \<Rightarrow> []))"

lemma hex_val_upper [simp]: "d < 16 \<Longrightarrow> hex_val (upper_hex d) = d"
  by (simp add: hex_val_def upper_hex_def Let_def)

lemma char_of_neq: "n < 256 \<Longrightarrow> n \<noteq> of_char c \<Longrightarrow> char_of (n :: nat) \<noteq> c"
  by auto

lemma form_bytes_byte:
  assumes "n < 256"
  shows "form_bytes (form_byte n @ s) = n # form_bytes s"
proof (cases "form_safe n")
  case True
  then have "n \<noteq> 37" "n \<noteq> 43" by (auto simp: form_safe_def)
  then have "char_of n \<noteq> CHR ''%''" "char_of n \<noteq> CHR ''+''"
    using char_of_neq [OF assms, of "CHR ''%''"] char_of_neq [OF assms, of "CHR ''+''"] by simp_all
  with True assms show ?thesis by (simp add: form_byte_def)
next
  case False
  have "n div 16 < 16" using assms by (simp add: less_mult_imp_div_less)
  with False show ?thesis by (simp add: form_byte_def)
qed

lemma form_bytes_encoded:
  "\<forall>n \<in> set ns. n < 256 \<Longrightarrow> form_bytes (concat (map form_byte ns)) = ns"
  by (induction ns) (simp_all add: form_bytes_byte)

lemma utf8_bytes: "n \<in> set (utf8 c) \<Longrightarrow> n < 256"
proof -
  have "(of_char c :: nat) < 256" by simp
  then have "of_char c div (64 :: nat) < 4" by (simp add: less_mult_imp_div_less)
  then show "n \<in> set (utf8 c) \<Longrightarrow> n < 256"
    by (auto simp: utf8_def Let_def split: if_splits)
qed

lemma utf8_decode_char: "utf8_decode (utf8 c @ ns) = c # utf8_decode ns"
proof -
  have "64 * (of_char c div 64) + of_char c mod 64 = (of_char c :: nat)" by simp
  then show ?thesis by (simp add: utf8_def Let_def)
qed

theorem form_roundtrip: "utf8_decode (form_bytes (form_encode s)) = s"
proof -
  have "form_bytes (form_encode s) = concat (map utf8 s)"
    unfolding form_encode_def by (rule form_bytes_encoded) (auto dest: utf8_bytes)
  moreover have "utf8_decode (concat (map utf8 s)) = s"
    by (induction s) (simp_all add: utf8_decode_char)
  ultimately show ?thesis by simp
qed

end
