(* ===== verification/WebClient.thy ===== *)
theory WebClient
  imports WebIds Payments BankConfig OutboxCleanup
begin

text \<open>
  The web console's client logic: the fetch wrappers of \<open>apps/web/src/lib/api.ts\<close>, the polling
  hook \<open>usePolling.ts\<close>, the submission form \<open>components/SubmitPaymentForm.tsx\<close>, the chaos page
  and the tally of \<open>components/PipelineRail.tsx\<close>. The network is an argument \<open>fetch\<close> over a
  world \<open>'w\<close>; at the end it is instantiated with a browser in front of the payments API, so
  that the form can be run against the server's model. Markup is left out.
\<close>

subsection \<open>JSON values in JavaScript\<close>

text \<open>What a catch clause gets: an Error with its message, or something else.\<close>

datatype thrown = ErrorObject string | OtherThrown

type_synonym 'a client = "thrown + 'a"

fun message_or :: "string \<Rightarrow> thrown \<Rightarrow> string" where
  "message_or fallback (ErrorObject m) = m"
| "message_or fallback OtherThrown = fallback"

definition int_str :: "int \<Rightarrow> string" where
  "int_str n = (if n < 0 then CHR ''-'' # nat_str (nat (- n)) else nat_str (nat n))"

fun comma_join :: "string list \<Rightarrow> string" where
  "comma_join [] = []"
| "comma_join [s] = s"
| "comma_join (s # t # ss) = s @ '','' @ comma_join (t # ss)"

text \<open>\<open>String(v)\<close> of a parsed JSON value.\<close>

fun js_String :: "json \<Rightarrow> string" where
  "js_String JNull = ''null''"
| "js_String (JBool b) = (if b then ''true'' else ''false'')"
| "js_String (JNum n) = int_str n"
| "js_String (JStr s) = s"
| "js_String (JArr vs) = comma_join (map (\<lambda>v. if v = JNull then [] else js_String v) vs)"
| "js_String (JObj fs) = ''[object Object]''"

text \<open>
  \<open>v.k\<close> for a name that no primitive or array has: undefined outside objects, the last field
  of that name in the text of an object, and a TypeError on null.
\<close>

fun js_prop :: "json \<Rightarrow> string \<Rightarrow> json option" where
  "js_prop (JObj fs) k = map_of (rev fs) k"
| "js_prop _ k = None"

fun coalesce :: "json option list \<Rightarrow> json option" where
  "coalesce [] = None"
| "coalesce (v # vs) = (if is_absent v then coalesce vs else v)"

subsection \<open>Fetch wrappers\<close>

record fetch_request =
  fq_method :: string
  fq_url :: string
  fq_headers :: "(string \<times> string) list"
  fq_body :: "json option"

text \<open>A response, with its body when that parses as JSON.\<close>

record fetch_response =
  fr_status :: nat
  fr_statusText :: string
  fr_headers :: "(string \<times> string) list"
  fr_json :: "json option"

type_synonym 'w fetch = "fetch_request \<Rightarrow> 'w \<Rightarrow> fetch_response client \<times> 'w"

definition API_BASE :: "string option \<Rightarrow> string" where
  "API_BASE var = (case var of None \<Rightarrow> ''http://localhost:3000'' | Some b \<Rightarrow> b)"

definition fr_ok :: "fetch_response \<Rightarrow> bool" where
  "fr_ok r \<longleftrightarrow> 200 \<le> fr_status r \<and> fr_status r \<le> 299"

definition status_line :: "fetch_response \<Rightarrow> string" where
  "status_line r = nat_str (fr_status r) @ '' '' @ fr_statusText r"

definition res_json :: "fetch_response \<Rightarrow> json client" where
  "res_json r = (case fr_json r of None \<Rightarrow> Inl (ErrorObject ''SyntaxError'') | Some j \<Rightarrow> Inr j)"

definition http_get :: "'w fetch \<Rightarrow> string \<Rightarrow> string \<Rightarrow> 'w \<Rightarrow> json client \<times> 'w" where
  "http_get fetch base path w =
     (case fetch \<lparr>fq_method = ''GET'', fq_url = base @ path, fq_headers = [], fq_body = None\<rparr> w of
        (Inl e, w') \<Rightarrow> (Inl e, w')
      | (Inr r, w') \<Rightarrow>
          if \<not> fr_ok r then (Inl (ErrorObject (''GET '' @ path @ '' failed: '' @ status_line r)), w')
          else (res_json r, w'))"

record list_params =
  lp_status :: "string option"
  lp_cursor :: "string option"
  lp_limit :: "nat option"

text \<open>Empty strings and a zero limit are falsy and set no parameter.\<close>

definition list_suffix :: "list_params \<Rightarrow> string" where
  "list_suffix p =
     (let qs = search_params
        ((case lp_status p of Some s \<Rightarrow> if s = [] then [] else [(''status'', s)] | None \<Rightarrow> [])
         @ (case lp_cursor p of Some c \<Rightarrow> if c = [] then [] else [(''cursor'', c)] | None \<Rightarrow> [])
         @ (case lp_limit p of Some n \<Rightarrow> if n = 0 then [] else [(''limit'', nat_str n)] | None \<Rightarrow> []))
      in if qs = [] then [] else ''?'' @ qs)"

definition listPayments :: "'w fetch \<Rightarrow> string \<Rightarrow> list_params \<Rightarrow> 'w \<Rightarrow> json client \<times> 'w" where
  "listPayments fetch base p w = http_get fetch base (''/v1/payments'' @ list_suffix p) w"

definition getPayment :: "'w fetch \<Rightarrow> string \<Rightarrow> string \<Rightarrow> 'w \<Rightarrow> json client \<times> 'w" where
  "getPayment fetch base i w = http_get fetch base (''/v1/payments/'' @ i) w"

definition listEvents :: "'w fetch \<Rightarrow> string \<Rightarrow> string \<Rightarrow> 'w \<Rightarrow> json client \<times> 'w" where
  "listEvents fetch base i w = http_get fetch base (''/v1/payments/'' @ i @ ''/events'') w"

definition listDeliveries :: "'w fetch \<Rightarrow> string \<Rightarrow> list_params \<Rightarrow> 'w \<Rightarrow> json client \<times> 'w" where
  "listDeliveries fetch base p w = http_get fetch base (''/v1/webhook-deliveries'' @ list_suffix p) w"

definition listEndpoints :: "'w fetch \<Rightarrow> string \<Rightarrow> 'w \<Rightarrow> json client \<times> 'w" where
  "listEndpoints fetch base w = http_get fetch base ''/v1/webhook-endpoints'' w"

definition getBankConfig :: "'w fetch \<Rightarrow> string \<Rightarrow> 'w \<Rightarrow> json client \<times> 'w" where
  "getBankConfig fetch base w = http_get fetch base ''/v1/admin/bank-config'' w"

text \<open>
  The message of a refused write: the first of \<open>detail\<close>, \<open>title\<close>, \<open>message\<close> the body has, else
  the status line; reading a property of null throws into the catch that keeps the line.
\<close>

definition error_detail :: "fetch_response \<Rightarrow> string" where
  "error_detail r =
     (case fr_json r of
        None \<Rightarrow> status_line r
      | Some JNull \<Rightarrow> status_line r
      | Some b \<Rightarrow>
          (case coalesce [js_prop b ''detail'', js_prop b ''title'', js_prop b ''message''] of
             None \<Rightarrow> status_line r
           | Some v \<Rightarrow> js_String v))"

text \<open>The common shape of the three writes: the parsed body and the response it came in.\<close>

definition send_json :: "'w fetch \<Rightarrow> fetch_request \<Rightarrow> 'w \<Rightarrow> (json \<times> fetch_response) client \<times> 'w" where
  "send_json fetch q w =
     (case fetch q w of
        (Inl e, w') \<Rightarrow> (Inl e, w')
      | (Inr r, w') \<Rightarrow>
          if \<not> fr_ok r then (Inl (ErrorObject (error_detail r)), w')
          else (case res_json r of Inl e \<Rightarrow> (Inl e, w') | Inr j \<Rightarrow> (Inr (j, r), w')))"

definition updateBankConfig :: "'w fetch \<Rightarrow> string \<Rightarrow> fields \<Rightarrow> 'w \<Rightarrow> json client \<times> 'w" where
  "updateBankConfig fetch base patch w =
     (case send_json fetch \<lparr>fq_method = ''PUT'', fq_url = base @ ''/v1/admin/bank-config'',
        fq_headers = [(''content-type'', ''application/json'')], fq_body = Some (JObj patch)\<rparr> w of
        (r, w') \<Rightarrow> (map_sum id fst r, w'))"

definition createEndpoint :: "'w fetch \<Rightarrow> string \<Rightarrow> string \<Rightarrow> 'w \<Rightarrow> json client \<times> 'w" where
  "createEndpoint fetch base target_url w =
     (case send_json fetch \<lparr>fq_method = ''POST'', fq_url = base @ ''/v1/webhook-endpoints'',
        fq_headers = [(''content-type'', ''application/json'')],
        fq_body = Some (JObj [(''url'', JStr target_url)])\<rparr> w of
        (r, w') \<Rightarrow> (map_sum id fst r, w'))"

record payment_input =
  in_customerId :: string
  in_sourceAccount :: string
  in_destinationAccount :: string
  in_amount :: string
  in_currency :: "string option"
  in_reference :: "string option"

text \<open>\<open>JSON.stringify\<close> leaves out a field that is undefined.\<close>

definition opt_json :: "string \<Rightarrow> string option \<Rightarrow> fields" where
  "opt_json k v = (case v of None \<Rightarrow> [] | Some s \<Rightarrow> [(k, JStr s)])"

definition input_fields :: "payment_input \<Rightarrow> fields" where
  "input_fields i =
     [(''customerId'', JStr (in_customerId i)), (''sourceAccount'', JStr (in_sourceAccount i)),
      (''destinationAccount'', JStr (in_destinationAccount i)), (''amount'', JStr (in_amount i))]
     @ opt_json ''currency'' (in_currency i) @ opt_json ''reference'' (in_reference i)"

definition submitPayment :: "'w fetch \<Rightarrow> string \<Rightarrow> payment_input \<Rightarrow> string \<Rightarrow> 'w
  \<Rightarrow> (json \<times> string option) client \<times> 'w" where
  "submitPayment fetch base input key w =
     (case send_json fetch \<lparr>fq_method = ''POST'', fq_url = base @ ''/v1/payments'',
        fq_headers = [(''content-type'', ''application/json''), (''idempotency-key'', key)],
        fq_body = Some (JObj (input_fields input))\<rparr> w of
        (r, w') \<Rightarrow> (map_sum id (\<lambda>(j, res). (j, map_of (fr_headers res) ''x-correlation-id'')) r, w'))"

subsection \<open>The submission form\<close>

datatype form_result =
    ResNew "json option" "json option" "string option"
  | ResReplay "json option" "json option" "string option"
  | ResError string

text \<open>\<open>createdIds\<close> is the set of payment ids this mounted form has seen.\<close>

record form_state =
  fs_form :: payment_input
  fs_key :: string
  fs_submitting :: bool
  fs_result :: "form_result option"
  fs_createdIds :: "json option list"

definition DEFAULTS :: payment_input where
  "DEFAULTS =
     \<lparr>in_customerId = ''C12345'', in_sourceAccount = ''VA10001'', in_destinationAccount = ''EXT98765'',
      in_amount = ''250.00'', in_currency = None, in_reference = Some ''PMT-1001''\<rparr>"

definition new_form :: "string \<Rightarrow> form_state" where
  "new_form key =
     \<lparr>fs_form = DEFAULTS, fs_key = key, fs_submitting = False, fs_result = None, fs_createdIds = []\<rparr>"

text \<open>\<open>form.reference?.trim() || undefined\<close>\<close>

definition form_input :: "payment_input \<Rightarrow> payment_input" where
  "form_input f =
     f\<lparr>in_reference := (case in_reference f of
          None \<Rightarrow> None
        | Some s \<Rightarrow> if js_trim s = [] then None else Some (js_trim s))\<rparr>"

definition submit_begin :: "form_state \<Rightarrow> form_state" where
  "submit_begin s = s\<lparr>fs_submitting := True, fs_result := None\<rparr>"

text \<open>
  What follows the awaited call; a body of null makes the access to its id throw, which the
  catch shows like any error.
\<close>

definition submit_end :: "(json \<times> string option) client \<Rightarrow> form_state \<Rightarrow> form_state" where
  "submit_end reply s =
     (case reply of
        Inl e \<Rightarrow> s\<lparr>fs_result := Some (ResError (message_or ''Submission failed'' e)), fs_submitting := False\<rparr>
      | Inr (pay, corr) \<Rightarrow>
          if pay = JNull
          then s\<lparr>fs_result := Some (ResError ''TypeError''), fs_submitting := False\<rparr>
          else (let i = js_prop pay ''id''; seen = i \<in> set (fs_createdIds s)
                in s\<lparr>fs_createdIds := (if seen then fs_createdIds s else i # fs_createdIds s),
                     fs_result := Some (if seen then ResReplay i (js_prop pay ''status'') corr
                                        else ResNew i (js_prop pay ''status'') corr),
                     fs_submitting := False\<rparr>))"

definition handleSubmit :: "'w fetch \<Rightarrow> string \<Rightarrow> form_state \<Rightarrow> 'w \<Rightarrow> form_state \<times> 'w" where
  "handleSubmit fetch base s w =
     (case submitPayment fetch base (form_input (fs_form s)) (fs_key s) w of
        (reply, w') \<Rightarrow> (submit_end reply (submit_begin s), w'))"

text \<open>The button is disabled while a submission is in flight.\<close>

definition click_submit :: "'w fetch \<Rightarrow> string \<Rightarrow> form_state \<Rightarrow> 'w \<Rightarrow> form_state \<times> 'w" where
  "click_submit fetch base s w = (if fs_submitting s then (s, w) else handleSubmit fetch base s w)"

lemma submit_end_frame [simp]:
  "fs_form (submit_end r (submit_begin s)) = fs_form s"
  "fs_key (submit_end r (submit_begin s)) = fs_key s"
  "fs_submitting (submit_end r (submit_begin s)) = False"
  by (simp_all add: submit_end_def submit_begin_def Let_def split: sum.splits prod.splits)

lemma submit_end_error:
  "submit_end (Inl e) (submit_begin s)
     = s\<lparr>fs_result := Some (ResError (message_or ''Submission failed'' e)), fs_submitting := False\<rparr>"
  by (simp add: submit_end_def submit_begin_def)

subsection \<open>Polling\<close>

text \<open>
  The effect of \<open>usePolling\<close> between mount and clean-up: its flag, its interval and its listener.
  A signal comes with the visibility of the document and is answered by calling \<open>fn\<close> or not.
\<close>

record poller =
  po_cancelled :: bool
  po_interval :: bool
  po_listener :: bool

datatype poll_signal = IntervalFires | VisibilityChanges | Unmount

definition poll_run :: "poller \<Rightarrow> bool \<Rightarrow> bool" where
  "poll_run p visible \<longleftrightarrow> \<not> po_cancelled p \<and> visible"

definition poll_mount :: "bool \<Rightarrow> bool \<Rightarrow> poller option \<times> bool" where
  "poll_mount enabled visible =
     (if \<not> enabled then (None, False)
      else (let p = \<lparr>po_cancelled = False, po_interval = True, po_listener = True\<rparr>
            in (Some p, poll_run p visible)))"

fun poll_step :: "poller \<Rightarrow> poll_signal \<Rightarrow> bool \<Rightarrow> poller \<times> bool" where
  "poll_step p IntervalFires visible = (p, po_interval p \<and> poll_run p visible)"
| "poll_step p VisibilityChanges visible = (p, po_listener p \<and> poll_run p visible)"
| "poll_step p Unmount visible =
     (p\<lparr>po_cancelled := True, po_interval := False, po_listener := False\<rparr>, False)"

fun poll_calls :: "poller \<Rightarrow> (poll_signal \<times> bool) list \<Rightarrow> bool list" where
  "poll_calls p [] = []"
| "poll_calls p ((sg, visible) # sgs) =
     (case poll_step p sg visible of (p', called) \<Rightarrow> called # poll_calls p' sgs)"

text \<open>Nothing is fetched while the tab is hidden, nor after the clean-up.\<close>

lemma poll_calls_cancelled: "po_cancelled p \<Longrightarrow> True \<notin> set (poll_calls p sgs)"
proof (induction sgs arbitrary: p)
  case (Cons sv sgs)
  then show ?case by (cases sv; cases "fst sv") (auto simp: poll_run_def)
qed simp

lemma poll_calls_hidden: "\<forall>sv \<in> set sgs. \<not> snd sv \<Longrightarrow> True \<notin> set (poll_calls p sgs)"
proof (induction sgs arbitrary: p)
  case (Cons sv sgs)
  then show ?case by (cases sv; cases "fst sv") (auto simp: poll_run_def)
qed simp

text \<open>A mounted hook refreshes as soon as the tab is visible again.\<close>

lemma poll_resumes:
  "poll_mount True v = (Some p, c) \<Longrightarrow> poll_step p VisibilityChanges True = (p, True)"
  by (auto simp: poll_mount_def Let_def poll_run_def)

subsection \<open>Pages\<close>

text \<open>The state the dashboard keeps, and its \<open>refresh\<close>: a failure keeps the rows shown.\<close>

record 'a dashboard =
  db_payments :: "'a list"
  db_error :: "string option"
  db_loading :: bool
  db_lastSync :: "string option"

definition dashboard_refresh :: "'a list client \<Rightarrow> string \<Rightarrow> 'a dashboard \<Rightarrow> 'a dashboard" where
  "dashboard_refresh reply now s =
     (case reply of
        Inr rows \<Rightarrow> s\<lparr>db_payments := rows, db_lastSync := Some now, db_error := None, db_loading := False\<rparr>
      | Inl e \<Rightarrow> s\<lparr>db_error := Some (message_or ''Failed to load payments'' e), db_loading := False\<rparr>)"

text \<open>\<open>tally\<close> of the pipeline rail: the counts are those of the rows, and add up to them.\<close>

definition tally :: "payment list \<Rightarrow> payment_status \<Rightarrow> nat" where
  "tally ps = foldl (\<lambda>c p. c(status p := c (status p) + 1)) (\<lambda>_. 0) ps"

lemma tally_count: "tally ps st = count_where (\<lambda>p. status p = st) ps"
proof -
  have "foldl (\<lambda>c p. c(status p := c (status p) + 1)) c ps st = c st + count_where (\<lambda>p. status p = st) ps" for c
    by (induction ps arbitrary: c) auto
  then show ?thesis by (simp add: tally_def)
qed

lemma tally_total:
  "tally ps PENDING + tally ps PROCESSING + tally ps RETRYING + tally ps COMPLETED + tally ps FAILED
     = length ps"
  unfolding tally_count
proof (induction ps)
  case (Cons p ps)
  then show ?case by (cases "status p") simp_all
qed simp

subsection \<open>The chaos page\<close>

record chaos =
  ch_config :: "bank_config_row option"
  ch_mode :: bank_mode
  ch_latencyMs :: int
  ch_failN :: int
  ch_applying :: bool
  ch_error :: "string option"
  ch_initialized :: bool

definition new_chaos :: chaos where
  "new_chaos = \<lparr>ch_config = None, ch_mode = Always_authorize, ch_latencyMs = 200, ch_failN = 2,
     ch_applying = False, ch_error = None, ch_initialized = False\<rparr>"

text \<open>The first poll that succeeds seeds the form; later ones leave the edits alone.\<close>

definition chaos_refresh :: "bank_config_row client \<Rightarrow> chaos \<Rightarrow> chaos" where
  "chaos_refresh reply s =
     (case reply of
        Inr c \<Rightarrow>
          (let s1 = s\<lparr>ch_config := Some c, ch_error := None\<rparr>
           in if ch_initialized s then s1
              else s1\<lparr>ch_mode := mode c, ch_latencyMs := latencyMs c, ch_failN := int (failN c),
                      ch_initialized := True\<rparr>)
      | Inl e \<Rightarrow> s\<lparr>ch_error := Some (message_or ''Failed to load bank config'' e)\<rparr>)"

definition mode_str :: "bank_mode \<Rightarrow> string" where
  "mode_str m = (case m of Always_authorize \<Rightarrow> ''always_authorize'' | Always_decline \<Rightarrow> ''always_decline''
     | Always_error \<Rightarrow> ''always_error'' | Fail_n_then_authorize \<Rightarrow> ''fail_n_then_authorize'')"

definition chaos_patch :: "chaos \<Rightarrow> fields" where
  "chaos_patch s = [(''mode'', JStr (mode_str (ch_mode s))), (''latencyMs'', JNum (ch_latencyMs s)),
     (''failN'', JNum (ch_failN s))]"

definition chaos_begin :: "chaos \<Rightarrow> chaos" where
  "chaos_begin s = s\<lparr>ch_applying := True, ch_error := None\<rparr>"

definition chaos_end :: "bank_config_row client \<Rightarrow> chaos \<Rightarrow> chaos" where
  "chaos_end reply s =
     (case reply of
        Inr c \<Rightarrow> s\<lparr>ch_config := Some c, ch_applying := False\<rparr>
      | Inl e \<Rightarrow> s\<lparr>ch_error := Some (message_or ''Failed to apply'' e), ch_applying := False\<rparr>)"

definition chaos_dirty :: "chaos \<Rightarrow> bool" where
  "chaos_dirty s =
     (case ch_config s of
        None \<Rightarrow> False
      | Some c \<Rightarrow> mode c \<noteq> ch_mode s \<or> latencyMs c \<noteq> ch_latencyMs s \<or> int (failN c) \<noteq> ch_failN s)"

text \<open>The page's PUT answered by the admin controller; an empty body does not parse.\<close>

definition put_bank_config :: "fields \<Rightarrow> int \<Rightarrow> db \<Rightarrow> bank_config_row client \<times> db" where
  "put_bank_config patch now d =
     (case controller_update patch now d of
        (Inl e, d') \<Rightarrow> (Inl (ErrorObject (pd_detail (problem_of ''/v1/admin/bank-config'' e))), d')
      | (Inr None, d') \<Rightarrow> (Inl (ErrorObject ''SyntaxError''), d')
      | (Inr (Some row), d') \<Rightarrow> (Inr row, d'))"

definition chaos_apply :: "int \<Rightarrow> chaos \<Rightarrow> db \<Rightarrow> chaos \<times> db" where
  "chaos_apply now s d =
     (case put_bank_config (chaos_patch s) now d of
        (reply, d') \<Rightarrow> (chaos_end reply (chaos_begin s), d'))"

lemma mode_str_name [simp]: "map_of bank_mode_names (mode_str m) = Some m"
  by (cases m) (simp_all add: mode_str_def bank_mode_names_def)

lemma mode_str_in [simp]: "mode_str m \<in> set (map fst bank_mode_names)"
  by (cases m) (simp_all add: mode_str_def bank_mode_names_def)

lemma pipe_chaos_patch:
  assumes "0 \<le> ch_latencyMs s" "ch_latencyMs s \<le> 30000" "0 \<le> ch_failN s" "ch_failN s \<le> 100"
  shows "pipe_update_bank_config (chaos_patch s) = Inr \<lparr>ub_mode = Given (ch_mode s),
    ub_latencyMs = Given (ch_latencyMs s), ub_failN = Given (ch_failN s)\<rparr>"
proof -
  have "validate update_bank_config_checks (chaos_patch s) = []"
    using assms mode_str_in [of "ch_mode s"]
    by (simp add: validate_def update_bank_config_checks_def chaos_patch_def)
  then show ?thesis by (simp add: pipe_update_bank_config_def) (simp add: chaos_patch_def)
qed

text \<open>What the form holds is what the row holds after Apply, and the page knows it.\<close>

lemma chaos_apply_row:
  assumes "0 \<le> ch_latencyMs s" "ch_latencyMs s \<le> 30000" "0 \<le> ch_failN s" "ch_failN s \<le> 100"
    and "bank_config_get d = Some row"
  shows "\<exists>row'. bank_config_get (snd (chaos_apply now s d)) = Some row'
    \<and> mode row' = ch_mode s \<and> latencyMs row' = ch_latencyMs s \<and> int (failN row') = ch_failN s
    \<and> b_updatedAt row' = now \<and> \<not> chaos_dirty (fst (chaos_apply now s d))"
proof -
  define dto where "dto = \<lparr>ub_mode = Given (ch_mode s), ub_latencyMs = Given (ch_latencyMs s),
    ub_failN = Given (ch_failN s)\<rparr>"
  have "pipe_update_bank_config (chaos_patch s) = Inr dto"
    unfolding dto_def by (rule pipe_chaos_patch) (use assms in simp_all)
  moreover have nn: "ub_mode dto \<noteq> Null" "ub_latencyMs dto \<noteq> Null" "ub_failN dto \<noteq> Null"
    by (simp_all add: dto_def)
  note get = bank_config_get_update [OF assms(5) nn, of now]
  define d1 where "d1 = snd (bank_config_update dto now d)"
  have upd: "bank_config_update dto now d = (Inr (Some (patch_row dto now row)), d1)"
    "bank_config_get d1 = Some (patch_row dto now row)"
    unfolding d1_def using conjunct1 [OF get] conjunct2 [OF get] by (metis snd_conv)+
  ultimately have "chaos_apply now s d = (chaos_end (Inr (patch_row dto now row)) (chaos_begin s), d1)"
    by (simp add: chaos_apply_def put_bank_config_def controller_update_def)
  then show ?thesis
    using upd(2) assms(3)
    by (simp add: patch_row_def dto_def chaos_end_def chaos_begin_def chaos_dirty_def)
qed

subsection \<open>The payments endpoint behind a browser\<close>

text \<open>\<open>Date.prototype.toISOString\<close> of a time with a four-digit year, as JSON prints dates.\<close>

definition pad2 :: "int \<Rightarrow> string" where
  "pad2 n = pad_start 2 (CHR ''0'') (nat_str (nat n))"

definition toISOString :: "int \<Rightarrow> string" where
  "toISOString t =
     (let ms = t mod MS_PER_DAY
      in isoDay (t div MS_PER_DAY) @ ''T'' @ pad2 (ms div 3600000) @ '':'' @ pad2 (ms div 60000 mod 60)
         @ '':'' @ pad2 (ms div 1000 mod 60) @ ''.'' @ pad_start 3 (CHR ''0'') (nat_str (nat (ms mod 1000)))
         @ ''Z'')"

definition nullable :: "string option \<Rightarrow> json" where
  "nullable v = (case v of None \<Rightarrow> JNull | Some s \<Rightarrow> JStr s)"

text \<open>A payment row as the API sends it, in the order of its columns.\<close>

definition payment_json :: "payment \<Rightarrow> json" where
  "payment_json p = JObj
     [(''id'', JStr (p_id p)), (''customerId'', JStr (customerId p)),
      (''sourceAccount'', JStr (sourceAccount p)), (''destinationAccount'', JStr (destinationAccount p)),
      (''amountCents'', JNum (amountCents p)), (''currency'', JStr (currency p)),
      (''reference'', nullable (reference p)), (''status'', JStr (status_str (status p))),
      (''version'', JNum (int (version p))), (''attemptCount'', JNum (int (attemptCount p))),
      (''lastErrorCode'', nullable (lastErrorCode p)), (''createdAt'', JStr (toISOString (p_createdAt p))),
      (''updatedAt'', JStr (toISOString (p_updatedAt p)))]"

definition problem_json :: "problem_doc \<Rightarrow> json" where
  "problem_json pd = JObj
     ([(''type'', JStr (pd_type pd))]
      @ opt_json ''title'' (pd_title pd)
      @ [(''status'', JNum (int (pd_status pd))), (''detail'', JStr (pd_detail pd)),
         (''instance'', JStr (pd_instance pd))]
      @ (case pd_errors pd of None \<Rightarrow> [] | Some es \<Rightarrow> [(''errors'', JArr (map JStr es))]))"

definition reason_phrase :: "nat \<Rightarrow> string" where
  "reason_phrase st = (case STATUS_CODES st of None \<Rightarrow> ''unknown'' | Some s \<Rightarrow> s)"

definition body_fields :: "json option \<Rightarrow> fields" where
  "body_fields b = (case b of Some (JObj fs) \<Rightarrow> fs | _ \<Rightarrow> [])"

text \<open>
  \<open>POST /v1/payments\<close>: the handler's answer with the headers the handler and the logger set,
  or the problem document of its error.
\<close>

definition api_payments :: "(create_payment_dto \<Rightarrow> string) \<Rightarrow> string \<Rightarrow> submit_env \<Rightarrow> fetch_request \<Rightarrow> db
  \<Rightarrow> fetch_response \<times> db" where
  "api_payments hash fresh en q d =
     (let reqId = genReqId (map_of (fq_headers q) ''x-correlation-id'') fresh;
          tag = (''x-correlation-id'', reqId)
      in case create_payment hash (body_fields (fq_body q)) (map_of (fq_headers q) ''idempotency-key'')
           reqId en d of
        (Inr a, d', _) \<Rightarrow>
          (\<lparr>fr_status = ar_status a, fr_statusText = reason_phrase (ar_status a),
            fr_headers = [tag, (''location'', ar_location a)], fr_json = Some (payment_json (ar_body a))\<rparr>, d')
      | (Inl e, d', _) \<Rightarrow>
          (let pd = problem_of ''/v1/payments'' e
           in (\<lparr>fr_status = pd_status pd, fr_statusText = reason_phrase (pd_status pd), fr_headers = [tag],
                fr_json = Some (problem_json pd)\<rparr>, d')))"

text \<open>
  The browser, for a request that needs a preflight (these carry a JSON content type): header
  values lose the blanks around them; from a page of another origin the request is sent when
  the API's \<open>enableCors\<close> lists the origin, and the page may read the safelisted response headers
  only, since \<open>enableCors\<close> exposes no others.
\<close>

record origins =
  page_origin :: string
  api_origin :: string
  cors_origins :: "string list"

definition http_trim :: "string \<Rightarrow> string" where
  "http_trim s = (let blank = (\<lambda>c. (of_char c :: nat) \<in> {9, 10, 13, 32})
     in rev (dropWhile blank (rev (dropWhile blank s))))"

definition CORS_SAFELISTED :: "string list" where
  "CORS_SAFELISTED = [''cache-control'', ''content-language'', ''content-length'', ''content-type'',
     ''expires'', ''last-modified'', ''pragma'']"

definition browser_fetch :: "origins \<Rightarrow> (fetch_request \<Rightarrow> 'w \<Rightarrow> fetch_response \<times> 'w) \<Rightarrow> 'w fetch" where
  "browser_fetch og server q w =
     (let sent = q\<lparr>fq_headers := map (\<lambda>(k, v). (k, http_trim v)) (fq_headers q)\<rparr>
      in if page_origin og = api_origin og then (case server sent w of (r, w') \<Rightarrow> (Inr r, w'))
         else if page_origin og \<notin> set (cors_origins og) then (Inl (ErrorObject ''Failed to fetch''), w)
         else (case server sent w of (r, w') \<Rightarrow>
           (Inr (r\<lparr>fr_headers := filter (\<lambda>h. fst h \<in> set CORS_SAFELISTED) (fr_headers r)\<rparr>), w')))"

text \<open>What the form does to the database: a click, through the browser, to the handler.\<close>

definition form_click :: "origins \<Rightarrow> (create_payment_dto \<Rightarrow> string) \<Rightarrow> string \<Rightarrow> submit_env
  \<Rightarrow> form_state \<Rightarrow> db \<Rightarrow> form_state \<times> db" where
  "form_click og hash fresh en s d =
     click_submit (browser_fetch og (api_payments hash fresh en)) (api_origin og) s d"

text \<open>What the handler receives of a form.\<close>

definition form_dto :: "payment_input \<Rightarrow> create_payment_dto" where
  "form_dto f = to_create_payment (input_fields (form_input f))"

lemma js_prop_payment [simp]:
  "js_prop (payment_json p) ''id'' = Some (JStr (p_id p))"
  "js_prop (payment_json p) ''status'' = Some (JStr (status_str (status p)))"
  "payment_json p \<noteq> JNull"
  by (simp_all add: payment_json_def)

lemma corr_exposed:
  "map_of (filter (\<lambda>h. fst h \<in> set CORS_SAFELISTED) [(''x-correlation-id'', r), (''location'', l)])
     ''x-correlation-id'' = None"
  by (simp add: CORS_SAFELISTED_def)

text \<open>The trace id a page can read from an answer: none unless it shares the API's origin.\<close>

definition readable_trace :: "origins \<Rightarrow> string \<Rightarrow> string option" where
  "readable_trace og fresh = (if page_origin og = api_origin og then Some fresh else None)"

definition origin_allowed :: "origins \<Rightarrow> bool" where
  "origin_allowed og \<longleftrightarrow> page_origin og = api_origin og \<or> page_origin og \<in> set (cors_origins og)"

text \<open>A click on a form the pipe accepts is one call of the service.\<close>

lemma form_click_call:
  assumes pipe: "pipe_create_payment (input_fields (form_input (fs_form s))) = Inr dto"
    and key: "http_trim (fs_key s) = k" "k \<noteq> []"
    and idle: "\<not> fs_submitting s" and og: "origin_allowed og"
    and txn: "insert_txn dto k (hash dto) fresh en d = (Inr r, d')"
  shows "form_click og hash fresh en s d =
    (submit_end (Inr (payment_json (body r), readable_trace og fresh)) (submit_begin s), d')"
proof -
  let ?q = "\<lparr>fq_method = ''POST'', fq_url = api_origin og @ ''/v1/payments'',
    fq_headers = [(''content-type'', ''application/json''), (''idempotency-key'', fs_key s)],
    fq_body = Some (JObj (input_fields (form_input (fs_form s))))\<rparr>"
  let ?sent = "?q\<lparr>fq_headers := [(''content-type'', http_trim ''application/json''),
    (''idempotency-key'', k)]\<rparr>"
  let ?res = "\<lparr>fr_status = 202, fr_statusText = reason_phrase 202,
    fr_headers = [(''x-correlation-id'', fresh), (''location'', ''/v1/payments/'' @ p_id (body r))],
    fr_json = Some (payment_json (body r))\<rparr>"
  have api: "api_payments hash fresh en ?sent d = (?res, d')"
    using pipe key(2) txn by (simp add: api_payments_def create_payment_def body_fields_def genReqId_def)
  have "\<exists>h. browser_fetch og (api_payments hash fresh en) ?q d = (Inr (?res\<lparr>fr_headers := h\<rparr>), d')
      \<and> map_of h ''x-correlation-id'' = readable_trace og fresh"
    using og api key(1) corr_exposed [of fresh "''/v1/payments/'' @ p_id (body r)"]
    by (auto simp: browser_fetch_def origin_allowed_def readable_trace_def)
  then show ?thesis
    using idle by (auto simp: form_click_def click_submit_def handleSubmit_def submitPayment_def
        send_json_def fr_ok_def res_json_def)
qed

text \<open>
  Two clicks with one key: the first creates, the second, whatever happened to the payment in
  between, is answered with the recorded payment and changes nothing.
\<close>

lemma form_click_new:
  assumes pipe: "pipe_create_payment (input_fields (form_input (fs_form s))) = Inr dto"
    and amount: "convAmountToUnits (dto_amount dto) = Inr c"
    and key: "http_trim (fs_key s) = k" "k \<noteq> []"
    and idle: "\<not> fs_submitting s" and og: "origin_allowed og"
    and new: "submit_env_fresh en d" "find_key (dto_customerId dto) k d = None"
    and unseen: "Some (JStr (se_id en)) \<notin> set (fs_createdIds s)"
  shows "form_click og hash fresh en s d =
    (s\<lparr>fs_createdIds := Some (JStr (se_id en)) # fs_createdIds s,
       fs_result := Some (ResNew (Some (JStr (se_id en))) (Some (JStr ''PENDING'')) (readable_trace og fresh)),
       fs_submitting := False\<rparr>,
     submitted_db dto \<lfloor>c\<rfloor> k (hash dto) fresh en d)"
  using form_click_call [OF pipe key idle og insert_txn_new [OF amount new]] unseen
  by (simp add: submit_end_def submit_begin_def Let_def)

lemma form_click_replay:
  assumes pipe: "pipe_create_payment (input_fields (form_input (fs_form s))) = Inr dto"
    and amount: "convAmountToUnits (dto_amount dto) = Inr c"
    and key: "http_trim (fs_key s) = k" "k \<noteq> []"
    and idle: "\<not> fs_submitting s" and og: "origin_allowed og"
    and used: "find_key (dto_customerId dto) k d = Some x" "requestHash x = hash dto"
  shows "form_click og hash fresh en s d =
    (submit_end (Inr (payment_json (responseBody x), readable_trace og fresh)) (submit_begin s), d)"
proof -
  have "insert_txn dto k (hash dto) fresh en d
      = (Inr \<lparr>replayed = True, sr_status = responseStatus x, body = responseBody x\<rparr>, d)"
    using insert_txn_used_key [OF amount used(1)] used(2) by simp
  from form_click_call [where hash = hash and fresh = fresh, OF pipe key idle og this] show ?thesis by simp
qed

end
