(* ===== verification/WebPages.thy ===== *)
theory WebPages
  imports WebClient Webhooks
begin

text \<open>
  The remaining pages of the web console: the webhooks page \<open>apps/web/src/app/webhooks/page.tsx\<close>
  with the endpoint handlers behind it, the payment page \<open>app/payments/[id]/page.tsx\<close>, the form's
  fields, the navigation of \<open>AppShell.tsx\<close> and what the tables and the audit timeline print.
  Shown: registering an endpoint shows its secret once and stores it active, a failed load keeps
  what a page shows, and every path lights at most one entry of the navigation.
\<close>

subsection \<open>Loading two resources\<close>

text \<open>\<open>Promise.all\<close> of two calls; \<open>left\<close> tells which rejection comes first when both reject.\<close>

fun promise_all :: "bool \<Rightarrow> 'a client \<Rightarrow> 'b client \<Rightarrow> ('a \<times> 'b) client" where
  "promise_all left (Inr a) (Inr b) = Inr (a, b)"
| "promise_all left (Inl e) (Inr b) = Inl e"
| "promise_all left (Inr a) (Inl e) = Inl e"
| "promise_all left (Inl e) (Inl f) = Inl (if left then e else f)"

subsection \<open>The webhooks page\<close>

record ('d, 'e) webhooks_page =
  wp_deliveries :: "'d list"
  wp_endpoints :: "'e list"
  wp_error :: "string option"
  wp_lastSync :: "string option"
  wp_url :: string
  wp_registering :: bool
  wp_secret :: "json option"
  wp_formError :: "string option"

definition new_webhooks_page :: "('d, 'e) webhooks_page" where
  "new_webhooks_page = \<lparr>wp_deliveries = [], wp_endpoints = [], wp_error = None, wp_lastSync = None,
     wp_url = [], wp_registering = False, wp_secret = None, wp_formError = None\<rparr>"

definition webhooks_refresh :: "('d list \<times> 'e list) client \<Rightarrow> string \<Rightarrow> ('d, 'e) webhooks_page
  \<Rightarrow> ('d, 'e) webhooks_page" where
  "webhooks_refresh reply now s =
     (case reply of
        Inr (d, e) \<Rightarrow>
          s\<lparr>wp_deliveries := d, wp_endpoints := e, wp_lastSync := Some now, wp_error := None\<rparr>
      | Inl err \<Rightarrow> s\<lparr>wp_error := Some (message_or ''Failed to load webhooks'' err)\<rparr>)"

definition register_begin :: "('d, 'e) webhooks_page \<Rightarrow> ('d, 'e) webhooks_page" where
  "register_begin s = s\<lparr>wp_registering := True, wp_secret := None, wp_formError := None\<rparr>"

definition register_end :: "json client \<Rightarrow> ('d, 'e) webhooks_page \<Rightarrow> ('d, 'e) webhooks_page" where
  "register_end reply s =
     (case reply of
        Inl err \<Rightarrow>
          s\<lparr>wp_formError := Some (message_or ''Failed to register'' err), wp_registering := False\<rparr>
      | Inr created \<Rightarrow>
          if created = JNull then s\<lparr>wp_formError := Some ''TypeError'', wp_registering := False\<rparr>
          else s\<lparr>wp_secret := js_prop created ''secret'', wp_url := [], wp_registering := False\<rparr>)"

definition register :: "'w fetch \<Rightarrow> string \<Rightarrow> ('d, 'e) webhooks_page \<Rightarrow> 'w \<Rightarrow> ('d, 'e) webhooks_page \<times> 'w" where
  "register fetch base s w =
     (case createEndpoint fetch base (js_trim (wp_url s)) w of
        (reply, w') \<Rightarrow> (register_end reply (register_begin s), w'))"

lemma webhooks_refresh_keeps:
  "webhooks_refresh (Inl err) now s = s\<lparr>wp_error := Some (message_or ''Failed to load webhooks'' err)\<rparr>"
  by (simp add: webhooks_refresh_def)

subsection \<open>The endpoint handlers\<close>

definition endpoint_json :: "webhook_endpoint \<Rightarrow> json" where
  "endpoint_json r = JObj
     [(''id'', JStr (w_id r)), (''url'', JStr (url r)), (''secret'', JStr (secret r)),
      (''active'', JBool (active r)), (''createdAt'', JStr (toISOString (w_createdAt r))),
      (''description'', nullable (description r))]"

definition endpoint_view_json :: "endpoint_view \<Rightarrow> json" where
  "endpoint_view_json v = JObj
     [(''id'', JStr (evw_id v)), (''url'', JStr (evw_url v)), (''active'', JBool (evw_active v)),
      (''createdAt'', JStr (toISOString (evw_createdAt v))), (''description'', nullable (evw_description v))]"

definition problem_response :: "string \<Rightarrow> js_error \<Rightarrow> fetch_response" where
  "problem_response path e =
     (let pd = problem_of path e
      in \<lparr>fr_status = pd_status pd, fr_statusText = reason_phrase (pd_status pd), fr_headers = [],
          fr_json = Some (problem_json pd)\<rparr>)"

definition json_response :: "nat \<Rightarrow> json \<Rightarrow> fetch_response" where
  "json_response st j = \<lparr>fr_status = st, fr_statusText = reason_phrase st, fr_headers = [], fr_json = Some j\<rparr>"

text \<open>The three routes of the controller: POST answers 201 by Nest's default, DELETE 204 without a body.\<close>

definition post_endpoint :: "(string \<Rightarrow> bool) \<Rightarrow> string \<Rightarrow> string \<Rightarrow> int \<Rightarrow> fetch_request \<Rightarrow> db \<Rightarrow> fetch_response \<times> db" where
  "post_endpoint is_url i s now q d =
     (case create_endpoint is_url (body_fields (fq_body q)) i s now d of
        (Inr row, d') \<Rightarrow> (json_response 201 (endpoint_json row), d')
      | (Inl e, d') \<Rightarrow> (problem_response ''/v1/webhook-endpoints'' e, d'))"

definition delete_handler :: "string \<Rightarrow> db \<Rightarrow> fetch_response \<times> db" where
  "delete_handler i d =
     (case delete_endpoint i d of
        (Inr row, d') \<Rightarrow>
          (\<lparr>fr_status = 204, fr_statusText = reason_phrase 204, fr_headers = [], fr_json = None\<rparr>, d')
      | (Inl e, d') \<Rightarrow> (problem_response (''/v1/webhook-endpoints/'' @ i) e, d'))"

definition list_handler :: "db \<Rightarrow> fetch_response" where
  "list_handler d = json_response 200 (JArr (map endpoint_view_json (list_endpoints d)))"

lemma delete_unknown:
  "i \<notin> w_id ` set (webhookEndpoints d) \<Longrightarrow> fr_status (fst (delete_handler i d)) = 404
    \<and> webhookEndpoints (snd (delete_handler i d)) = webhookEndpoints d"
proof -
  assume i: "i \<notin> w_id ` set (webhookEndpoints d)"
  then have "returning (\<lambda>r. w_id r = i) (\<lambda>r. r\<lparr>active := False\<rparr>) (webhookEndpoints d) = []"
    by (auto simp: returning_Nil)
  moreover have "update_where (\<lambda>r. w_id r = i) (\<lambda>r. r\<lparr>active := False\<rparr>) (webhookEndpoints d) = webhookEndpoints d"
    using i by (intro update_where_none) auto
  ultimately show ?thesis
    by (simp add: delete_handler_def delete_endpoint_def Let_def problem_response_def problem_of_def)
qed

text \<open>
  Registering from the page of an allowed origin: the secret is shown, the field is cleared,
  and the endpoint is stored active.
\<close>

lemma register_shows_secret:
  assumes u: "is_url (js_trim (wp_url s))" and i: "i \<notin> w_id ` set (webhookEndpoints d)" and og: "origin_allowed og"
  shows "\<exists>d'. register (browser_fetch og (post_endpoint is_url i sec now)) (api_origin og) s d
      = (s\<lparr>wp_secret := Some (JStr sec), wp_url := [], wp_registering := False, wp_formError := None\<rparr>, d')
    \<and> webhookEndpoints d' = webhookEndpoints d @ [new_endpoint (js_trim (wp_url s)) i sec now]"
proof -
  let ?u = "js_trim (wp_url s)"
  let ?d = "d\<lparr>webhookEndpoints := webhookEndpoints d @ [new_endpoint ?u i sec now]\<rparr>"
  let ?r = "json_response 201 (endpoint_json (new_endpoint ?u i sec now))"
  have "validate (create_endpoint_checks is_url) [(''url'', JStr ?u)] = []"
    using u by (simp add: validate_def create_endpoint_checks_def is_absent_def)
  moreover have "insert_endpoint ?u i sec now d = Inr (new_endpoint ?u i sec now, ?d)"
    using i by (auto simp: insert_endpoint_def insert_row_def new_endpoint_def)
  ultimately have "create_endpoint is_url [(''url'', JStr ?u)] i sec now d = (Inr (new_endpoint ?u i sec now), ?d)"
    by (simp add: create_endpoint_def)
  then have post: "post_endpoint is_url i sec now q d = (?r, ?d)" if "fq_body q = Some (JObj [(''url'', JStr ?u)])" for q
    using that by (simp add: post_endpoint_def body_fields_def)
  have send: "createEndpoint (browser_fetch og (post_endpoint is_url i sec now)) (api_origin og) ?u d
      = (Inr (endpoint_json (new_endpoint ?u i sec now)), ?d)"
    using og by (auto simp: createEndpoint_def send_json_def browser_fetch_def post origin_allowed_def
        json_response_def fr_ok_def res_json_def Let_def)
  have "js_prop (endpoint_json (new_endpoint ?u i sec now)) ''secret'' = Some (JStr sec)"
    "endpoint_json (new_endpoint ?u i sec now) \<noteq> JNull"
    by (simp_all add: endpoint_json_def new_endpoint_def)
  then show ?thesis by (simp add: register_def send register_end_def register_begin_def)
qed

subsection \<open>The payment page\<close>

record ('p, 'e) payment_page =
  pp_payment :: "'p option"
  pp_events :: "'e list"
  pp_error :: "string option"
  pp_loading :: bool

definition new_payment_page :: "('p, 'e) payment_page" where
  "new_payment_page = \<lparr>pp_payment = None, pp_events = [], pp_error = None, pp_loading = True\<rparr>"

definition payment_refresh :: "('p \<times> 'e list) client \<Rightarrow> ('p, 'e) payment_page \<Rightarrow> ('p, 'e) payment_page" where
  "payment_refresh reply s =
     (case reply of
        Inr (p, ev) \<Rightarrow> s\<lparr>pp_payment := Some p, pp_events := ev, pp_error := None, pp_loading := False\<rparr>
      | Inl e \<Rightarrow> s\<lparr>pp_error := Some (message_or ''Failed to load payment'' e), pp_loading := False\<rparr>)"

text \<open>\<open>events[0]?.correlationId ?? null\<close>, on the events the API lists.\<close>

definition page_correlation :: "event_view list \<Rightarrow> string option" where
  "page_correlation evs = Option.bind (first_row evs) ev_correlationId"

text \<open>What is shown: a spinner or an error only while no payment has been loaded; an empty message is falsy.\<close>

definition shows_loading :: "('p, 'e) payment_page \<Rightarrow> bool" where
  "shows_loading s \<longleftrightarrow> pp_loading s \<and> pp_payment s = None"

definition shows_error :: "('p, 'e) payment_page \<Rightarrow> bool" where
  "shows_error s \<longleftrightarrow> pp_error s \<notin> {None, Some []} \<and> pp_payment s = None"

fun payment_refreshes :: "('p \<times> 'e list) client list \<Rightarrow> ('p, 'e) payment_page \<Rightarrow> ('p, 'e) payment_page" where
  "payment_refreshes [] s = s"
| "payment_refreshes (r # rs) s = payment_refreshes rs (payment_refresh r s)"

text \<open>Once a payment is shown it stays, whatever later polls answer.\<close>

lemma payment_stays:
  "pp_payment s \<noteq> None \<Longrightarrow> pp_payment (payment_refreshes rs s) \<noteq> None"
  by (induction rs arbitrary: s) (auto simp: payment_refresh_def split: sum.splits)

lemma page_settles:
  "rs \<noteq> [] \<Longrightarrow> \<not> shows_loading (payment_refreshes rs s)"
proof (induction rs arbitrary: s)
  case (Cons r rs)
  show ?case
  proof (cases "rs = []")
    case True
    then show ?thesis by (auto simp: shows_loading_def payment_refresh_def split: sum.splits)
  next
    case False
    then show ?thesis using Cons.IH by simp
  qed
qed simp

subsection \<open>The form's fields\<close>

datatype form_field = CustomerId | SourceAccount | DestinationAccount | AmountField | ReferenceField

text \<open>\<open>set(k)\<close> on a change of the field, the key's input, and the button for a new key.\<close>

fun set_field :: "form_field \<Rightarrow> string \<Rightarrow> payment_input \<Rightarrow> payment_input" where
  "set_field CustomerId v f = f\<lparr>in_customerId := v\<rparr>"
| "set_field SourceAccount v f = f\<lparr>in_sourceAccount := v\<rparr>"
| "set_field DestinationAccount v f = f\<lparr>in_destinationAccount := v\<rparr>"
| "set_field AmountField v f = f\<lparr>in_amount := v\<rparr>"
| "set_field ReferenceField v f = f\<lparr>in_reference := Some v\<rparr>"

definition change_field :: "form_field \<Rightarrow> string \<Rightarrow> form_state \<Rightarrow> form_state" where
  "change_field k v s = s\<lparr>fs_form := set_field k v (fs_form s)\<rparr>"

definition change_key :: "string \<Rightarrow> form_state \<Rightarrow> form_state" where
  "change_key v s = s\<lparr>fs_key := v\<rparr>"

definition fresh_key :: "string option \<Rightarrow> 8 word list \<Rightarrow> form_state \<Rightarrow> form_state" where
  "fresh_key uuid b s = s\<lparr>fs_key := randomId uuid b\<rparr>"

text \<open>The reference a submission sends is never blank and has no blanks around it.\<close>

lemma js_trim_ends:
  assumes "js_trim s \<noteq> []"
  shows "\<not> is_js_blank (hd (js_trim s))" "\<not> is_js_blank (last (js_trim s))"
proof -
  define m where "m = dropWhile is_js_blank s"
  have t: "js_trim s = rev (dropWhile is_js_blank (rev m))" by (simp add: js_trim_def m_def)
  then have ne: "dropWhile is_js_blank (rev m) \<noteq> []" using assms by simp
  show "\<not> is_js_blank (last (js_trim s))" using hd_dropWhile [OF ne] ne by (simp add: t last_rev)
  obtain u where u: "m = js_trim s @ u"
    by (metis rev_append rev_rev_ident t takeWhile_dropWhile_id)
  then have "m \<noteq> []" "hd m = hd (js_trim s)" using assms by auto
  then show "\<not> is_js_blank (hd (js_trim s))" using hd_dropWhile [of is_js_blank s] by (simp add: m_def)
qed

lemma form_reference_trimmed:
  assumes "in_reference (form_input f) = Some r"
  shows "r \<noteq> [] \<and> \<not> is_js_blank (hd r) \<and> \<not> is_js_blank (last r)"
proof -
  obtain s where "r = js_trim s" "js_trim s \<noteq> []"
    using assms by (auto simp: form_input_def split: option.splits if_splits)
  then show ?thesis using js_trim_ends by simp
qed

subsection \<open>Navigation\<close>

definition NAV :: "(string \<times> string) list" where
  "NAV = [(''/'', ''Payments''), (''/webhooks'', ''Webhooks''), (''/chaos'', ''Chaos''),
     (''/architecture'', ''Architecture'')]"

definition starts_with :: "string \<Rightarrow> string \<Rightarrow> bool" where
  "starts_with s p \<longleftrightarrow> take (length p) s = p"

definition isActive :: "string \<Rightarrow> string \<Rightarrow> bool" where
  "isActive pathname href = (if href = ''/'' then pathname = ''/'' else starts_with pathname href)"

lemma starts_with_take: "starts_with s p \<Longrightarrow> n \<le> length p \<Longrightarrow> take n s = take n p"
  unfolding starts_with_def by (metis min.absorb1 take_take)

lemma nav_at_most_one:
  assumes "(h1, l1) \<in> set NAV" "(h2, l2) \<in> set NAV" "isActive p h1" "isActive p h2"
  shows "h1 = h2"
proof -
  have "take 2 p = take 2 h" if "(h, l) \<in> set NAV" "isActive p h" for h l
  proof (cases "h = ''/''")
    case False
    then have "starts_with p h" "2 \<le> length h" using that by (auto simp: NAV_def isActive_def)
    then show ?thesis by (rule starts_with_take)
  qed (use that in \<open>simp add: isActive_def\<close>)
  then have "take 2 h1 = take 2 h2" using assms by metis
  then show ?thesis using assms(1,2) by (auto simp: NAV_def)
qed

subsection \<open>Tables and timeline\<close>

text \<open>\<open>p.id.slice(0, 8)\<close> and \<open>p.id.slice(-4)\<close>.\<close>

definition short_id :: "string \<Rightarrow> string \<times> string" where
  "short_id i = (take 8 i, drop (length i - 4) i)"

text \<open>The target, the error and the time a delivery row shows; \<open>None\<close> is the dash.\<close>

definition delivery_cells :: "delivery_view \<Rightarrow> string \<times> string option \<times> int" where
  "delivery_cells v =
     ((case dv_url v of Some u \<Rightarrow> u | None \<Rightarrow> dv_endpointId v), dv_lastError v,
      (case dv_deliveredAt v of Some t \<Rightarrow> t | None \<Rightarrow> dv_createdAt v))"

text \<open>\<open>x.toFixed(1)\<close> of a non-negative number below $10^{21}$: the nearest tenth, the larger of two.\<close>

definition toFixed1 :: "rat \<Rightarrow> string" where
  "toFixed1 x = (let n = nat \<lfloor>x * 10 + 1 / 2\<rfloor> in nat_str (n div 10) @ ''.'' @ nat_str (n mod 10))"

definition sincePrev :: "int \<Rightarrow> int \<Rightarrow> string" where
  "sincePrev later earlier =
     (let ms = later - earlier
      in if ms < 0 then []
         else (let s = f64 (of_int ms / 1000)
               in if s < 60 then ''+'' @ toFixed1 s @ ''s''
                  else ''+'' @ toFixed1 (f64 (s / 60)) @ ''m''))"

text \<open>The gap between two events of a listing in order is printed, and is empty for a step back in time.\<close>

lemma sincePrev_empty: "sincePrev a b = [] \<longleftrightarrow> a < b"
  by (simp add: sincePrev_def Let_def)

end
