(* ===== verification/Receiver.thy ===== *)
theory Receiver
  imports WebhookWorker WebPages
begin

text \<open>
  The demo receiver \<open>scripts/webhook-receiver.mjs\<close>, which recomputes the signature of each
  delivery, counts the attempts of each event and answers \<open>/fail\<close> with 503 and everything else
  with 200, and the delivery worker run against it. \<open>hmac\<close> is the HMAC of both sides and
  \<open>parse\<close> is \<open>JSON.parse\<close>, \<open>None\<close> when it throws. Shown: the receiver finds the worker's
  signatures valid and counts one attempt for each request the worker sends.
\<close>

subsection \<open>The receiver\<close>

record incoming =
  rq_method :: string
  rq_url :: string
  rq_headers :: "(string \<times> string) list"
  rq_body :: string

datatype verdict = NoSecret | MissingHeaders | VALID | INVALID

record receipt =
  rl_at :: string
  rl_path :: string
  rl_status :: nat
  rl_eventId :: string
  rl_eventType :: json
  rl_attempt :: nat
  rl_signature :: verdict

record receiver =
  rv_attempts :: "string \<rightharpoonup> nat"
  rv_log :: "receipt list"

definition SECRETS :: "string option \<Rightarrow> string option \<Rightarrow> (string \<times> string) list" where
  "SECRETS ok_secret fail_secret =
     [(''/ok'', case ok_secret of Some s \<Rightarrow> s | None \<Rightarrow> []),
      (''/fail'', case fail_secret of Some s \<Rightarrow> s | None \<Rightarrow> [])]"

definition falsy :: "string option \<Rightarrow> bool" where
  "falsy v \<longleftrightarrow> v = None \<or> v = Some []"

text \<open>\<open>timingSafeEqual\<close> throws on buffers of different lengths, which is caught.\<close>

definition verifySignature :: "(string \<Rightarrow> string \<Rightarrow> string) \<Rightarrow> (string \<times> string) list \<Rightarrow> string
  \<Rightarrow> string \<Rightarrow> (string \<times> string) list \<Rightarrow> verdict" where
  "verifySignature hmac secrets path rawBody headers =
     (let sec = map_of secrets path;
          ts = map_of headers ''x-webhook-timestamp''; sig = map_of headers ''x-webhook-signature''
      in if falsy sec then NoSecret
         else if falsy ts \<or> falsy sig then MissingHeaders
         else (let expected = hmac (the sec) (the ts @ ''.'' @ rawBody)
               in if length expected \<noteq> length (the sig) then INVALID
                  else if expected = the sig then VALID else INVALID))"

definition event_type :: "(string \<Rightarrow> json option) \<Rightarrow> string \<Rightarrow> json" where
  "event_type parse rawBody =
     (case parse rawBody of
        None \<Rightarrow> JStr ''?''
      | Some j \<Rightarrow>
          (case js_prop j ''type'' of
             None \<Rightarrow> JStr ''?'' | Some t \<Rightarrow> if t = JNull then JStr ''?'' else t))"

definition receive_status :: "string \<Rightarrow> nat" where
  "receive_status path = (if path = ''/fail'' then 503 else 200)"

text \<open>One request: its status and text, and the receiver after it.\<close>

definition receive :: "(string \<Rightarrow> string \<Rightarrow> string) \<Rightarrow> (string \<Rightarrow> json option) \<Rightarrow> (string \<times> string) list
  \<Rightarrow> string \<Rightarrow> incoming \<Rightarrow> receiver \<Rightarrow> (nat \<times> string) \<times> receiver" where
  "receive hmac parse secrets tm q s =
     (if rq_method q = ''GET'' \<and> rq_url q = ''/health'' then ((200, ''ok''), s)
      else
        (let ev = (case map_of (rq_headers q) ''x-webhook-id'' of Some i \<Rightarrow> i | None \<Rightarrow> ''?'');
             n = (case rv_attempts s ev of Some n \<Rightarrow> n | None \<Rightarrow> 0) + 1;
             st = receive_status (rq_url q)
         in ((st, if st = 200 then ''ok'' else ''boom''),
             s\<lparr>rv_attempts := (rv_attempts s)(ev \<mapsto> n),
               rv_log := rv_log s @
                 [\<lparr>rl_at = tm, rl_path = rq_url q, rl_status = st, rl_eventId = ev,
                   rl_eventType = event_type parse (rq_body q), rl_attempt = n,
                   rl_signature = verifySignature hmac secrets (rq_url q) (rq_body q) (rq_headers q)\<rparr>]\<rparr>)))"

subsection \<open>The worker against the receiver\<close>

text \<open>A request of the worker to a URL of \<open>host\<close>, as the receiver gets it.\<close>

definition wire :: "string \<Rightarrow> http_request \<Rightarrow> incoming" where
  "wire host r = \<lparr>rq_method = ''POST'', rq_url = drop (length host) (hr_url r),
     rq_headers = [(''content-type'', ''application/json''), (''x-webhook-id'', hr_webhook_id r),
       (''x-webhook-timestamp'', hr_timestamp r), (''x-webhook-signature'', hr_signature r)],
     rq_body = hr_body r\<rparr>"

text \<open>Jobs of one delivery, one after the other, with the receiver answering; each has a clock of its own.\<close>

fun delivery_runs :: "webhook_config \<Rightarrow> (string \<Rightarrow> string \<Rightarrow> string) \<Rightarrow> (envelope \<Rightarrow> string) \<Rightarrow> (string \<Rightarrow> json option)
  \<Rightarrow> (string \<times> string) list \<Rightarrow> string \<Rightarrow> (attempt_env \<times> string) list \<Rightarrow> string \<Rightarrow> db \<times> receiver \<Rightarrow> db \<times> receiver" where
  "delivery_runs cfg hmac str parse secrets host [] i w = w"
| "delivery_runs cfg hmac str parse secrets host ((en, tm) # es) i (d, s) =
     (case webhook_process cfg hmac str (\<lambda>q. Response (fst (fst (receive hmac parse secrets tm (wire host q) s)))) en i d of
        (_, d1, _, sent) \<Rightarrow>
          delivery_runs cfg hmac str parse secrets host es i
            (d1, case sent of None \<Rightarrow> s | Some q \<Rightarrow> snd (receive hmac parse secrets tm (wire host q) s)))"

text \<open>What the next attempt of a delivery would send: a fixed target, secret and event.\<close>

definition aimed :: "string \<Rightarrow> string \<Rightarrow> string \<Rightarrow> string \<Rightarrow> db \<Rightarrow> bool" where
  "aimed i target sec ev d \<longleftrightarrow> (\<forall>r ep. webhook_read i d = Inr (Some (r, ep)) \<longrightarrow>
     url ep = target \<and> secret ep = sec \<and> eventId r = ev)"

lemma webhook_read_SomeD:
  assumes "webhook_read i d = Inr (Some (r, ep))"
  shows "find_delivery i d = Some r"
    and "first_row (select_where (\<lambda>ep. w_id ep = endpointId r) (webhookEndpoints d)) = Some ep"
  using assms by (auto simp: webhook_read_def find_delivery_def split: option.splits if_splits)

lemma aimed_set:
  assumes a: "aimed i target sec ev d" and r: "webhook_read i d = Inr (Some (r, ep))"
    and f: "\<And>x. d_id (f x) = d_id x" "\<And>x. endpointId (f x) = endpointId x" "\<And>x. eventId (f x) = eventId x"
  shows "aimed i target sec ev (set_delivery i f d)"
  unfolding aimed_def
proof (intro allI impI)
  fix q eq
  assume q: "webhook_read i (set_delivery i f d) = Inr (Some (q, eq))"
  then have "q = f r" using webhook_read_SomeD(1) [OF q] webhook_read_SomeD(1) [OF r] f(1)
    by (simp add: find_set_delivery)
  with webhook_read_SomeD(2) [OF q] webhook_read_SomeD(2) [OF r] a r f(2,3)
  show "url eq = target \<and> secret eq = sec \<and> eventId q = ev" by (simp add: aimed_def)
qed

lemma aimed_process:
  assumes a: "aimed i target sec ev d" and p: "webhook_process cfg hmac str fetch en i d = (x, d1, js, sent)"
  shows "aimed i target sec ev d1"
proof (cases "\<exists>r ep. webhook_read i d = Inr (Some (r, ep))")
  case True
  then obtain r ep where r: "webhook_read i d = Inr (Some (r, ep))" by blast
  have i: "d_id r = i" using find_delivery_id [OF webhook_read_SomeD(1) [OF r]] .
  from p r i aimed_set [OF a r] a show ?thesis
    by (auto simp: webhook_process_def webhook_write_def Let_def split: prod.splits if_splits sum.splits)
next
  case False
  with p have "d1 = d" by (auto simp: webhook_process_def split: sum.splits option.splits)
  with a show ?thesis by simp
qed

text \<open>The receipt of a request that an attempt sent.\<close>

lemma receive_signed:
  assumes sec: "map_of secrets p = Some sec" "sec \<noteq> []" and h: "\<And>m. hmac sec m \<noteq> []"
    and q: "q = webhook_request hmac str created now r ep" "url ep = host @ p" "secret ep = sec"
  shows "\<exists>e. receive hmac parse secrets tm (wire host q) s
      = ((receive_status p, if receive_status p = 200 then ''ok'' else ''boom''),
         s\<lparr>rv_attempts := (rv_attempts s)(eventId r \<mapsto> rl_attempt e), rv_log := rv_log s @ [e]\<rparr>)
    \<and> rl_path e = p \<and> rl_status e = receive_status p \<and> rl_eventId e = eventId r \<and> rl_signature e = VALID
    \<and> rl_attempt e = (case rv_attempts s (eventId r) of Some n \<Rightarrow> n | None \<Rightarrow> 0) + 1"
  using assms
  by (intro exI [of _ "last (rv_log (snd (receive hmac parse secrets tm (wire host q) s)))"])
    (simp add: receive_def wire_def webhook_request_def Let_def verifySignature_def falsy_def)

text \<open>
  The deliveries end as they do when the worker is given the receiver's answers, and each
  request leaves one receipt: valid, of the same event, and counted.
\<close>

definition seen :: "receiver \<Rightarrow> string \<Rightarrow> nat" where
  "seen s ev = (case rv_attempts s ev of Some n \<Rightarrow> n | None \<Rightarrow> 0)"

definition receipt_ok :: "string \<Rightarrow> string \<Rightarrow> nat \<Rightarrow> receipt \<Rightarrow> bool" where
  "receipt_ok p ev n e \<longleftrightarrow> rl_path e = p \<and> rl_status e = receive_status p \<and> rl_eventId e = ev
     \<and> rl_signature e = VALID \<and> rl_attempt e = n"

fun receipts_ok :: "string \<Rightarrow> string \<Rightarrow> nat \<Rightarrow> receipt list \<Rightarrow> bool" where
  "receipts_ok p ev n [] \<longleftrightarrow> True"
| "receipts_ok p ev n (e # es) \<longleftrightarrow> receipt_ok p ev (Suc n) e \<and> receipts_ok p ev (Suc n) es"

lemma receipts_ok_all: "receipts_ok p ev n es \<Longrightarrow> e \<in> set es \<Longrightarrow> rl_signature e = VALID \<and> rl_eventId e = ev"
  by (induction es arbitrary: n) (auto simp: receipt_ok_def)

lemma receipts_ok_attempts: "receipts_ok p ev n es \<Longrightarrow> map rl_attempt es = [Suc n..<Suc n + length es]"
  by (induction es arbitrary: n) (auto simp: receipt_ok_def upt_conv_Cons simp del: upt_Suc)

lemma process_constant:
  assumes "\<And>q. fetch q = res"
  shows "webhook_process cfg hmac str fetch en i d = webhook_process cfg hmac str (\<lambda>_. res) en i d"
  using assms by (auto simp: webhook_process_def Let_def split: sum.splits option.splits)

lemma process_sent:
  assumes "webhook_process cfg hmac str fetch en i d = (x, d1, js, Some q)"
  obtains r ep where "webhook_read i d = Inr (Some (r, ep))"
    "q = webhook_request hmac str (ae_created en) (ae_now en) r ep"
  using assms by (auto simp: webhook_process_def Let_def split: sum.splits option.splits prod.splits)

lemma delivery_runs_spec:
  assumes sec: "map_of secrets p = Some sec" "sec \<noteq> []" and h: "\<And>m. hmac sec m \<noteq> []"
    and a: "aimed i (host @ p) sec ev d"
    and r: "webhook_runs cfg hmac str (map (\<lambda>(en, tm). (Response (receive_status p), en)) es) i d = (n, d')"
  shows "\<exists>s' new. delivery_runs cfg hmac str parse secrets host es i (d, s) = (d', s')
    \<and> rv_log s' = rv_log s @ new \<and> length new = n \<and> receipts_ok p ev (seen s ev) new"
  using a r
proof (induction es arbitrary: d n s)
  case Nil
  then show ?case by simp
next
  case (Cons x es)
  obtain en tm where x: "x = (en, tm)" by (cases x)
  let ?fetch = "\<lambda>q. Response (fst (fst (receive hmac parse secrets tm (wire host q) s)))"
  let ?fix = "\<lambda>_ :: http_request. Response (receive_status p)"
  obtain u d1 js sent where fx: "webhook_process cfg hmac str ?fix en i d = (u, d1, js, sent)"
    by (metis prod_cases4)
  have a1: "aimed i (host @ p) sec ev d1" using aimed_process [OF Cons.prems(1) fx] .
  obtain m where m: "webhook_runs cfg hmac str (map (\<lambda>(en, tm). (Response (receive_status p), en)) es) i d1 = (m, d')"
    and n: "n = (if sent = None then 0 else 1) + m"
    using Cons.prems(2) fx by (auto simp: x split: prod.splits)
  show ?case
  proof (cases "webhook_read i d")
    case (Inr o1)
    show ?thesis
    proof (cases o1)
      case (Some y)
      obtain r0 ep where y: "y = (r0, ep)" by (cases y)
      let ?q = "webhook_request hmac str (ae_created en) (ae_now en) r0 ep"
      have rd: "webhook_read i d = Inr (Some (r0, ep))" by (simp add: Inr Some y)
      have at0: "url ep = host @ p" "secret ep = sec" "eventId r0 = ev"
        using Cons.prems(1) rd by (auto simp: aimed_def)
      obtain e where e: "receive hmac parse secrets tm (wire host ?q) s
          = ((receive_status p, if receive_status p = 200 then ''ok'' else ''boom''),
             s\<lparr>rv_attempts := (rv_attempts s)(ev \<mapsto> rl_attempt e), rv_log := rv_log s @ [e]\<rparr>)"
        "receipt_ok p ev (Suc (seen s ev)) e"
        using receive_signed [of secrets p sec hmac ?q str, OF sec h refl at0(1,2), of parse tm s]
        unfolding receipt_ok_def seen_def at0(3) by fastforce
      let ?s1 = "s\<lparr>rv_attempts := (rv_attempts s)(ev \<mapsto> rl_attempt e), rv_log := rv_log s @ [e]\<rparr>"
      have real: "webhook_process cfg hmac str ?fetch en i d = (u, d1, js, Some ?q)" and sent: "sent = Some ?q"
        using fx e(1) by (auto simp: webhook_process_def rd Let_def split: prod.splits)
      obtain s' new where ih: "delivery_runs cfg hmac str parse secrets host es i (d1, ?s1) = (d', s')"
        "rv_log s' = rv_log ?s1 @ new" "length new = m" "receipts_ok p ev (seen ?s1 ev) new"
        using Cons.IH [OF a1 m] by blast
      have "seen ?s1 ev = Suc (seen s ev)" using e(2) by (simp add: seen_def receipt_ok_def)
      then have "receipts_ok p ev (seen s ev) (e # new)" using ih(4) e(2) by simp
      then show ?thesis using ih real e(1) by (intro exI [of _ s'] exI [of _ "e # new"]) (simp add: x n sent)
    qed (use Cons.IH [OF a1 m, of s] fx n Inr in \<open>auto simp: x webhook_process_def\<close>)
  qed (use Cons.IH [OF a1 m, of s] fx n in \<open>simp add: x webhook_process_def\<close>)
qed

end
