(* ===== verification/Scenario.thy ===== *)
theory Scenario
  imports Retries StoredTypes Stranding QueuedWebhooks BankConfig Webhooks WebhookWorker OutboxCleanup Platform Receiver
begin

text \<open>
  One payment followed through the system: submitted, relayed, processed and completed. The
  states are those of the step relation, so the invariants apply to them; the witnesses
  of the properties use them as their concrete input.
\<close>

definition demo_cfg :: processor_config where
  "demo_cfg = \<lparr>MAX_RETRIES = 5, BANK_TIMEOUT_MS = 2000, BASE_MS = 1000, CAP_MS = 30000,
     breaker_cfg = \<lparr>FAILURE_THRESHOLD = 5, OPEN_MS = 10000\<rparr>\<rparr>"

definition demo_dto :: create_payment_dto where
  "demo_dto = \<lparr>dto_customerId = ''c1'', dto_sourceAccount = ''a1'', dto_destinationAccount = ''a2'',
     dto_amount = ''12.50'', dto_currency = Undefined, dto_reference = Undefined\<rparr>"

definition demo_env :: submit_env where
  "demo_env = \<lparr>se_id = ''p1'', se_outbox_id = ''o1'', se_event_id = ''e1'', se_now = 1000\<rparr>"

definition demo_su :: submission where
  "demo_su = \<lparr>su_dto = demo_dto, su_key = ''k1'', su_hash = ''h1'', su_corr = ''r1'', su_env = demo_env\<rparr>"

definition demo_row :: payment where
  "demo_row = payment_row demo_dto 1250 demo_env"

definition demo_d1 :: db where
  "demo_d1 = submitted_db demo_dto 1250 ''k1'' ''h1'' ''r1'' demo_env empty_db"

definition demo_jd :: job_data where
  "demo_jd = submitted_payload demo_row ''r1''"

definition demo_job :: "job_data job" where
  "demo_job = \<lparr>job_name = ''payment.submitted'', job_payload = demo_jd, job_id = ''o1'', job_delay = None\<rparr>"

definition demo_d2 :: db where
  "demo_d2 = demo_d1\<lparr>outbox := [(submitted_outbox demo_row ''r1'' demo_env)\<lparr>publishedAt := Some 2000\<rparr>]\<rparr>"

definition demo_penv :: handler_env where
  "demo_penv = \<lparr>claim_env = \<lparr>tx_time = 3000, tx_db_now = 3000, tx_event = ''e2'', tx_outbox = ''''\<rparr>,
     call_env = \<lparr>bk_allow_time = 3001, bk_record_time = 3200\<rparr>,
     settle_env = \<lparr>tx_time = 3201, tx_db_now = 3201, tx_event = ''e3'', tx_outbox = ''o2''\<rparr>, rnd = 0\<rparr>"

definition demo_w :: "sim_bank worker_state" where
  "demo_w = \<lparr>ws_db = demo_d2, ws_breaker = new_breaker 0, ws_bank = new_bank, ws_jobs = [demo_job],
     bankAttempts = []\<rparr>"

definition demo_bank :: sim_bank where
  "demo_bank = new_bank\<lparr>charges := 1, store := [''p1'' \<mapsto> Authorized ''bank_p1'']\<rparr>"

definition demo_dis :: disposition where
  "demo_dis = Complete (JObj [(''bankRef'', JStr ''bank_p1'')])"

definition demo_final :: payment where
  "demo_final = final_row COMPLETED 3201 (claim_row 3000 demo_row)"

definition demo_d3 :: db where
  "demo_d3 = demo_d2\<lparr>payments := [demo_final],
     paymentEvents := paymentEvents demo_d2
       @ [claim_event demo_jd PENDING (claim_env demo_penv), final_event demo_jd demo_dis (settle_env demo_penv)],
     outbox := outbox demo_d2 @ [final_outbox demo_jd demo_dis (settle_env demo_penv)]\<rparr>"

definition demo_w3 :: "sim_bank worker_state" where
  "demo_w3 = demo_w\<lparr>ws_db := demo_d3, ws_bank := demo_bank, bankAttempts := [''authorized'']\<rparr>"

text \<open>The states of the run.\<close>

definition demo_s1 :: system where
  "demo_s1 = (initial 0)\<lparr>s_db := demo_d1\<rparr>"

definition demo_s2 :: system where
  "demo_s2 = demo_s1\<lparr>s_db := demo_d2, s_queue := [demo_job]\<rparr>"

definition demo_s3 :: system where
  "demo_s3 = at_point demo_s2 0 Idle demo_d3 (new_breaker 0) demo_bank []\<lparr>s_queue := [demo_job]\<rparr>"

lemma demo_amount: "convAmountToUnits ''12.50'' = Inr 1250"
proof -
  have "amount_str 1250 = ''12.50''"
    by (simp add: amount_str_def nat_str.simps pad_start_def digit_char_def) code_simp
  with convAmountToUnits_amount_str [of 1250] show ?thesis by simp
qed

lemma demo_fresh: "submit_env_fresh demo_env empty_db"
  by (simp add: submit_env_fresh_def empty_db_def)

lemma demo_no_key: "find_key c k empty_db = None"
  by (simp add: find_key_def empty_db_def select_where_def)

lemma demo_submit: "submit demo_su empty_db
  = (Inr \<lparr>replayed = False, sr_status = 202, body = demo_row\<rparr>, demo_d1)"
proof -
  have "convAmountToUnits (dto_amount demo_dto) = Inr 1250" by (simp add: demo_dto_def demo_amount)
  from insert_txn_new [OF this demo_fresh demo_no_key] show ?thesis
    by (simp add: submit_def demo_su_def demo_d1_def demo_row_def)
qed

lemma demo_relay: "relay_poll_once {} (\<lambda>_. False) False 2000 demo_d1 = (Inr 1, demo_d2, [demo_job])"
  by (simp add: relay_poll_once_def Let_def claim_rows_def demo_d1_def submitted_db_def empty_db_def
      select_where_def order_by_def limit_def relay_pending_def submitted_outbox_def relay_job_def
      mark_rows_def update_where_def relay_mark_def demo_d2_def demo_job_def demo_jd_def demo_row_def
      demo_env_def)

lemma demo_row_simps [simp]: "p_id demo_row = ''p1''" "status demo_row = PENDING" "currency demo_row = ''USD''"
  "amountCents demo_row = 1250" "version demo_row = 0" "attemptCount demo_row = 0"
  by (simp_all add: demo_row_def demo_env_def)

lemma demo_jd_simps [simp]: "jd_paymentId demo_jd = ''p1''" "jd_currency demo_jd = ''USD''"
  "jd_amountCents demo_jd = 1250"
  by (simp_all add: demo_jd_def submitted_payload_def)

lemma demo_d2_tables: "payments demo_d2 = [demo_row]"
  "paymentEvents demo_d2 = [submitted_event demo_row ''r1'' demo_env]"
  "outbox demo_d2 = [(submitted_outbox demo_row ''r1'' demo_env)\<lparr>publishedAt := Some 2000\<rparr>]"
  by (simp_all add: demo_d2_def demo_d1_def submitted_db_def empty_db_def Let_def demo_row_def)

lemma demo_env_fresh: "env_fresh demo_penv demo_d2"
  by (simp add: env_fresh_def demo_d2_tables demo_penv_def submitted_event_def submitted_outbox_def demo_env_def)

lemma demo_authorize: "authorize (authorize_request demo_jd) new_bank = (Authorized ''bank_p1'', demo_bank)"
  by (simp add: authorize_def authorize_request_def new_bank_def charge_def demo_bank_def Let_def)

lemma demo_bank_phase:
  "bank_phase demo_cfg sim_call (call_env demo_penv) demo_jd (new_breaker 0) new_bank
   = (Inr demo_dis, new_breaker 0, demo_bank, [''authorized''])"
proof -
  have "timer_ms (sb_latencyMs new_bank) \<le> timer_ms (BANK_TIMEOUT_MS demo_cfg)"
    by (simp add: new_bank_def demo_cfg_def timer_ms_def)
  from settle_call_answer [OF this, of "Authorized ''bank_p1''"] show ?thesis
    by (simp add: bank_phase_def cb_allow_def new_breaker_def sim_call_def demo_authorize cb_record_def
        demo_dis_def)
qed

lemma demo_process: "process demo_cfg sim_call demo_penv demo_jd demo_w = (Inr (), demo_w3)"
proof -
  have dist: "distinct (map p_id (payments (ws_db demo_w)))"
    and row: "demo_row \<in> set (payments (ws_db demo_w))"
    by (simp_all add: demo_w_def demo_d2_tables)
  have phase: "bank_phase demo_cfg sim_call (call_env demo_penv) demo_jd (ws_breaker demo_w) (ws_bank demo_w)
      = (Inr demo_dis, new_breaker 0, demo_bank, [''authorized''])"
    by (simp add: demo_w_def demo_bank_phase)
  have fresh: "env_fresh demo_penv (ws_db demo_w)" by (simp add: demo_w_def demo_env_fresh)
  show ?thesis
    by (subst process_final [OF dist row _ _ fresh phase])
      (simp_all add: demo_dis_def demo_w3_def demo_d3_def demo_w_def demo_d2_tables row_update_def
        update_where_def demo_final_def demo_penv_def)
qed

lemma demo_s1_reachable: "reachable cfg demo_s1"
  unfolding demo_s1_def
  by (rule reach_step [OF reach_init [of cfg 0] step_submit [of demo_su]])
    (simp add: initial_def demo_submit)

lemma demo_s2_reachable: "reachable cfg demo_s2"
proof -
  have "sys_step cfg demo_s1 (demo_s1\<lparr>s_db := demo_d2, s_queue := s_queue demo_s1 @ [demo_job]\<rparr>)"
    by (rule step_relay [where r = "Inr 1" and locked = "{}" and refuses = "\<lambda>_. False" and fails = False and now = 2000])
      (simp add: demo_s1_def demo_relay)
  then show ?thesis
    using reach_step [OF demo_s1_reachable] by (simp add: demo_s2_def demo_s1_def initial_def)
qed

lemma demo_s2_simps [simp]:
  "s_db demo_s2 = demo_d2" "s_queue demo_s2 = [demo_job]" "s_workers demo_s2 i = Idle"
  "s_breakers demo_s2 i = new_breaker 0" "s_banks demo_s2 i = new_bank" "s_calls demo_s2 = []"
  by (simp_all add: demo_s2_def demo_s1_def initial_def)

text \<open>
  Over the job store: the first job is added, taken, and its handler throws. The queue revives a
  stalled job once, as the package does by default.
\<close>

definition demo_queue :: "(job_data, (string \<times> job_data entry) list) job_store" where
  "demo_queue = list_store (queue_options PAYMENTS_QUEUE) 1"

definition demo_l1 :: "(string \<times> job_data entry) list queued" where
  "demo_l1 = \<lparr>q_sys = demo_s1, q_store = [], q_held = (\<lambda>_. None)\<rparr>"

definition demo_l2 :: "(string \<times> job_data entry) list queued" where
  "demo_l2 = \<lparr>q_sys = demo_s2, q_store = [(''o1'', new_entry demo_job)], q_held = (\<lambda>_. None)\<rparr>"

definition demo_l3 :: "(string \<times> job_data entry) list queued" where
  "demo_l3 = \<lparr>q_sys = set_worker 0 (Claiming demo_jd (Some PENDING)) demo_s2,
     q_store = [(''o1'', (new_entry demo_job)\<lparr>en_state := Active 0\<rparr>)], q_held = (\<lambda>_. None)(0 \<mapsto> ''o1'')\<rparr>"

lemma demo_queue: "payments_queue demo_queue 1"
  unfolding demo_queue_def payments_queue_def by (rule payments_store.bull_queue_axioms)

lemma demo_queue_simps [simp]: "js_find demo_queue = map_of" "js_empty demo_queue = []"
  by (simp_all add: demo_queue_def list_store_def)

lemma demo_l1_reachable: "live_reachable demo_queue cfg demo_l1"
proof -
  have "sys_step cfg (initial 0) demo_s1"
    using step_submit [of demo_su "initial 0"] demo_submit by (simp add: demo_s1_def initial_def)
  then have "quiet_step cfg (q_sys (q_initial demo_queue 0)) demo_s1"
    by (simp add: quiet_step_def q_initial_def demo_s1_def)
  from live_next [OF live_init live_quiet [OF this]] show ?thesis
    by (simp add: q_initial_def demo_l1_def)
qed

lemma demo_l2_reachable: "live_reachable demo_queue cfg demo_l2"
proof -
  have "relay_poll_once {} (\<lambda>_. False) False 2000 (q_db demo_l1) = (Inr 1, demo_d2, [demo_job])"
    by (simp add: demo_l1_def demo_s1_def demo_relay)
  from live_next [OF demo_l1_reachable live_relay [OF this]] show ?thesis
    by (simp add: demo_l2_def demo_l1_def commit_adds_def demo_s2_def demo_s1_def initial_def)
      (simp add: demo_queue_def list_store_def demo_job_def)
qed

lemma demo_l3_reachable: "live_reachable demo_queue cfg demo_l3"
proof -
  have c: "claim_read ''p1'' demo_d2 = Some PENDING"
    by (simp add: claim_read_def demo_d2_tables select_where_def)
  have "live_step demo_queue cfg demo_l2 (demo_l2\<lparr>q_sys := set_worker 0 (Claiming demo_jd (claim_read (jd_paymentId demo_jd) (q_db demo_l2))) (q_sys demo_l2),
      q_store := js_take demo_queue 0 ''o1'' (q_store demo_l2), q_held := (q_held demo_l2)(0 \<mapsto> ''o1'')\<rparr>)"
    by (rule live_dequeue [where e = "new_entry demo_job"])
      (simp_all add: demo_l2_def new_entry_def demo_job_def)
  from live_next [OF demo_l2_reachable this] show ?thesis
    by (simp add: demo_l2_def demo_l3_def c) (simp add: demo_queue_def list_store_def new_entry_def)
qed

text \<open>The same payment without a retry budget, while the bank is asked.\<close>

definition late_cfg :: processor_config where
  "late_cfg = demo_cfg\<lparr>MAX_RETRIES := 0\<rparr>"

definition late_db :: db where
  "late_db = demo_d2\<lparr>payments := [claim_row 3000 demo_row],
     paymentEvents := paymentEvents demo_d2 @ [claim_event demo_jd PENDING (claim_env demo_penv)]\<rparr>"

definition late_s :: system where
  "late_s = demo_s2\<lparr>s_db := late_db, s_workers := (s_workers demo_s2)(0 := Waiting demo_jd),
     s_calls := [(0, authorize_request demo_jd)]\<rparr>"

lemma late_claim: "claim_rest demo_jd (claim_read ''p1'' demo_d2) (claim_env demo_penv) demo_d2 = Inr late_db"
proof -
  have "claim_read ''p1'' demo_d2 = Some PENDING"
    by (simp add: claim_read_def demo_d2_tables select_where_def)
  moreover have "canTransition PENDING PROCESSING" by code_simp
  ultimately show ?thesis
    by (simp add: claim_rest_def claim_cas_def Let_def demo_d2_tables returning_def cas_pred_def insert_event_def
        insert_row_def update_where_def late_db_def claim_event_def submitted_event_def demo_penv_def demo_env_def)
qed

lemma late_s_reachable: "reachable cfg late_s"
proof -
  let ?s1 = "set_worker 0 (Claiming demo_jd (claim_read ''p1'' demo_d2)) demo_s2"
  let ?s2 = "set_worker 0 (Claimed demo_jd) (?s1\<lparr>s_db := late_db\<rparr>)"
  let ?s3 = "set_worker 0 (Waiting demo_jd) (set_breaker 0 (new_breaker 0)
      (?s2\<lparr>s_calls := (0, authorize_request demo_jd) # s_calls ?s2\<rparr>))"
  have "sys_step cfg demo_s2 ?s1"
    using step_dequeue [of demo_s2 0 demo_job demo_jd cfg] by (simp add: demo_job_def)
  moreover have "sys_step cfg ?s1 ?s2"
    by (rule step_claim [where jd = demo_jd and found = "claim_read ''p1'' demo_d2" and env = "claim_env demo_penv"])
      (simp_all add: late_claim)
  moreover have "sys_step cfg ?s2 ?s3"
    by (rule step_call [where now = 3001]) (simp_all add: cb_allow_def new_breaker_def)
  ultimately have "reachable cfg ?s3" using demo_s2_reachable reach_step by blast
  moreover have "?s3 = late_s"
    by (simp add: late_s_def set_worker_def set_breaker_def demo_s2_def demo_s1_def initial_def fun_upd_idem)
  ultimately show ?thesis by simp
qed

lemma demo_charged_keys [simp]: "charged_keys demo_bank = {''p1''}" "charged_keys new_bank = {}" "getCharges demo_bank = 1"
  by (auto simp: demo_bank_def new_bank_def charged_keys_def getCharges_def)

lemma demo_run: "(sys_step demo_cfg)\<^sup>*\<^sup>* demo_s2 demo_s3"
proof -
  have "(sys_step demo_cfg)\<^sup>*\<^sup>* demo_s2
      (at_point demo_s2 0 Idle (ws_db demo_w3) (ws_breaker demo_w3) (ws_bank demo_w3) (s_calls demo_s2)
        \<lparr>s_queue := ws_jobs demo_w3\<rparr>)"
    by (rule process_steps [where j = demo_job and env = demo_penv and ls = "[]" and r = "Inr ()"])
      (simp_all add: demo_job_def [THEN arg_cong [where f = job_payload], simplified]
        demo_process [unfolded demo_w_def, unfolded demo_job_def] demo_job_def)
  then show ?thesis by (simp add: demo_s3_def demo_w3_def demo_w_def)
qed

lemma demo_s3_reachable: "reachable demo_cfg demo_s3"
  by (rule steps_reachable [OF demo_run demo_s2_reachable])

lemma demo_s3_simps [simp]: "s_db demo_s3 = demo_d3" "s_banks demo_s3 0 = demo_bank"
  by (simp_all add: demo_s3_def)

lemma demo_s3_charged [simp]: "charged demo_s3 = {''p1''}" "s_charged demo_s3 = {(0, 0, ''p1'')}"
  by (auto simp: charged_def demo_s3_def at_point_def set_bank_def demo_s2_def demo_s1_def initial_def set_worker_def set_breaker_def)

lemma demo_d3_payments [simp]: "payments demo_d3 = [demo_final]"
  by (simp add: demo_d3_def)

lemma demo_final_simps [simp]: "p_id demo_final = ''p1''" "status demo_final = COMPLETED"
  "version demo_final = 2" "attemptCount demo_final = 0"
  by (simp_all add: demo_final_def)

text \<open>The same submission again is a replay.\<close>

lemma demo_resubmit: "submit demo_su demo_d1
  = (Inr \<lparr>replayed = True, sr_status = 202, body = demo_row\<rparr>, demo_d1)"
proof -
  have amount: "convAmountToUnits (dto_amount demo_dto) = Inr 1250" by (simp add: demo_dto_def demo_amount)
  have "find_key (dto_customerId demo_dto) ''k1'' demo_d1
      = Some (idem_row demo_dto ''k1'' ''h1'' demo_row demo_env)"
    by (simp add: demo_d1_def find_key_submitted_db demo_no_key demo_row_def)
  from insert_txn_used_key [OF amount this] show ?thesis by (simp add: submit_def demo_su_def)
qed

lemma demo_submit_all: "submit_all [demo_su, demo_su] empty_db
  = ([Inr \<lparr>replayed = False, sr_status = 202, body = demo_row\<rparr>,
      Inr \<lparr>replayed = True, sr_status = 202, body = demo_row\<rparr>], demo_d1)"
  by (simp add: demo_submit demo_resubmit)

lemma keys_wf_empty: "keys_wf empty_db"
  by (simp add: keys_wf_def empty_db_def)

definition demo_fields :: fields where
  "demo_fields = [(''customerId'', JStr ''c1''), (''sourceAccount'', JStr ''a1''),
     (''destinationAccount'', JStr ''a2''), (''amount'', JStr ''12.50'')]"

lemma demo_match: "match_amount ''12.50'' \<noteq> None"
proof -
  have "amount_str 1250 = ''12.50''"
    by (simp add: amount_str_def nat_str.simps pad_start_def digit_char_def) code_simp
  with match_amount_str [of 1250] show ?thesis by simp
qed

lemma demo_pipe: "pipe_create_payment demo_fields = Inr demo_dto"
  using demo_match
  by (simp add: pipe_create_payment_def demo_fields_def validate_def create_payment_checks_def is_absent_def
      to_create_payment_def demo_dto_def)

text \<open>The completed payment with an active endpoint.\<close>

definition demo_endpoint :: webhook_endpoint where
  "demo_endpoint = new_endpoint ''http://x/fail'' ''w1'' ''s1'' 100"

definition demo_hooked :: db where
  "demo_hooked = demo_d3\<lparr>webhookEndpoints := [demo_endpoint]\<rparr>"

lemma demo_endpoint_simps [simp]: "active demo_endpoint" "w_id demo_endpoint = ''w1''" "secret demo_endpoint = ''s1''"
  by (simp_all add: demo_endpoint_def new_endpoint_def)

lemma demo_hooked_tables: "webhookEndpoints demo_hooked = [demo_endpoint]" "outbox demo_hooked = outbox demo_d3"
  by (simp_all add: demo_hooked_def)

lemma demo_d3_outbox: "outbox demo_d3
  = [(submitted_outbox demo_row ''r1'' demo_env)\<lparr>publishedAt := Some 2000\<rparr>,
     final_outbox demo_jd demo_dis (settle_env demo_penv)]"
  by (simp add: demo_d3_def demo_d2_tables)

lemma demo_last: "last (outbox demo_d3) = final_outbox demo_jd demo_dis (settle_env demo_penv)"
  "o_id (final_outbox demo_jd demo_dis (settle_env demo_penv)) = ''o2''"
  "webhookDispatchedAt (final_outbox demo_jd demo_dis (settle_env demo_penv)) = None"
  by (simp_all add: demo_d3_outbox final_outbox_def demo_penv_def)

lemma demo_d3_deliveries: "webhookDeliveries demo_d3 = []" "webhookEndpoints demo_d3 = []"
  by (simp_all add: demo_d3_def demo_d2_def demo_d1_def submitted_db_def Let_def empty_db_def)

lemma demo_claim: "claim_rows dispatch_pending {} (outbox demo_hooked)
  = [final_outbox demo_jd demo_dis (settle_env demo_penv)]"
proof -
  have "dispatch_pending (final_outbox demo_jd demo_dis (settle_env demo_penv))"
    by (simp add: dispatch_pending_def final_outbox_def demo_dis_def)
  moreover have "\<not> dispatch_pending ((submitted_outbox demo_row ''r1'' demo_env)\<lparr>publishedAt := Some 2000\<rparr>)"
    by (simp add: dispatch_pending_def submitted_outbox_def)
  ultimately show ?thesis
    by (simp add: claim_rows_def demo_hooked_def demo_d3_outbox select_where_def order_by_def limit_def)
qed

lemma demo_dispatch: "\<exists>rows d'. dispatch_txn {} (\<lambda>e w. ''d1'') 5000 5001 demo_hooked = Inr (rows, d')"
  by (simp add: dispatch_txn_def demo_claim Let_def delivery_batch_def)
    (simp add: demo_hooked_def demo_endpoint_def new_endpoint_def select_where_def new_delivery_def demo_d3_deliveries
      insert_delivery_def insert_row_def)

text \<open>A delivery waiting for its first attempt.\<close>

definition demo_delivery :: webhook_delivery where
  "demo_delivery = new_delivery (\<lambda>e w. ''d1'') 5000 (final_outbox demo_jd demo_dis (settle_env demo_penv)) demo_endpoint"

definition demo_sent :: db where
  "demo_sent = demo_hooked\<lparr>webhookDeliveries := [demo_delivery]\<rparr>"

definition demo_wcfg :: webhook_config where
  "demo_wcfg = \<lparr>MAX_WEBHOOK_ATTEMPTS = 2, wh_BASE_MS = 1000, wh_CAP_MS = 30000\<rparr>"

definition demo_aenv :: attempt_env where
  "demo_aenv = \<lparr>ae_created = 6000, ae_now = 6000, ae_write = 6100, ae_rnd = 0\<rparr>"

lemma demo_sent_tables: "webhookDeliveries demo_sent = [demo_delivery]" "webhookEndpoints demo_sent = [demo_endpoint]"
  by (simp_all add: demo_sent_def demo_hooked_def)

lemma demo_delivery_simps [simp]: "d_id demo_delivery = ''d1''" "d_status demo_delivery = Pending"
  "attempts demo_delivery = 0" "endpointId demo_delivery = ''w1''"
  by (simp_all add: demo_delivery_def new_delivery_def)

lemma demo_find: "find_delivery ''d1'' demo_sent = Some demo_delivery"
  by (simp add: find_delivery_def select_where_def demo_sent_tables)

lemma demo_known: "endpoint_known demo_delivery demo_sent"
  by (simp add: endpoint_known_def demo_sent_tables)

lemma demo_backoff_wf: "backoff_wf demo_wcfg 1000 30000"
  by (simp add: backoff_wf_def demo_wcfg_def)

text \<open>All processes: the endpoint is registered, the event dispatched and delivered at the first attempt.\<close>

definition demo_hmac :: "string \<Rightarrow> string \<Rightarrow> string" where
  "demo_hmac k m = k @ m"

definition demo_str :: "envelope \<Rightarrow> string" where
  "demo_str e = env_id e @ env_type e"

definition demo_request :: http_request where
  "demo_request = webhook_request demo_hmac demo_str 6000 6000 demo_delivery demo_endpoint"

definition demo_dispatched :: db where
  "demo_dispatched = demo_hooked\<lparr>webhookDeliveries := [demo_delivery],
     outbox := poll_mark dispatch_pending (dispatch_mark 5001) {} (outbox demo_hooked)\<rparr>"

definition demo_delivered :: webhook_delivery where
  "demo_delivered = demo_delivery\<lparr>d_status := Delivered, deliveredAt := Some 6100, attempts := 1\<rparr>"

definition demo_sent_db :: db where
  "demo_sent_db = demo_dispatched\<lparr>webhookDeliveries := [demo_delivered]\<rparr>"

definition demo_hk :: hooked where
  "demo_hk = \<lparr>hk_sys = demo_s3\<lparr>s_db := demo_sent_db\<rparr>, hk_jobs = [dispatch_job demo_delivery],
     hk_workers = (\<lambda>_. Free), hk_sent = [(demo_request, Response 200)]\<rparr>"

lemma demo_create: "create_endpoint (\<lambda>_. True) [(''url'', JStr ''http://x/fail'')] ''w1'' ''s1'' 100 demo_d3
  = (Inr demo_endpoint, demo_hooked)"
  by (simp add: create_endpoint_def validate_def create_endpoint_checks_def is_absent_def insert_endpoint_def
      insert_row_def demo_d3_deliveries demo_endpoint_def demo_hooked_def)

lemma demo_dispatch_once:
  "dispatch_poll_once {} (\<lambda>e w. ''d1'') (\<lambda>_. False) 5000 5001 demo_hooked
   = (Inr 1, demo_dispatched, [dispatch_job demo_delivery])"
proof -
  obtain rows d' where r: "dispatch_txn {} (\<lambda>e w. ''d1'') 5000 5001 demo_hooked = Inr (rows, d')"
    using demo_dispatch by blast
  have rows: "rows = [demo_delivery]"
    by (simp add: dispatch_txn_Inr(1) [OF r] demo_claim delivery_batch_def demo_hooked_tables(1) select_where_def
        demo_delivery_def)
  have "d' = demo_dispatched"
    by (simp add: dispatch_txn_Inr(2) [OF r] rows demo_dispatched_def demo_hooked_def demo_d3_deliveries)
  then show ?thesis by (simp add: dispatch_poll_once_def r rows)
qed

lemma demo_deliver:
  "webhook_process demo_wcfg demo_hmac demo_str (\<lambda>_. Response 200) demo_aenv ''d1'' demo_dispatched
   = (Inr (), demo_sent_db, [], Some demo_request)"
  by (simp add: webhook_process_def webhook_read_def select_where_def demo_dispatched_def demo_hooked_def
      webhook_write_def demo_request_def demo_aenv_def demo_sent_db_def demo_delivered_def set_delivery_def
      update_where_def)

lemma hook_steps_reachable:
  "(hook_step cfg wcfg hmac str)\<^sup>*\<^sup>* w w' \<Longrightarrow> hook_reachable cfg wcfg hmac str w \<Longrightarrow> hook_reachable cfg wcfg hmac str w'"
  by (induction rule: rtranclp_induct) (auto intro: hook_next)

lemma demo_hk_reachable: "hook_reachable demo_cfg demo_wcfg demo_hmac demo_str demo_hk"
proof -
  let ?w0 = "unhooked demo_s3"
  let ?w1 = "set_hk_db demo_hooked ?w0"
  let ?w2 = "set_hk_db demo_dispatched ?w1\<lparr>hk_jobs := hk_jobs ?w1 @ [dispatch_job demo_delivery]\<rparr>"
  let ?r = "hook_reachable demo_cfg demo_wcfg demo_hmac demo_str"
  have 0: "?r ?w0" by (rule reachable_unhooked [OF demo_s3_reachable])
  have 1: "?r ?w1" by (rule hook_next [OF 0 hook_create]) (use demo_create in \<open>simp add: unhooked_def\<close>)
  have "?r ?w2" by (rule hook_next [OF 1 hook_dispatch [where adds = "[dispatch_job demo_delivery]"]]) (use demo_dispatch_once in simp_all)
  moreover have "(hook_step demo_cfg demo_wcfg demo_hmac demo_str)\<^sup>*\<^sup>* ?w2
      (set_hk_worker 0 Free (set_hk_db demo_sent_db ?w2)\<lparr>hk_jobs := hk_jobs ?w2 @ [],
        hk_sent := hk_sent ?w2 @ [(demo_request, Response 200)]\<rparr>)"
    by (rule webhook_process_steps [where j = "dispatch_job demo_delivery" and env = demo_aenv and fetch = "\<lambda>_. Response 200"])
      (use demo_deliver in \<open>simp_all add: unhooked_def dispatch_job_def\<close>)
  moreover have "set_hk_worker 0 Free (set_hk_db demo_sent_db ?w2)\<lparr>hk_jobs := hk_jobs ?w2 @ [],
        hk_sent := hk_sent ?w2 @ [(demo_request, Response 200)]\<rparr> = demo_hk"
    by (simp add: demo_hk_def unhooked_def set_hk_worker_def set_hk_db_def fun_upd_idem)
  ultimately show ?thesis using hook_steps_reachable by metis
qed

lemma demo_hk_db: "hk_db demo_hk = demo_sent_db" "hk_sys demo_hk = demo_s3\<lparr>s_db := demo_sent_db\<rparr>"
  by (simp_all add: demo_hk_def)

lemma demo_sent_payments: "payments demo_sent_db = [demo_final]"
  by (simp add: demo_sent_db_def demo_dispatched_def demo_hooked_def)

lemma demo_hk_sent: "(demo_request, Response 200) \<in> set (hk_sent demo_hk)"
  by (simp add: demo_hk_def)

text \<open>The same event dispatched by a dispatcher that dies between its commit and its enqueue.\<close>

definition demo_hooks :: "(string, (string \<times> string entry) list) job_store" where
  "demo_hooks = list_store (queue_options WEBHOOKS_QUEUE) 1"

definition demo_lost :: "(string \<times> string entry) list hooks" where
  "demo_lost = \<lparr>h_hk = set_hk_db demo_dispatched (set_hk_db demo_hooked (unhooked demo_s3)), h_store = [], h_held = (\<lambda>_. None)\<rparr>"

lemma demo_hooks: "webhooks_queue demo_hooks 1"
  unfolding demo_hooks_def webhooks_queue_def by (rule webhooks_store.bull_queue_axioms)

lemma demo_hooks_empty [simp]: "js_empty demo_hooks = []"
  by (simp add: demo_hooks_def list_store_def)

lemma demo_lost_reachable: "hq_reachable demo_hooks demo_cfg demo_wcfg demo_hmac demo_str demo_lost"
proof -
  let ?w0 = "unhooked demo_s3"
  let ?l0 = "\<lparr>h_hk = ?w0, h_store = js_empty demo_hooks, h_held = (\<lambda>_. None)\<rparr>"
  let ?r = "hq_reachable demo_hooks demo_cfg demo_wcfg demo_hmac demo_str"
  have 0: "?r ?l0" by (rule hq_reachable_unhooked [OF demo_s3_reachable])
  have "hook_step demo_cfg demo_wcfg demo_hmac demo_str ?w0 (set_hk_db demo_hooked ?w0)"
    by (rule hook_create) (use demo_create in \<open>simp add: unhooked_def\<close>)
  then have "quiet_hook demo_cfg demo_wcfg demo_hmac demo_str (h_hk ?l0) (set_hk_db demo_hooked ?w0)"
    by (simp add: quiet_hook_def)
  note 1 = hq_next [OF 0 hq_quiet [OF this]]
  have "dispatch_poll_once {} (\<lambda>e w. ''d1'') (\<lambda>_. False) 5000 5001 (h_db (?l0\<lparr>h_hk := set_hk_db demo_hooked ?w0\<rparr>))
      = (Inr 1, demo_dispatched, [dispatch_job demo_delivery])" using demo_dispatch_once by simp
  from hq_next [OF 1 hq_dispatch [OF this, of "[]"]] show ?thesis
    by (simp add: demo_lost_def h_adds_def set_hk_db_def unhooked_def)
qed

text \<open>The first delay with the random number one half.\<close>

lemma demo_delay: "computeBackoffMs (of_nat 1000) (of_nat 30000) (1/2) 1 = Inr (Fin 750)"
proof -
  have "f64 (of_nat 1000 / 2) = of_nat 1000 / 2" by (rule f64_half_nat) simp
  moreover have "f64 (of_nat 500 / 2) = of_nat 500 / 2" by (rule f64_half_nat) simp
  moreover have "f64 (of_nat 750) = of_nat 750" by (rule f64_nat) simp
  moreover have "js_min (js_mul (Fin (of_nat 1000)) (js_finite (2 ^ nat (1 - 1)))) (Fin (of_nat 30000))
      = Fin (of_nat (backoff_exp 1000 30000 1))"
    by (rule backoff_exponential) simp_all
  ultimately show ?thesis by (simp add: computeBackoffMs_def Let_def backoff_exp_def)
qed

text \<open>The job over the store, claimed and its bank call given up after the timeout.\<close>

definition demo_l4 :: "(string \<times> job_data entry) list queued" where
  "demo_l4 = demo_l3\<lparr>q_sys := set_worker 0 (Settling demo_jd (Retry ''bank_timeout''))
     (set_breaker 0 (cb_record (breaker_cfg demo_cfg) 5000 False (new_breaker 0)) late_s)\<rparr>"

lemma demo_l4_reachable: "live_reachable demo_queue demo_cfg demo_l4"
proof -
  let ?s3 = "q_sys demo_l3"
  let ?s4 = "set_worker 0 (Claimed demo_jd) (?s3\<lparr>s_db := late_db\<rparr>)"
  let ?s5 = "set_worker 0 (Waiting demo_jd) (set_breaker 0 (new_breaker 0)
      (?s4\<lparr>s_calls := (0, authorize_request demo_jd) # s_calls ?s4\<rparr>))"
  let ?s6 = "set_worker 0 (Settling demo_jd (Retry ''bank_timeout''))
      (set_breaker 0 (cb_record (breaker_cfg demo_cfg) 5000 False (new_breaker 0)) ?s5)"
  have c: "claim_read ''p1'' demo_d2 = Some PENDING" by (simp add: claim_read_def demo_d2_tables select_where_def)
  have "sys_step demo_cfg ?s3 ?s4"
    by (rule step_claim [where jd = demo_jd and found = "Some PENDING" and env = "claim_env demo_penv"])
      (use late_claim in \<open>simp_all add: demo_l3_def c\<close>)
  then have 4: "quiet_step demo_cfg ?s3 ?s4" by (simp add: quiet_step_def demo_l3_def)
  have "sys_step demo_cfg ?s4 ?s5"
    by (rule step_call [where now = 3001]) (simp_all add: cb_allow_def new_breaker_def demo_l3_def)
  then have 5: "quiet_step demo_cfg ?s4 ?s5" by (simp add: quiet_step_def demo_l3_def set_breaker_def)
  have "sys_step demo_cfg ?s5 ?s6" by (rule step_timeout [where now = 5000]) simp_all
  then have 6: "quiet_step demo_cfg ?s5 ?s6" by (simp add: quiet_step_def demo_l3_def set_breaker_def)
  have "(live_step demo_queue demo_cfg)\<^sup>*\<^sup>* demo_l3 (demo_l3\<lparr>q_sys := ?s6\<rparr>)"
    by (rule quiet_steps_live) (use 4 5 6 in \<open>meson converse_rtranclp_into_rtranclp rtranclp.rtrancl_refl\<close>)
  moreover have "demo_l3\<lparr>q_sys := ?s6\<rparr> = demo_l4"
    by (simp add: demo_l4_def demo_l3_def late_s_def set_worker_def set_breaker_def demo_s2_def demo_s1_def initial_def fun_upd_idem)
  ultimately show ?thesis using steps_live_reachable demo_l3_reachable by metis
qed

lemma demo_retry: "\<exists>d'. settle demo_cfg (demo_penv\<lparr>rnd := 1 / 2\<rparr>) demo_jd (Retry ''bank_timeout'') late_db
    = (Inr (), d', [retry_job demo_jd 1 (Fin 750)])"
proof -
  have "schedule_retry demo_cfg (1 / 2) demo_jd (Some 1) = Inr [retry_job demo_jd 1 (Fin 750)]"
    using demo_delay by (simp add: schedule_retry_def demo_cfg_def)
  moreover have "\<exists>d'. retry_txn (MAX_RETRIES demo_cfg) demo_jd ''bank_timeout'' (settle_env demo_penv) late_db = Inr (Some 1, d')"
    by (simp add: retry_txn_def Let_def late_db_def returning_def cas_pred_def retry_status_def demo_cfg_def
        insert_event_def insert_row_def retry_event_def demo_d2_tables claim_event_def submitted_event_def
        demo_penv_def demo_env_def update_where_def)
  ultimately show ?thesis by (auto simp: settle_def)
qed

subsection \<open>The form\<close>

definition demo_form :: form_state where
  "demo_form = (new_form ''k1'')\<lparr>fs_form := DEFAULTS\<lparr>in_amount := ''12.50'', in_reference := Some '' ''\<rparr>\<rparr>"

text \<open>The console on its own origin, which the API's default configuration lists.\<close>

definition demo_origins :: origins where
  "demo_origins = \<lparr>page_origin = ''http://localhost:3001'', api_origin = ''http://localhost:3000'',
     cors_origins = [''http://localhost:3001'', ''http://127.0.0.1:3001'']\<rparr>"

definition demo_form_dto :: create_payment_dto where
  "demo_form_dto = \<lparr>dto_customerId = ''C12345'', dto_sourceAccount = ''VA10001'',
     dto_destinationAccount = ''EXT98765'', dto_amount = ''12.50'', dto_currency = Undefined,
     dto_reference = Undefined\<rparr>"

lemma demo_form_pipe: "pipe_create_payment (input_fields (form_input (fs_form demo_form))) = Inr demo_form_dto"
proof -
  have "js_trim '' '' = []" by (simp add: js_trim_def is_js_blank_def Let_def)
  moreover have "match_amount ''12.50'' \<noteq> None"
    using demo_amount by (auto simp: convAmountToUnits_def split: option.splits if_splits)
  ultimately show ?thesis
    by (simp add: demo_form_def new_form_def DEFAULTS_def form_input_def input_fields_def opt_json_def
        pipe_create_payment_def validate_def create_payment_checks_def is_absent_def
        to_create_payment_def demo_form_dto_def)
qed

lemma demo_form_amount: "convAmountToUnits (dto_amount demo_form_dto) = Inr 1250"
  by (simp add: demo_form_dto_def demo_amount)

lemma demo_form_key: "http_trim (fs_key demo_form) = ''k1''"
  by (simp add: demo_form_def new_form_def http_trim_def Let_def)

lemma demo_form_fresh: "\<not> fs_submitting demo_form" "fs_createdIds demo_form = []"
  by (simp_all add: demo_form_def new_form_def)

lemma demo_origins_allowed: "origin_allowed demo_origins"
  by (simp add: origin_allowed_def demo_origins_def)

lemma demo_trace: "readable_trace demo_origins r = None"
  by (simp add: readable_trace_def demo_origins_def)

text \<open>A row of the chaos configuration.\<close>

definition demo_config_row :: bank_config_row where
  "demo_config_row = \<lparr>b_id = BANK_CONFIG_ID, mode = Always_authorize, latencyMs = 200, failN = 2, b_updatedAt = 10\<rparr>"

end
