(* ===== verification/FanOut.thy ===== *)
theory FanOut
  imports WebhookTruth
begin

text \<open>
  The fan-out of an event in the system of all processes. The endpoints an event is delivered to
  are fixed by the step that marks it dispatched: those active in the database at that moment, each
  with one delivery, whatever endpoints are registered or deleted later. Outbox ids
  are assumed not to repeat, as ULIDs do not: deliveries refer to their event by its id.
\<close>

subsection \<open>The marks of the outbox\<close>

definition row_mark :: "outbox_row \<Rightarrow> string \<times> int option" where
  "row_mark r = (o_id r, webhookDispatchedAt r)"

definition marks :: "db \<Rightarrow> (string \<times> int option) list" where
  "marks d = map row_mark (outbox d)"

text \<open>No step of the payment processes touches a mark; new rows come last.\<close>

definition marks_kept :: "db \<Rightarrow> db \<Rightarrow> bool" where
  "marks_kept d d' \<longleftrightarrow> (\<exists>ys. marks d' = marks d @ ys)"

lemma marks_kept_appended: "outbox d' = outbox d @ rs \<Longrightarrow> marks_kept d d'"
  by (simp add: marks_kept_def marks_def)

lemma marks_kept_same [simp]: "marks_kept d d"
  by (simp add: marks_kept_def)

lemma marks_updated:
  assumes "\<And>r. row_mark (f r) = row_mark r"
  shows "map row_mark (update_where P f t) = map row_mark t"
  using assms by (induction t) (auto simp: update_where_def)

lemma submit_outbox_appended: "submit su d = (r, d') \<Longrightarrow> \<exists>rs. outbox d' = outbox d @ rs"
  unfolding submit_def by (drule insert_txn_atomic) (auto simp: submitted_db_def Let_def)

lemma sys_step_marks:
  assumes "sys_step cfg s s'"
  shows "marks_kept (s_db s) (s_db s')"
  using assms
proof cases
  case (step_submit su r d')
  then show ?thesis using submit_outbox_appended [OF step_submit(2)] by (auto intro: marks_kept_appended)
next
  case (step_relay locked refuses fails now r d' adds)
  from relay_poll_db [OF step_relay(2)] consider "d' = s_db s"
    | "d' = (s_db s)\<lparr>outbox := poll_mark relay_pending (relay_mark now) locked (outbox (s_db s))\<rparr>"
    by (cases r) auto
  then show ?thesis
    by cases (simp_all add: step_relay(1) marks_kept_def marks_def poll_mark_def mark_rows_def marks_updated
        row_mark_def relay_mark_def)
next
  case (step_reap dl locked env r d' adds adds')
  then show ?thesis using reap_outbox [OF step_reap(2)] by (auto intro: marks_kept_appended [of _ _ "[]"])
next
  case (step_claim i jd found env d')
  then show ?thesis using claim_outbox [OF step_claim(3)] by (auto intro: marks_kept_appended [of _ _ "[]"])
next
  case (step_settle i jd dis env r d' adds adds')
  then show ?thesis using settle_outbox [OF step_settle(3)]
    by (auto intro: marks_kept_appended marks_kept_appended [of _ _ "[]"])
qed simp_all

subsection \<open>The steps of the webhook processes\<close>

definition row_keys :: "webhook_delivery \<Rightarrow> string \<times> string \<times> string" where
  "row_keys r = (d_id r, eventId r, endpointId r)"

lemma row_keys_written:
  assumes "\<And>y. d_id (f y) = d_id y" "\<And>y. endpointId (f y) = endpointId y" "\<And>y. eventId (f y) = eventId y"
  shows "map row_keys (webhookDeliveries (set_delivery i f d)) = map row_keys (webhookDeliveries d)"
  using assms by (simp add: set_delivery_def map_update_where row_keys_def)

lemma set_delivery_outbox [simp]: "outbox (set_delivery i f d) = outbox d"
  by (simp add: set_delivery_def)

text \<open>The dispatcher's commit is the one step that adds deliveries or marks an event.\<close>

lemma hook_step_fan:
  assumes "hook_step cfg wcfg hmac str w w'"
  obtains (other) "marks_kept (hk_db w) (hk_db w')"
      "map row_keys (webhookDeliveries (hk_db w')) = map row_keys (webhookDeliveries (hk_db w))"
  | (dispatch) locked fresh db_now now rows where
      "dispatch_txn locked fresh db_now now (hk_db w) = Inr (rows, hk_db w')"
  using assms
proof cases
  case (hook_core s')
  then show thesis using sys_step_marks [OF hook_core(2)] sys_step_extends [OF hook_core(2)] by (intro other) auto
next
  case (hook_create is_url fs i sec now r d')
  from hook_create(2) show thesis
    by (cases rule: create_endpoint_db)
      (auto simp: hook_create(1) intro!: other marks_kept_appended [of _ _ "[]"])
next
  case (hook_delete i r d')
  from delete_endpoint_db [OF hook_delete(2)] show thesis
    by (intro other) (auto simp: hook_delete(1) intro!: marks_kept_appended [of _ _ "[]"])
next
  case (hook_dispatch locked fresh refuses db_now now r d' adds adds')
  from hook_dispatch(2) show thesis
    by (cases rule: dispatch_once_cases) (auto simp: hook_dispatch(1) intro: other dispatch)
next
  case (hook_write n r res now rn x d' adds adds')
  from hook_write(3) show thesis
  proof (cases rule: webhook_write_db)
    case (updated f)
    show thesis by (rule other)
      (auto simp: hook_write(1) updated(1) row_keys_written [OF updated(2-4)]
        intro!: marks_kept_appended [of _ _ "[]"])
  qed (auto simp: hook_write(1) intro: other)
qed (auto intro: other)

lemma row_keys_appended:
  "dispatch_txn locked fresh db_now now d = Inr (rows, d') \<Longrightarrow>
   map row_keys (webhookDeliveries d') = map row_keys (webhookDeliveries d) @ map row_keys rows"
  by (drule dispatch_txn_Inr(2)) simp

text \<open>Outbox ids are never dropped, so they were distinct before.\<close>

lemma ids_marks: "map o_id (outbox d) = map fst (marks d)"
  by (simp add: marks_def row_mark_def)

lemma hook_step_ids:
  assumes "hook_step cfg wcfg hmac str w w'"
  shows "\<exists>ys. map o_id (outbox (hk_db w')) = map o_id (outbox (hk_db w)) @ ys"
  using assms
proof (cases rule: hook_step_fan)
  case other
  then show ?thesis by (auto simp: ids_marks marks_kept_def)
next
  case (dispatch locked fresh db_now now rows)
  then show ?thesis by (simp add: dispatch_txn_Inr(2) [OF dispatch] dispatch.poll_mark_ids)
qed

lemma hook_step_distinct:
  "hook_step cfg wcfg hmac str w w' \<Longrightarrow> distinct (map o_id (outbox (hk_db w'))) \<Longrightarrow> distinct (map o_id (outbox (hk_db w)))"
  by (drule hook_step_ids) auto

lemma hook_steps_distinct:
  "(hook_step cfg wcfg hmac str)\<^sup>*\<^sup>* w w' \<Longrightarrow> distinct (map o_id (outbox (hk_db w'))) \<Longrightarrow> distinct (map o_id (outbox (hk_db w)))"
  by (induction rule: rtranclp_induct) (auto dest: hook_step_distinct)

subsection \<open>Deliveries are of marked events, and no two alike\<close>

definition marked :: "db \<Rightarrow> string \<Rightarrow> bool" where
  "marked d i \<longleftrightarrow> (\<exists>n. (i, Some n) \<in> set (marks d))"

definition fan :: "db \<Rightarrow> string \<Rightarrow> string set" where
  "fan d i = {k. \<exists>x. (x, i, k) \<in> set (map row_keys (webhookDeliveries d))}"

lemma fan_alt: "fan d i = endpointId ` {r \<in> set (webhookDeliveries d). eventId r = i}"
  by (auto simp: fan_def row_keys_def)

lemma row_marks: "r \<in> set (outbox d) \<Longrightarrow> (o_id r, webhookDispatchedAt r) \<in> set (marks d)"
  by (force simp: marks_def row_mark_def)

lemma marked_row: "r \<in> set (outbox d) \<Longrightarrow> webhookDispatchedAt r = Some n \<Longrightarrow> marked d (o_id r)"
  by (force simp: marked_def marks_def row_mark_def)

lemma dispatch_marked:
  assumes "dispatch_txn locked fresh db_now now d = Inr (rows, d')" "marked d i"
  shows "marked d' i"
proof -
  from assms(2) obtain r n where r: "r \<in> set (outbox d)" "o_id r = i" "webhookDispatchedAt r = Some n"
    by (fastforce simp: marked_def marks_def row_mark_def)
  have "\<exists>r' \<in> set (outbox d'). o_id r' = i \<and> webhookDispatchedAt r' \<noteq> None"
  proof (cases "o_id r \<in> o_id ` set (claim_rows dispatch_pending locked (outbox d))")
    case True
    then have "dispatch_mark now r \<in> set (outbox d')"
      using r(1) unfolding dispatch_txn_Inr(2) [OF assms(1)] poll_mark_def mark_rows_def
      by (auto simp: in_update_where)
    then show ?thesis using r by (intro bexI [of _ "dispatch_mark now r"]) simp_all
  next
    case False
    then have "r \<in> set (outbox d')"
      using r(1) unfolding dispatch_txn_Inr(2) [OF assms(1)] poll_mark_def mark_rows_def
      by (auto simp: in_update_where)
    then show ?thesis using r by auto
  qed
  then show ?thesis using marked_row by blast
qed

lemma dispatch_claimed_marked:
  assumes "dispatch_txn locked fresh db_now now d = Inr (rows, d')"
    and "e \<in> set (claim_rows dispatch_pending locked (outbox d))"
  shows "marked d' (o_id e)"
proof -
  have "dispatch_mark now e \<in> set (outbox d')"
    using assms(2) claim_rows_in [OF assms(2)]
    unfolding dispatch_txn_Inr(2) [OF assms(1)] poll_mark_def mark_rows_def by (auto simp: in_update_where)
  from marked_row [OF this] show ?thesis by simp
qed

lemma hook_step_marked:
  assumes "hook_step cfg wcfg hmac str w w'" "marked (hk_db w) i"
  shows "marked (hk_db w') i"
  using assms(1)
proof (cases rule: hook_step_fan)
  case other
  then show ?thesis using assms(2) by (auto simp: marked_def marks_kept_def)
qed (rule dispatch_marked [OF _ assms(2)])

text \<open>What holds of the deliveries in every reachable state.\<close>

definition fan_inv :: "hooked \<Rightarrow> bool" where
  "fan_inv w \<longleftrightarrow> deliveries_unique (hk_db w)
     \<and> (\<forall>r \<in> set (webhookDeliveries (hk_db w)). marked (hk_db w) (eventId r))
     \<and> jobs_name_deliveries (hk_db w, hk_jobs w)"

lemma keys_same:
  assumes "map row_keys (webhookDeliveries d') = map row_keys (webhookDeliveries d)"
  shows "deliveries_unique d' = deliveries_unique d" "eventId ` set (webhookDeliveries d') = eventId ` set (webhookDeliveries d)"
    "d_id ` set (webhookDeliveries d') = d_id ` set (webhookDeliveries d)"
proof -
  have m: "map f (webhookDeliveries d') = map f (webhookDeliveries d)" if "\<And>r. f r = g (row_keys r)" for f :: "webhook_delivery \<Rightarrow> 'a" and g
  proof -
    have "map f t = map g (map row_keys t)" for t by (simp add: that)
    then show ?thesis using assms by metis
  qed
  have 1: "map eventId (webhookDeliveries d') = map eventId (webhookDeliveries d)"
    by (rule m [of _ "\<lambda>(_, e, _). e"]) (simp add: row_keys_def)
  have 2: "map d_id (webhookDeliveries d') = map d_id (webhookDeliveries d)"
    by (rule m [of _ fst]) (simp add: row_keys_def)
  have 3: "map (\<lambda>r. (eventId r, endpointId r)) (webhookDeliveries d') = map (\<lambda>r. (eventId r, endpointId r)) (webhookDeliveries d)"
    by (rule m [of _ snd]) (simp add: row_keys_def)
  show "deliveries_unique d' = deliveries_unique d" by (simp add: deliveries_unique_def 2 3)
  show "eventId ` set (webhookDeliveries d') = eventId ` set (webhookDeliveries d)" by (metis 1 set_map)
  show "d_id ` set (webhookDeliveries d') = d_id ` set (webhookDeliveries d)" by (metis 2 set_map)
qed

lemma delivery_ids_grow:
  assumes "hook_step cfg wcfg hmac str w w'"
  shows "d_id ` set (webhookDeliveries (hk_db w)) \<subseteq> d_id ` set (webhookDeliveries (hk_db w'))"
  using assms
proof (cases rule: hook_step_fan)
  case other
  then show ?thesis using keys_same(3) by blast
next
  case (dispatch locked fresh db_now now rows)
  then show ?thesis by (simp add: dispatch_txn_Inr(2) [OF dispatch] image_Un)
qed

lemma new_jobs_named:
  assumes st: "hook_step cfg wcfg hmac str w w'" and inv: "hook_inv hmac str w"
  shows "\<exists>new. hk_jobs w' = hk_jobs w @ new \<and> job_payload ` set new \<subseteq> d_id ` set (webhookDeliveries (hk_db w'))"
  using st
proof cases
  case (hook_dispatch locked fresh refuses db_now now r d' adds adds')
  from hook_dispatch(2) have "job_payload ` set adds \<subseteq> d_id ` set (webhookDeliveries d')"
  proof (cases rule: dispatch_once_cases)
    case (committed rows)
    have "job_payload ` set adds \<subseteq> d_id ` set rows"
      using image_mono [OF committed(2), of job_payload] by (simp add: image_image dispatch_job_def)
    then show ?thesis by (auto simp: dispatch_txn_Inr(2) [OF committed(1)])
  qed simp
  with hook_dispatch(3) show ?thesis by (intro exI [of _ adds']) (auto simp: hook_dispatch(1))
next
  case (hook_write n r res now rn x d' adds adds')
  have "same_row (hk_db w) r" using inv hook_write(2) unfolding hook_inv_def by (metis delivery_pc_ok.simps(3))
  then have "d_id r \<in> d_id ` set (webhookDeliveries (hk_db w))"
    unfolding same_row_def by (metis imageI)
  with delivery_ids_grow [OF st] have "d_id r \<in> d_id ` set (webhookDeliveries (hk_db w'))" by (rule subsetD)
  moreover from hook_write(3) have "job_payload ` set adds \<subseteq> {d_id r}" by (cases rule: webhook_write_db) simp_all
  ultimately show ?thesis using hook_write(4) by (intro exI [of _ adds']) (auto simp: hook_write(1))
next
  case (hook_reap adds' deadline locked now)
  then show ?thesis using webhook_reap_payloads by (intro exI [of _ adds']) fastforce
qed auto

lemma fan_inv_step:
  assumes st: "hook_step cfg wcfg hmac str w w'" and hi: "hook_inv hmac str w" and inv: "fan_inv w"
  shows "fan_inv w'"
proof -
  obtain new where new: "hk_jobs w' = hk_jobs w @ new"
    "job_payload ` set new \<subseteq> d_id ` set (webhookDeliveries (hk_db w'))" using new_jobs_named [OF st hi] by blast
  have "job_payload ` set (hk_jobs w) \<subseteq> d_id ` set (webhookDeliveries (hk_db w'))"
    using inv delivery_ids_grow [OF st] unfolding fan_inv_def jobs_name_deliveries_def by (auto simp: subset_iff)
  then have jobs: "jobs_name_deliveries (hk_db w', hk_jobs w')"
    using new by (simp add: jobs_name_deliveries_def image_Un)
  have old: "marked (hk_db w') i" if "i \<in> eventId ` set (webhookDeliveries (hk_db w))" for i
    using that inv hook_step_marked [OF st] by (auto simp: fan_inv_def)
  from st show ?thesis
  proof (cases rule: hook_step_fan)
    case other
    have "marked (hk_db w') (eventId r)" if "r \<in> set (webhookDeliveries (hk_db w'))" for r
      using that old keys_same(2) [OF other(2)] by blast
    then show ?thesis using jobs inv by (simp add: fan_inv_def keys_same(1) [OF other(2)])
  next
    case (dispatch locked fresh db_now now rows)
    have new: "marked (hk_db w') (eventId r)" if "r \<in> set rows" for r
    proof -
      have "r \<in> set (delivery_batch fresh db_now (claim_rows dispatch_pending locked (outbox (hk_db w)))
          (select_where active (webhookEndpoints (hk_db w))))"
        using that dispatch_txn_Inr(1) [OF dispatch] by simp
      then obtain e ep where e: "e \<in> set (claim_rows dispatch_pending locked (outbox (hk_db w)))"
        "r = new_delivery fresh db_now e ep" unfolding in_delivery_batch by blast
      show ?thesis using dispatch_claimed_marked [OF dispatch e(1)] by (simp add: e(2) new_delivery_def)
    qed
    have "deliveries_unique (hk_db w')" using dispatch_txn_unique [OF dispatch] inv by (simp add: fan_inv_def)
    moreover have "marked (hk_db w') (eventId r)" if "r \<in> set (webhookDeliveries (hk_db w'))" for r
      using that old new by (auto simp: dispatch_txn_Inr(2) [OF dispatch])
    ultimately show ?thesis using jobs by (simp add: fan_inv_def)
  qed
qed

lemma reachable_fan_inv: "hook_reachable cfg wcfg hmac str w \<Longrightarrow> fan_inv w"
proof (induction rule: hook_reachable.induct)
  case (hook_init t0)
  then show ?case
    by (simp add: fan_inv_def hk_initial_def initial_def empty_db_def deliveries_unique_def jobs_name_deliveries_def)
qed (rule fan_inv_step [OF _ reachable_hook_inv])

subsection \<open>The marking of an event\<close>

lemma mark_unique:
  assumes "distinct (map o_id (outbox d))" "(i, m) \<in> set (marks d)" "(i, n) \<in> set (marks d)"
  shows "m = n"
  using assms unfolding ids_marks by (metis eq_key_imp_eq_value)

lemma unmarked_row:
  assumes "distinct (map o_id (outbox d))" "e \<in> set (outbox d)" "webhookDispatchedAt e = None"
  shows "\<not> marked d (o_id e)"
proof
  assume "marked d (o_id e)"
  then obtain n where "(o_id e, Some n) \<in> set (marks d)" by (auto simp: marked_def)
  moreover have "(o_id e, None) \<in> set (marks d)" using assms(2,3) by (force simp: marks_def row_mark_def)
  ultimately show False using mark_unique [OF assms(1)] by blast
qed

lemma fan_dispatched:
  assumes "dispatch_txn locked fresh db_now now d = Inr (rows, d')"
  shows "fan d' i = fan d i \<union> (if i \<in> o_id ` set (claim_rows dispatch_pending locked (outbox d))
    then w_id ` {ep \<in> set (webhookEndpoints d). active ep} else {})"
proof -
  let ?b = "delivery_batch fresh db_now (claim_rows dispatch_pending locked (outbox d)) (select_where active (webhookEndpoints d))"
  have "fan d' i = fan d i \<union> endpointId ` {r \<in> set ?b. eventId r = i}"
    unfolding fan_alt dispatch_txn_Inr(2) [OF assms] dispatch_txn_Inr(1) [OF assms] by auto
  also have "endpointId ` {r \<in> set ?b. eventId r = i} = (if i \<in> o_id ` set (claim_rows dispatch_pending locked (outbox d))
    then w_id ` {ep \<in> set (webhookEndpoints d). active ep} else {})"
  proof (intro equalityI subsetI)
    fix k assume "k \<in> endpointId ` {r \<in> set ?b. eventId r = i}"
    then show "k \<in> (if i \<in> o_id ` set (claim_rows dispatch_pending locked (outbox d))
        then w_id ` {ep \<in> set (webhookEndpoints d). active ep} else {})"
      unfolding in_delivery_batch by (auto simp: new_delivery_def select_where_def)
  next
    fix k assume k: "k \<in> (if i \<in> o_id ` set (claim_rows dispatch_pending locked (outbox d))
        then w_id ` {ep \<in> set (webhookEndpoints d). active ep} else {})"
    then obtain e ep where e: "e \<in> set (claim_rows dispatch_pending locked (outbox d))" "o_id e = i"
      "ep \<in> set (webhookEndpoints d)" "active ep" "w_id ep = k" by (auto split: if_splits)
    then have "new_delivery fresh db_now e ep \<in> set ?b" unfolding in_delivery_batch by (auto simp: select_where_def)
    then show "k \<in> endpointId ` {r \<in> set ?b. eventId r = i}"
      using e by (intro image_eqI [of _ _ "new_delivery fresh db_now e ep"]) (auto simp: new_delivery_def)
  qed
  finally show ?thesis .
qed

text \<open>The step that marks an event gives it its deliveries; no later step adds one or takes one away.\<close>

lemma marking_step:
  assumes st: "hook_step cfg wcfg hmac str w w'" and r: "hook_reachable cfg wcfg hmac str w"
    and ids: "distinct (map o_id (outbox (hk_db w')))"
    and e: "e \<in> set (outbox (hk_db w))" "webhookDispatchedAt e = None" "marked (hk_db w') (o_id e)"
  shows "terminal_type (eventType e)" "fan (hk_db w) (o_id e) = {}"
    "fan (hk_db w') (o_id e) = w_id ` {ep \<in> set (webhookEndpoints (hk_db w)). active ep}"
proof -
  note ids0 = hook_step_distinct [OF st ids]
  have no: "\<not> marked (hk_db w) (o_id e)" by (rule unmarked_row [OF ids0 e(1,2)])
  show empty: "fan (hk_db w) (o_id e) = {}"
    using no reachable_fan_inv [OF r] by (auto simp: fan_alt fan_inv_def)
  have "terminal_type (eventType e) \<and> fan (hk_db w') (o_id e) = w_id ` {ep \<in> set (webhookEndpoints (hk_db w)). active ep}"
    using st
  proof (cases rule: hook_step_fan)
    case other
    have "(o_id e, None) \<in> set (marks (hk_db w'))"
      using row_marks [OF e(1)] e(2) other(1) by (auto simp: marks_kept_def)
    moreover obtain n where "(o_id e, Some n) \<in> set (marks (hk_db w'))" using e(3) by (auto simp: marked_def)
    ultimately show ?thesis using mark_unique [OF ids] by blast
  next
    case (dispatch locked fresh db_now now rows)
    let ?c = "claim_rows dispatch_pending locked (outbox (hk_db w))"
    have claimed: "o_id e \<in> o_id ` set ?c"
    proof (rule ccontr)
      assume "o_id e \<notin> o_id ` set ?c"
      then have "e \<in> set (outbox (hk_db w'))"
        using e(1) unfolding dispatch_txn_Inr(2) [OF dispatch] poll_mark_def mark_rows_def
        by (auto simp: in_update_where)
      then show False using unmarked_row [OF ids _ e(2)] e(3) by blast
    qed
    then obtain c where c: "c \<in> set ?c" "o_id c = o_id e" by (metis imageE)
    have "c = e" by (rule distinct_key_unique [OF ids0 _ e(1) c(2)]) (use claim_rows_in [OF c(1)] in simp)
    then have "terminal_type (eventType e)"
      using claim_rows_in [OF c(1)] by (auto simp: dispatch_pending_def terminal_type_def)
    then show ?thesis using claimed empty by (simp add: fan_dispatched [OF dispatch])
  qed
  then show "terminal_type (eventType e)"
    "fan (hk_db w') (o_id e) = w_id ` {ep \<in> set (webhookEndpoints (hk_db w)). active ep}" by simp_all
qed

lemma fan_frozen_step:
  assumes st: "hook_step cfg wcfg hmac str w w'" and ids: "distinct (map o_id (outbox (hk_db w')))"
    and m: "marked (hk_db w) i"
  shows "fan (hk_db w') i = fan (hk_db w) i"
  using st
proof (cases rule: hook_step_fan)
  case other
  then show ?thesis by (simp add: fan_def)
next
  case (dispatch locked fresh db_now now rows)
  have "i \<notin> o_id ` set (claim_rows dispatch_pending locked (outbox (hk_db w)))"
  proof
    assume "i \<in> o_id ` set (claim_rows dispatch_pending locked (outbox (hk_db w)))"
    then obtain c where c: "c \<in> set (outbox (hk_db w))" "o_id c = i" "webhookDispatchedAt c = None"
      using claim_rows_in by (fastforce simp: dispatch_pending_def)
    then show False using unmarked_row [OF hook_step_distinct [OF st ids] c(1,3)] m by simp
  qed
  then show ?thesis by (simp add: fan_dispatched [OF dispatch])
qed

lemma fan_frozen:
  assumes "(hook_step cfg wcfg hmac str)\<^sup>*\<^sup>* w w'" "distinct (map o_id (outbox (hk_db w')))" "marked (hk_db w) i"
  shows "fan (hk_db w') i = fan (hk_db w) i \<and> marked (hk_db w') i"
  using assms
proof (induction rule: rtranclp_induct)
  case (step w1 w2)
  have "fan (hk_db w1) i = fan (hk_db w) i \<and> marked (hk_db w1) i"
    using step.IH hook_step_distinct [OF step.hyps(2) step.prems(1)] step.prems(2) by blast
  then show ?case using fan_frozen_step [OF step.hyps(2) step.prems(1)] hook_step_marked [OF step.hyps(2)] by metis
qed simp

end
