(* ===== verification/Formats.thy ===== *)
theory Formats
  imports WebPages
begin

text \<open>
  The formatters of \<open>apps/web/src/lib/api.ts\<close>. \<open>formatMoney\<close> is Intl.NumberFormat for en-US on
  the double \<open>cents / 100\<close>, written out for US dollars, the one currency the API stores; other
  currencies are the locale's table and the argument \<open>intl\<close>. \<open>formatTime\<close> prints the local time
  of day of an ISO time; the offset of the time zone and what the locale prints for the hour of midnight
  are arguments. Shown: a time sent as JSON is read back to the millisecond, two times are shown alike
  just when they are in one second of the local day, and an amount is shown exactly below
  100 times $2^{46}$ cents, while the next one is not.
\<close>

subsection \<open>Money\<close>

text \<open>Thousands separators, on the reversed digits.\<close>

fun group_rev :: "string \<Rightarrow> string" where
  "group_rev (a # b # c # d # s) = a # b # c # CHR '','' # group_rev (d # s)"
| "group_rev s = s"

definition group_thousands :: "string \<Rightarrow> string" where
  "group_thousands s = rev (group_rev (rev s))"

text \<open>Two fraction digits, the nearest hundredth of the double's exact value, halves away from zero.\<close>

definition format_usd :: "rat \<Rightarrow> string" where
  "format_usd x =
     (let n = nat \<lfloor>\<bar>x\<bar> * 100 + 1 / 2\<rfloor>
      in (if x < 0 then ''-'' else []) @ ''$'' @ group_thousands (nat_str (n div 100)) @ ''.''
           @ pad_start 2 (CHR ''0'') (nat_str (n mod 100)))"

definition formatMoney :: "(string \<Rightarrow> rat \<Rightarrow> string) \<Rightarrow> int \<Rightarrow> string \<Rightarrow> string" where
  "formatMoney intl cents curr_code =
     (let x = f64 (of_int cents / 100) in if curr_code = ''USD'' then format_usd x else intl curr_code x)"

text \<open>What the amount is, with separators.\<close>

definition usd_str :: "nat \<Rightarrow> string" where
  "usd_str n = ''$'' @ group_thousands (nat_str (n div 100)) @ ''.'' @ pad_start 2 (CHR ''0'') (nat_str (n mod 100))"

lemma format_usd_near:
  assumes "0 \<le> x" "\<bar>x - of_nat n / 100\<bar> < 1 / 200"
  shows "format_usd x = usd_str n"
proof -
  have "of_nat n \<le> x * 100 + 1 / 2 \<and> x * 100 + 1 / 2 < of_nat n + 1" using assms(2) by linarith
  then have "\<lfloor>x * 100 + 1 / 2\<rfloor> = int n" by (intro floor_unique) simp_all
  then show ?thesis using assms(1) by (simp add: format_usd_def usd_str_def Let_def)
qed

lemma formatMoney_exact:
  assumes "n < 100 * 2 ^ 46"
  shows "formatMoney intl (int n) ''USD'' = usd_str n"
proof -
  let ?x = "(of_nat n :: rat) / 100"
  have "\<bar>f64 ?x - ?x\<bar> < 1 / 200"
  proof (cases "n = 0")
    case False
    have "(of_nat n :: rat) < of_nat (100 * 2 ^ 46)" using assms by (simp only: of_nat_less_iff)
    then have "?x < 2 powi (45 + 1)" by simp
    then have "\<bar>f64 ?x - ?x\<bar> \<le> 2 powi (45 - 53)" using False by (intro f64_error) simp_all
    moreover have "(2 :: rat) powi (45 - 53) = 1 / 256" by (simp add: power_int_def power_one_over)
    ultimately show ?thesis by simp
  qed simp
  then show ?thesis using format_usd_near [of "f64 ?x" n] f64_nonneg [of ?x] by (simp add: formatMoney_def)
qed

text \<open>Dropping the separators gives the digits back.\<close>

lemma group_rev_filter: "CHR '','' \<notin> set s \<Longrightarrow> filter (\<lambda>c. c \<noteq> CHR '','') (group_rev s) = s"
  by (induction s rule: group_rev.induct) (auto simp: filter_id_conv)

lemma group_thousands_filter:
  "CHR '','' \<notin> set s \<Longrightarrow> filter (\<lambda>c. c \<noteq> CHR '','') (group_thousands s) = s"
  by (simp add: group_thousands_def group_rev_filter flip: rev_filter)

lemma usd_str_amount: "filter (\<lambda>c. c \<noteq> CHR '','') (usd_str n) = CHR ''$'' # amount_str n"
proof -
  have d: "CHR '','' \<notin> set (nat_str k)" for k using nat_str_digits [of "CHR '',''" k] by (auto simp: is_digit_def)
  then have "CHR '','' \<notin> set (pad_start 2 (CHR ''0'') (nat_str (n mod 100)))" by (auto simp: pad_start_def)
  then show ?thesis
    by (simp add: usd_str_def amount_str_def group_thousands_filter [OF d] filter_id_conv) (auto simp: filter_id_conv)
qed

text \<open>One cent above 100 times $2^{46}$ the nearest double is a 64th above a whole dollar, and two cents are shown.\<close>

lemma f64_first_off: "f64 (of_int (100 * 2 ^ 46 + 1) / 100) = 2 ^ 46 + 1 / 64"
proof -
  define x :: rat where "x = 2 ^ 46 + 1 / 100"
  have pos: "0 < x" and lo: "(2 :: rat) powi 46 \<le> x" and hi: "x < 2 powi (46 + 1)"
    by (simp_all add: x_def power_int_def)
  have "46 \<le> floor_log2 x"
  proof (rule ccontr)
    assume "\<not> 46 \<le> floor_log2 x"
    then have "(2 :: rat) powi (floor_log2 x + 1) \<le> 2 powi 46" by (intro powi_two_mono) simp
    with floor_log2_bounds(2) [OF pos] lo show False by simp
  qed
  with floor_log2_le [OF pos hi] have e: "f64_exp x = -6" by (simp add: f64_exp_def)
  have p: "(2 :: rat) powi (-6) = 1 / 64" by (simp add: power_int_def power_one_over)
  have "\<lfloor>(of_int (64 * 2 ^ 46) :: rat) + 64 / 100\<rfloor> = 64 * 2 ^ 46" by (intro floor_unique) simp_all
  then have r: "round_even (of_int (64 * 2 ^ 46) + 64 / 100) = 64 * 2 ^ 46 + 1"
    by (simp add: round_even_def Let_def)
  have q: "x / (1 / 64) = of_int (64 * 2 ^ 46) + 64 / 100" by (simp add: x_def)
  have "f64_pos x = of_int (64 * 2 ^ 46 + 1) * (1 / 64)" unfolding f64_pos_def e p q r by (rule refl)
  then have "f64 x = 2 ^ 46 + 1 / 64" using pos by (simp add: f64_def)
  then show ?thesis by (simp add: x_def)
qed

lemma formatMoney_first_off: "formatMoney intl (100 * 2 ^ 46 + 1) ''USD'' = usd_str (100 * 2 ^ 46 + 2)"
proof -
  have "format_usd (2 ^ 46 + 1 / 64) = usd_str (100 * 2 ^ 46 + 2)"
  proof -
    have "\<lfloor>((2 :: rat) ^ 46 + 1 / 64) * 100 + 1 / 2\<rfloor> = int (100 * 2 ^ 46 + 2)" by (intro floor_unique) simp_all
    then show ?thesis by (simp add: format_usd_def usd_str_def Let_def)
  qed
  then show ?thesis unfolding formatMoney_def Let_def f64_first_off by simp
qed

subsection \<open>Times\<close>

text \<open>\<open>new Date(iso)\<close> on the format that \<open>toISOString\<close> prints: four digits of the year and so on.\<close>

definition date_fields :: "int \<Rightarrow> int \<Rightarrow> int \<Rightarrow> int \<Rightarrow> int \<Rightarrow> int \<Rightarrow> int \<Rightarrow> int" where
  "date_fields y m d h mi s ms =
     (day_from_year y + month_start (is_leap y) (nat (m - 1)) + d - 1) * MS_PER_DAY
       + h * 3600000 + mi * 60000 + s * 1000 + ms"

definition date_parse :: "string \<Rightarrow> int" where
  "date_parse stamp =
     (let num = (\<lambda>i n. int (digits_val (take n (drop i stamp))))
      in date_fields (num 0 4) (num 5 2) (num 8 2) (num 11 2) (num 14 2) (num 17 2) (num 20 3))"

lemma date_parse_fields:
  assumes "length y = 4" "length m = 2" "length d = 2" "length h = 2" "length mi = 2" "length s = 2" "length ms = 3"
  shows "date_parse ((y @ ''-'' @ m @ ''-'' @ d) @ ''T'' @ h @ '':'' @ mi @ '':'' @ s @ ''.'' @ ms @ ''Z'')
    = date_fields (int (digits_val y)) (int (digits_val m)) (int (digits_val d)) (int (digits_val h))
        (int (digits_val mi)) (int (digits_val s)) (int (digits_val ms))"
  using assms by (simp add: date_parse_def Let_def)

lemma isoDay_fields:
  assumes "0 \<le> z" "z < 2932897"
  obtains y m d where "isoDay z = y @ ''-'' @ m @ ''-'' @ d" "length y = 4" "length m = 2" "length d = 2"
    "int (digits_val y) = year_of z" "digits_val m = month_of z + 1" "int (digits_val d) = date_of z"
proof -
  let ?y = "pad_start 4 (CHR ''0'') (nat_str (nat (year_of z)))"
  let ?m = "pad_start 2 (CHR ''0'') (nat_str (month_of z + 1))"
  let ?d = "pad_start 2 (CHR ''0'') (nat_str (nat (date_of z)))"
  note yr = year_of_range [OF assms] and dt = date_of_range [OF assms(1)]
  have y: "length ?y = 4" "digits_val ?y = nat (year_of z)" using yr by (auto intro!: pad_digits)
  have m: "length ?m = 2" "digits_val ?m = month_of z + 1" using month_of_le [of z] by (auto intro!: pad_digits)
  have d: "length ?d = 2" "digits_val ?d = nat (date_of z)" using dt by (auto intro!: pad_digits)
  have "isoDay z = ?y @ ''-'' @ ?m @ ''-'' @ ?d" using y(1) m(1) d(1) yr by (simp add: isoDay_def iso_year_def)
  with y m d yr dt show thesis by (intro that [of ?y ?m ?d]) simp_all
qed

text \<open>A time in milliseconds is put together from its fields.\<close>

lemma millis_sum:
  "86400000 * z + r = t \<Longrightarrow> 1000 * a + f = r \<Longrightarrow> 60 * b + s = a \<Longrightarrow> 60 * h + m = b
    \<Longrightarrow> z * 86400000 + h * 3600000 + m * 60000 + s * 1000 + f = (t :: int)"
  by simp

lemma millis_split:
  fixes t r :: int
  defines "r \<equiv> t mod 86400000"
  shows "t div 86400000 * 86400000 + r div 3600000 * 3600000 + r div 60000 mod 60 * 60000
    + r div 1000 mod 60 * 1000 + r mod 1000 = t"
proof -
  have d: "r div 60000 = r div 1000 div 60" "r div 3600000 = r div 1000 div 60 div 60"
    using zdiv_zmult2_eq [of 60 r 1000] zdiv_zmult2_eq [of 3600 r 1000] zdiv_zmult2_eq [of 60 "r div 1000" 60] by simp_all
  show ?thesis unfolding d
    by (rule millis_sum [OF mult_div_mod_eq mult_div_mod_eq mult_div_mod_eq mult_div_mod_eq,
        where t = t, folded r_def])
qed

text \<open>Times of the years 1970 to 9999 are read back.\<close>

lemma date_parse_iso:
  assumes "0 \<le> t" "t < 253402300800000"
  shows "date_parse (toISOString t) = t"
proof -
  define z where "z = t div MS_PER_DAY"
  define r where "r = t mod MS_PER_DAY"
  have "0 \<le> t div 86400000" "t div 86400000 \<le> 253402300799999 div 86400000"
    using assms by (simp add: pos_imp_zdiv_nonneg_iff, intro zdiv_mono1, simp_all)
  then have z: "0 \<le> z" "z < 2932897" by (simp_all add: z_def MS_PER_DAY_def)
  have r: "0 \<le> r" "r < 86400000" unfolding r_def MS_PER_DAY_def by (rule pos_mod_sign pos_mod_bound, simp)+
  have p2: "length (pad2 n) = 2" "int (digits_val (pad2 n)) = n" if "0 \<le> n" "n < 100" for n
    using nat_str_two [of "nat n"] that by (simp_all add: pad2_def)
  have m60: "0 \<le> n mod 60" "n mod 60 < 100" for n :: int
    using pos_mod_bound [of 60 n] by simp_all
  have hr: "0 \<le> r div 3600000" "r div 3600000 < 100"
    using r zdiv_mono1 [of r 86399999 3600000] by (simp_all add: pos_imp_zdiv_nonneg_iff)
  let ?ms = "pad_start 3 (CHR ''0'') (nat_str (nat (r mod 1000)))"
  have ms: "length ?ms = 3" "int (digits_val ?ms) = r mod 1000"
    using pos_mod_bound [of 1000 r] by (simp_all add: pad_digits nat_less_iff)
  obtain y m d where day: "isoDay z = y @ ''-'' @ m @ ''-'' @ d" "length y = 4" "length m = 2" "length d = 2"
    "int (digits_val y) = year_of z" "digits_val m = month_of z + 1" "int (digits_val d) = date_of z"
    using isoDay_fields [OF z] by blast
  have "date_parse (toISOString t) = date_fields (year_of z) (int (month_of z + 1)) (date_of z)
      (r div 3600000) (r div 60000 mod 60) (r div 1000 mod 60) (r mod 1000)"
    unfolding toISOString_def Let_def z_def [symmetric] r_def [symmetric] day(1)
    by (simp only: date_parse_fields [OF day(2-4) p2(1) [OF hr] p2(1) [OF m60] p2(1) [OF m60] ms(1)]
        day(5-7) p2(2) [OF hr] p2(2) [OF m60] ms(2))
  also have "\<dots> = z * MS_PER_DAY + r div 3600000 * 3600000 + r div 60000 mod 60 * 60000 + r div 1000 mod 60 * 1000
      + r mod 1000"
    by (simp add: date_fields_def date_of_def)
  also have "\<dots> = t" unfolding z_def r_def MS_PER_DAY_def by (rule millis_split)
  finally show ?thesis .
qed

definition two_digits :: "int \<Rightarrow> string" where
  "two_digits n = pad_start 2 (CHR ''0'') (nat_str (nat n))"

text \<open>\<open>zone\<close> is the offset of local time at a moment; \<open>midnight\<close> is 24 or 00, by the edition of the locale data.\<close>

definition clock_str :: "string \<Rightarrow> int \<Rightarrow> string" where
  "clock_str midnight s =
     (if s div 3600 = 0 then midnight else two_digits (s div 3600)) @ '':'' @ two_digits (s div 60 mod 60) @ '':''
       @ two_digits (s mod 60)"

definition formatTime :: "string \<Rightarrow> (int \<Rightarrow> int) \<Rightarrow> string \<Rightarrow> string" where
  "formatTime midnight zone stamp = (let t = date_parse stamp in clock_str midnight ((t + zone t) div 1000 mod 86400))"

lemma two_digits_props:
  assumes "0 \<le> n" "n < 100"
  shows "length (two_digits n) = 2" "int (digits_val (two_digits n)) = n"
  using nat_str_two [of "nat n"] assms by (simp_all add: two_digits_def)

lemma two_digits_inject:
  assumes "0 \<le> a" "a < 100" "0 \<le> b" "b < 100"
  shows "two_digits a = two_digits b \<longleftrightarrow> a = b"
  using two_digits_props(2) [OF assms(1,2)] two_digits_props(2) [OF assms(3,4)] by metis

lemma hour_eq:
  assumes "midnight = ''24'' \<or> midnight = ''00''" "0 \<le> a" "a < 24" "0 \<le> b" "b < 24"
    and eq: "(if a = 0 then midnight else two_digits a) = (if b = 0 then midnight else two_digits b)"
  shows "a = b"
proof -
  have m: "int (digits_val midnight) = 24 \<or> int (digits_val midnight) = 0"
    using assms(1) by (auto simp: digits_val_def digit_val_def)
  define f where "f h = int (digits_val (if h = 0 then midnight else two_digits h))" for h :: int
  have "f h = (if h = 0 then int (digits_val midnight) else h)" if "0 \<le> h" "h < 24" for h
    using two_digits_props(2) [of h] that by (simp add: f_def)
  then have v: "f a = (if a = 0 then int (digits_val midnight) else a)" "f b = (if b = 0 then int (digits_val midnight) else b)"
    using assms(2-5) by blast+
  have "f a = f b" unfolding f_def eq by (rule refl)
  then show ?thesis using v m assms(2-5) by (auto split: if_splits)
qed

text \<open>The three fields determine the second of the day.\<close>

lemma second_of_day: "(s :: int) = 3600 * (s div 3600) + 60 * (s div 60 mod 60) + s mod 60"
proof -
  have "s div 3600 = s div 60 div 60" using zdiv_zmult2_eq [of 60 s 60] by simp
  moreover have "60 * (s div 60 div 60) + s div 60 mod 60 = s div 60" by (rule mult_div_mod_eq)
  moreover have "60 * (s div 60) + s mod 60 = s" by (rule mult_div_mod_eq)
  ultimately show ?thesis by linarith
qed

lemma clock_str_inject:
  assumes m: "midnight = ''24'' \<or> midnight = ''00''" and b: "0 \<le> s" "s < 86400" "0 \<le> r" "r < 86400"
    and eq: "clock_str midnight s = clock_str midnight r"
  shows "s = r"
proof -
  have m60: "0 \<le> n mod 60" "n mod 60 < 100" for n :: int
    using pos_mod_bound [of 60 n] by simp_all
  let ?h = "\<lambda>h. if h = 0 then midnight else two_digits h"
  have hb: "0 \<le> s div 3600" "s div 3600 < 24" "0 \<le> r div 3600" "r div 3600 < 24" using b by auto
  have lh: "length (?h h) = 2" if "0 \<le> h" "h < 24" for h using m that two_digits_props(1) [of h] by auto
  note split2 = append_eq_append_conv [of "?h (s div 3600)" "?h (r div 3600)"]
    append_eq_append_conv [of "two_digits (s div 60 mod 60)" "two_digits (r div 60 mod 60)"]
  have "?h (s div 3600) = ?h (r div 3600) \<and> two_digits (s div 60 mod 60) = two_digits (r div 60 mod 60)
      \<and> two_digits (s mod 60) = two_digits (r mod 60)"
    using eq unfolding clock_str_def by (simp only: split2 lh hb two_digits_props(1) [OF m60] append_Cons append_Nil list.inject simp_thms)
  then have h: "?h (s div 3600) = ?h (r div 3600)" and mi: "s div 60 mod 60 = r div 60 mod 60"
    and se: "s mod 60 = r mod 60"
    by (simp_all only: two_digits_inject [OF m60 m60])
  show ?thesis using hour_eq [OF m hb h] mi se second_of_day [of s] second_of_day [of r] by metis
qed

text \<open>Two times print the same just when they are in the same second of the local day.\<close>

lemma formatTime_eq:
  assumes m: "midnight = ''24'' \<or> midnight = ''00''"
    and r: "0 \<le> t" "t < 253402300800000" "0 \<le> u" "u < 253402300800000"
  shows "formatTime midnight zone (toISOString t) = formatTime midnight zone (toISOString u)
    \<longleftrightarrow> (t + zone t) div 1000 mod 86400 = (u + zone u) div 1000 mod 86400"
  unfolding formatTime_def date_parse_iso [OF r(1,2)] date_parse_iso [OF r(3,4)] Let_def
  by (rule iffI, erule clock_str_inject [OF m, rotated -1]) simp_all

end
