(* ===== verification/Markup.thy ===== *)
theory Markup
  imports Formats
begin

text \<open>
  The page tree the components of \<open>apps/web\<close> return and what a user can do with it. A tree keeps the
  tags, attributes, handlers and texts of the JSX; class names, keys and drawings are left out.
  Clicks bubble, a link leads to its target, a button that is not \<open>type="button"\<close> submits the form
  it stands in, a form is submitted only when its fields are valid, and Enter in a field presses the
  first submit button of its form or, when it has none, submits a form of a single field.
\<close>

subsection \<open>Trees\<close>

text \<open>Texts are ASCII but for five signs.\<close>

datatype piece = Lit string | Ellipsis | EmDash | LeftArrow | RightArrow | MiddleDot

datatype attr_value = Flag | AStr string | AInt int | APercent rat

datatype 'a handler = OnClick 'a | OnChange "string \<Rightarrow> 'a" | OnSubmit 'a

datatype 'a node =
    Text "piece list"
  | El string "(string \<times> attr_value) list" "'a handler list" "'a node list"

abbreviation el :: "string \<Rightarrow> 'a node list \<Rightarrow> 'a node" where
  "el tg ns \<equiv> El tg [] [] ns"

abbreviation say :: "string \<Rightarrow> 'a node" where
  "say s \<equiv> Text [Lit s]"

text \<open>An attribute that is there when a condition holds.\<close>

definition flag :: "string \<Rightarrow> bool \<Rightarrow> (string \<times> attr_value) list" where
  "flag k b = (if b then [(k, Flag)] else [])"

definition shown_if :: "bool \<Rightarrow> 'a node list \<Rightarrow> 'a node list" where
  "shown_if b ns = (if b then ns else [])"

text \<open>All texts of a tree, in order.\<close>

fun texts :: "'a node \<Rightarrow> piece list list" where
  "texts (Text t) = [t]"
| "texts (El tg ats hs ns) = concat (map texts ns)"

subsection \<open>What a user can do\<close>

datatype 'a effect = Do 'a | Goto string

fun click_of :: "'a handler \<Rightarrow> 'a effect list" where
  "click_of (OnClick a) = [Do a]"
| "click_of _ = []"

fun submit_of :: "'a handler \<Rightarrow> 'a effect list" where
  "submit_of (OnSubmit a) = [Do a]"
| "submit_of _ = []"

fun change_of :: "'a handler \<Rightarrow> (string \<Rightarrow> 'a) list" where
  "change_of (OnChange g) = [g]"
| "change_of _ = []"

definition disabled :: "(string \<times> attr_value) list \<Rightarrow> bool" where
  "disabled ats \<longleftrightarrow> map_of ats ''disabled'' = Some Flag"

definition submits_form :: "string \<Rightarrow> (string \<times> attr_value) list \<Rightarrow> bool" where
  "submits_form tg ats \<longleftrightarrow> tg = ''button'' \<and> map_of ats ''type'' \<noteq> Some (AStr ''button'')"

text \<open>The enabled inputs of a tree, and the two constraints the console's forms declare.\<close>

fun inputs :: "'a node \<Rightarrow> (string \<times> attr_value) list list" where
  "inputs (Text t) = []"
| "inputs (El tg ats hs ns) =
     (if tg = ''input'' \<and> \<not> disabled ats then [ats] else []) @ concat (map inputs ns)"

definition field_value :: "(string \<times> attr_value) list \<Rightarrow> string" where
  "field_value ats = (case map_of ats ''value'' of Some (AStr s) \<Rightarrow> s | Some (AInt n) \<Rightarrow> int_str n | _ \<Rightarrow> [])"

definition field_valid :: "(string \<Rightarrow> string \<Rightarrow> bool) \<Rightarrow> (string \<times> attr_value) list \<Rightarrow> bool" where
  "field_valid re ats \<longleftrightarrow>
     (map_of ats ''required'' = Some Flag \<longrightarrow> field_value ats \<noteq> [])
   \<and> (case map_of ats ''pattern'' of Some (AStr p) \<Rightarrow> field_value ats = [] \<or> re p (field_value ats) | _ \<Rightarrow> True)"

text \<open>
  What surrounds a node: the clicks that bubble, the default action of the link or button around it,
  what submitting its form does, and what Enter does in it. \<open>re\<close> matches a pattern against a value.
\<close>

record 'a context_of =
  cx_clicks :: "'a effect list"
  cx_default :: "'a effect list"
  cx_submit :: "'a effect list"
  cx_enter :: "'a effect list"

definition top_level :: "'a context_of" where
  "top_level = \<lparr>cx_clicks = [], cx_default = [], cx_submit = [], cx_enter = []\<rparr>"

definition form_submit :: "(string \<Rightarrow> string \<Rightarrow> bool) \<Rightarrow> 'a handler list \<Rightarrow> 'a node list \<Rightarrow> 'a effect list" where
  "form_submit re hs ns =
     (if list_all (field_valid re) (concat (map inputs ns)) then concat (map submit_of hs) else [])"

definition inside :: "(string \<Rightarrow> string \<Rightarrow> bool) \<Rightarrow> 'a context_of \<Rightarrow> string \<Rightarrow> (string \<times> attr_value) list
  \<Rightarrow> 'a handler list \<Rightarrow> 'a node list \<Rightarrow> 'a context_of" where
  "inside re cx tg ats hs ns =
     cx\<lparr>cx_clicks := (if disabled ats then [] else concat (map click_of hs) @ cx_clicks cx),
        cx_default :=
          (if tg = ''a'' then (case map_of ats ''href'' of Some (AStr h) \<Rightarrow> [Goto h] | _ \<Rightarrow> [])
           else if tg = ''button'' then (if disabled ats \<or> \<not> submits_form tg ats then [] else cx_submit cx)
           else cx_default cx),
        cx_submit := (if tg = ''form'' then form_submit re hs ns else cx_submit cx)\<rparr>"

text \<open>A click on each element of a tree.\<close>

fun presses :: "(string \<Rightarrow> string \<Rightarrow> bool) \<Rightarrow> 'a context_of \<Rightarrow> 'a node \<Rightarrow> 'a effect list list" where
  "presses re cx (Text t) = []"
| "presses re cx (El tg ats hs ns) =
     (let c = inside re cx tg ats hs ns
      in (cx_clicks c @ cx_default c) # concat (map (presses re c) ns))"

text \<open>A click on each submit button.\<close>

fun submitters :: "(string \<Rightarrow> string \<Rightarrow> bool) \<Rightarrow> 'a context_of \<Rightarrow> 'a node \<Rightarrow> 'a effect list list" where
  "submitters re cx (Text t) = []"
| "submitters re cx (El tg ats hs ns) =
     (let c = inside re cx tg ats hs ns
      in (if submits_form tg ats then [cx_clicks c @ cx_default c] else []) @ concat (map (submitters re c) ns))"

definition implicit_submission :: "'a effect list list \<Rightarrow> nat \<Rightarrow> 'a effect list \<Rightarrow> 'a effect list" where
  "implicit_submission buttons n effs =
     (case buttons of b # _ \<Rightarrow> b | [] \<Rightarrow> if n \<le> 1 then effs else [])"

text \<open>Enter in each enabled input.\<close>

fun enters :: "(string \<Rightarrow> string \<Rightarrow> bool) \<Rightarrow> 'a context_of \<Rightarrow> 'a node \<Rightarrow> 'a effect list list" where
  "enters re cx (Text t) = []"
| "enters re cx (El tg ats hs ns) =
     (let c = inside re cx tg ats hs ns;
          c' = (if tg = ''form''
                then c\<lparr>cx_enter := implicit_submission (concat (map (submitters re c) ns))
                         (length (concat (map inputs ns))) (cx_submit c)\<rparr>
                else c)
      in (if tg = ''input'' \<and> \<not> disabled ats then [cx_enter c'] else []) @ concat (map (enters re c') ns))"

text \<open>The handlers a changed input calls.\<close>

fun changes :: "'a node \<Rightarrow> (string \<Rightarrow> 'a) list" where
  "changes (Text t) = []"
| "changes (El tg ats hs ns) =
     (if disabled ats then [] else concat (map change_of hs)) @ concat (map changes ns)"

text \<open>Whether a press, or Enter, somewhere on a page has an effect.\<close>

definition does :: "(string \<Rightarrow> string \<Rightarrow> bool) \<Rightarrow> 'a context_of \<Rightarrow> 'a node list \<Rightarrow> 'a effect \<Rightarrow> bool" where
  "does re cx ns x \<longleftrightarrow> list_ex (\<lambda>n. list_ex (\<lambda>es. x \<in> set es) (presses re cx n)) ns"

definition enterable :: "(string \<Rightarrow> string \<Rightarrow> bool) \<Rightarrow> 'a context_of \<Rightarrow> 'a node list \<Rightarrow> 'a effect \<Rightarrow> bool" where
  "enterable re cx ns x \<longleftrightarrow> list_ex (\<lambda>n. list_ex (\<lambda>es. x \<in> set es) (enters re cx n)) ns"

definition offers :: "(string \<Rightarrow> string \<Rightarrow> bool) \<Rightarrow> 'a node \<Rightarrow> 'a \<Rightarrow> bool" where
  "offers re v a \<longleftrightarrow> does re top_level [v] (Do a)"

definition entered :: "(string \<Rightarrow> string \<Rightarrow> bool) \<Rightarrow> 'a node \<Rightarrow> 'a \<Rightarrow> bool" where
  "entered re v a \<longleftrightarrow> enterable re top_level [v] (Do a)"

text \<open>The targets of the links, in order.\<close>

fun links :: "'a node \<Rightarrow> string list" where
  "links (Text t) = []"
| "links (El tg ats hs ns) =
     (if tg = ''a'' then (case map_of ats ''href'' of Some (AStr h) \<Rightarrow> [h] | _ \<Rightarrow> []) else []) @ concat (map links ns)"

text \<open>
  A tree without handlers, links, buttons and forms passes clicks on and does nothing else.
\<close>

fun inert :: "'a node \<Rightarrow> bool" where
  "inert (Text t) = True"
| "inert (El tg ats hs ns) =
     (hs = [] \<and> \<not> disabled ats \<and> tg \<noteq> ''a'' \<and> tg \<noteq> ''button'' \<and> tg \<noteq> ''form'' \<and> tg \<noteq> ''input'' \<and> list_all inert ns)"

named_theorems markup

lemma disabled_simps [simp]:
  "\<not> disabled []" "disabled ((k, v) # ats) \<longleftrightarrow> (if k = ''disabled'' then v = Flag else disabled ats)"
  "disabled (flag ''disabled'' b) \<longleftrightarrow> b"
  by (simp_all add: disabled_def flag_def)

lemma inside_inert:
  "tg \<noteq> ''a'' \<Longrightarrow> tg \<noteq> ''button'' \<Longrightarrow> tg \<noteq> ''form'' \<Longrightarrow> \<not> disabled ats \<Longrightarrow> inside re cx tg ats [] ns = cx"
  by (simp add: inside_def)

lemma inert_presses: "inert n \<Longrightarrow> es \<in> set (presses re cx n) \<Longrightarrow> es = cx_clicks cx @ cx_default cx"
  by (induction n arbitrary: es) (auto simp: Let_def list_all_iff inside_inert)

lemma inert_submitters [simp]: "inert n \<Longrightarrow> submitters re cx n = []"
  by (induction n) (auto simp: Let_def list_all_iff submits_form_def inside_inert)

lemma inert_inputs [simp]: "inert n \<Longrightarrow> inputs n = []"
  by (induction n) (auto simp: list_all_iff)

lemma inert_enters [simp]: "inert n \<Longrightarrow> enters re cx n = []"
  by (induction n) (auto simp: Let_def list_all_iff inside_inert)

lemma inert_changes [simp]: "inert n \<Longrightarrow> changes n = []"
  by (induction n) (auto simp: list_all_iff)

lemma inert_links [simp]: "inert n \<Longrightarrow> links n = []"
  by (induction n) (auto simp: list_all_iff)

lemma inert_lists [simp]:
  assumes "list_all inert ns"
  shows "concat (map (submitters re c) ns) = []" "concat (map inputs ns) = []" "concat (map links ns) = []"
    "concat (map changes ns) = []"
  using assms by (induction ns) simp_all

text \<open>Effects of a list of trees, one tree at a time.\<close>

lemma does_simps [markup]:
  "\<not> does re cx [] x"
  "does re cx (Text t # ns) x \<longleftrightarrow> does re cx ns x"
  "does re cx (El tg ats hs ms # ns) x \<longleftrightarrow>
     (let c = inside re cx tg ats hs ms
      in x \<in> set (cx_clicks c) \<or> x \<in> set (cx_default c) \<or> does re c ms x) \<or> does re cx ns x"
  "does re cx (ns @ ns') x \<longleftrightarrow> does re cx ns x \<or> does re cx ns' x"
  by (auto simp: does_def list_ex_iff Let_def)

lemma does_map [markup]: "does re cx (map f xs) x \<longleftrightarrow> list_ex (\<lambda>y. does re cx [f y] x) xs"
  by (auto simp: does_def list_ex_iff)

lemma does_shown_if [markup]: "does re cx (shown_if b ns) x \<longleftrightarrow> b \<and> does re cx ns x"
  by (simp add: shown_if_def does_simps(1))

lemma does_inert [markup]:
  "list_all inert ns \<Longrightarrow> x \<notin> set (cx_clicks cx) \<Longrightarrow> x \<notin> set (cx_default cx) \<Longrightarrow> \<not> does re cx ns x"
  by (auto simp: does_def list_ex_iff list_all_iff dest!: inert_presses [rotated])

lemma enterable_simps [markup]:
  "\<not> enterable re cx [] x"
  "enterable re cx (Text t # ns) x \<longleftrightarrow> enterable re cx ns x"
  "enterable re cx (El tg ats hs ms # ns) x \<longleftrightarrow>
     (let c = inside re cx tg ats hs ms;
          c' = (if tg = ''form''
                then c\<lparr>cx_enter := implicit_submission (concat (map (submitters re c) ms))
                         (length (concat (map inputs ms))) (cx_submit c)\<rparr>
                else c)
      in (tg = ''input'' \<and> \<not> disabled ats \<and> x \<in> set (cx_enter c')) \<or> enterable re c' ms x) \<or> enterable re cx ns x"
  "enterable re cx (ns @ ns') x \<longleftrightarrow> enterable re cx ns x \<or> enterable re cx ns' x"
  by (auto simp: enterable_def list_ex_iff Let_def)

lemma enterable_shown_if [markup]: "enterable re cx (shown_if b ns) x \<longleftrightarrow> b \<and> enterable re cx ns x"
  by (simp add: shown_if_def enterable_simps(1))

lemma enterable_inert [markup]: "list_all inert ns \<Longrightarrow> \<not> enterable re cx ns x"
  by (auto simp: enterable_def list_ex_iff list_all_iff)

lemmas page_simps = offers_def entered_def top_level_def inside_def form_submit_def submits_form_def
  flag_def field_valid_def field_value_def implicit_submission_def

text \<open>A link is followed where it is pressed.\<close>

lemma presses_links:
  "h \<in> set (links n) \<Longrightarrow> \<exists>es \<in> set (presses re cx n). Goto h \<in> set es"
proof (induction n arbitrary: cx)
  case (El tg ats hs ns)
  show ?case
  proof (cases "\<exists>m \<in> set ns. h \<in> set (links m)")
    case True
    then obtain m where m: "m \<in> set ns" "h \<in> set (links m)" by blast
    from El.IH [OF m, of "inside re cx tg ats hs ns"] show ?thesis using m(1) by (simp add: Let_def) blast
  next
    case False
    have "h \<in> set (if tg = ''a'' then (case map_of ats ''href'' of Some (AStr h) \<Rightarrow> [h] | _ \<Rightarrow> []) else [])"
      using El.prems False unfolding links.simps set_append set_concat set_map by blast
    then have "tg = ''a'' \<and> map_of ats ''href'' = Some (AStr h)"
      by (cases "tg = ''a''"; cases "map_of ats ''href''") (auto split: attr_value.splits)
    then show ?thesis by (simp add: Let_def inside_def)
  qed
qed simp

end
