(* ===== verification/Views.thy ===== *)
theory Views
  imports Markup
begin

text \<open>
  What the payment pages of the console show: the tags, tables, rail and timeline of
  \<open>apps/web/src/components\<close>, the drawer \<open>SubmitPaymentForm.tsx\<close>, the dashboard \<open>app/page.tsx\<close> and the
  payment page. Shown: what each view lets the user do in each state, which payments it
  links to, and that the drawer's form never checks its fields.
\<close>

subsection \<open>Values on a page\<close>

text \<open>The browser's locale: the hour of midnight, the zone and the formats of other currencies.\<close>

record locale_data =
  lo_midnight :: string
  lo_zone :: "int \<Rightarrow> int"
  lo_intl :: "string \<Rightarrow> rat \<Rightarrow> string"

definition time_on :: "locale_data \<Rightarrow> string \<Rightarrow> string" where
  "time_on L = formatTime (lo_midnight L) (lo_zone L)"

definition money_on :: "locale_data \<Rightarrow> int \<Rightarrow> string \<Rightarrow> string" where
  "money_on L = formatMoney (lo_intl L)"

text \<open>\<open>{error && <div>...}\<close>: an empty message shows nothing.\<close>

definition error_box :: "string option \<Rightarrow> 'a node list" where
  "error_box e = (case e of None \<Rightarrow> [] | Some m \<Rightarrow> if m = [] then [] else [el ''div'' [say m]])"

definition dash :: "string option \<Rightarrow> piece list" where
  "dash v = (case v of None \<Rightarrow> [EmDash] | Some s \<Rightarrow> [Lit s])"

subsection \<open>Tags\<close>

definition StatusTag :: "payment_status \<Rightarrow> 'a node" where
  "StatusTag st = el ''span'' [el ''span'' [], say (status_str st)]"

fun delivery_status_str :: "webhook_status \<Rightarrow> string" where
  "delivery_status_str Pending = ''pending''"
| "delivery_status_str Delivered = ''delivered''"
| "delivery_status_str Failed = ''failed''"
| "delivery_status_str Dead = ''dead''"

definition DeliveryStatusTag :: "webhook_status \<Rightarrow> 'a node" where
  "DeliveryStatusTag st = el ''span'' [el ''span'' [], say (delivery_status_str st)]"

subsection \<open>The pipeline rail\<close>

definition STATES :: "(payment_status \<times> string) list" where
  "STATES = [(PENDING, ''Pending''), (PROCESSING, ''Processing''), (RETRYING, ''Retrying''),
     (COMPLETED, ''Completed''), (FAILED, ''Failed'')]"

text \<open>The width of a bar in percent: a division and a multiplication of doubles.\<close>

definition bar_width :: "nat \<Rightarrow> nat \<Rightarrow> rat" where
  "bar_width n n_all = f64 (f64 (of_nat n / of_nat n_all) * 100)"

definition PipelineRail :: "payment list \<Rightarrow> 'a node" where
  "PipelineRail ps =
     (let counts = tally ps; n_all = length ps
      in El ''section'' [(''aria-label'', AStr ''Payment lifecycle overview'')] []
        [el ''div'' (map (\<lambda>(st, label).
            el ''div'' [el ''div'' [el ''span'' [say label], el ''span'' []], el ''div'' [say (nat_str (counts st))]]) STATES),
         El ''div'' [(''role'', AStr ''img''),
             (''aria-label'', AStr (''Distribution of '' @ nat_str n_all @ '' payments across lifecycle states''))] []
           (shown_if (0 < n_all) (map (\<lambda>(st, label). El ''div'' [(''width'', APercent (bar_width (counts st) n_all))] [] [])
              (filter (\<lambda>(st, label). 0 < counts st) STATES)))])"

subsection \<open>The payments table\<close>

definition Link :: "string \<Rightarrow> 'a node list \<Rightarrow> 'a node" where
  "Link h ns = El ''a'' [(''href'', AStr h)] [] ns"

definition table_row :: "locale_data \<Rightarrow> payment \<Rightarrow> 'a node" where
  "table_row L p =
     el ''tr''
       [El ''td'' [(''title'', AStr (p_id p))] []
          [Link (''/payments/'' @ p_id p)
             [el ''span'' [say (fst (short_id (p_id p)))], el ''span'' [Text [Ellipsis, Lit (snd (short_id (p_id p)))]]]],
        el ''td'' [say (customerId p)],
        el ''td'' [say (money_on L (amountCents p) (currency p))],
        el ''td'' [StatusTag (status p)],
        el ''td'' [say (time_on L (toISOString (p_updatedAt p)))]]"

definition PaymentsTable :: "locale_data \<Rightarrow> payment list \<Rightarrow> 'a node" where
  "PaymentsTable L ps =
     (if ps = [] then el ''div'' [say ''No payments yet. Submit one to see it move through the pipeline.'']
      else el ''div'' [el ''table''
        [el ''thead'' [el ''tr'' (map (\<lambda>h. el ''th'' [say h]) [''Payment'', ''Customer'', ''Amount'', ''Status'', ''Updated''])],
         el ''tbody'' (map (table_row L) ps)]])"

subsection \<open>The audit timeline\<close>

text \<open>\<open>Object.entries\<close> of a parsed value; keys that are numbers do not occur in the metadata.\<close>

fun object_entries :: "json \<Rightarrow> (string \<times> json) list" where
  "object_entries (JObj kvs) = kvs"
| "object_entries (JArr js) = zip (map nat_str [0..<length js]) js"
| "object_entries (JStr s) = zip (map nat_str [0..<length s]) (map (\<lambda>c. JStr [c]) s)"
| "object_entries _ = []"

definition event_item :: "locale_data \<Rightarrow> event_view option \<Rightarrow> event_view \<Rightarrow> 'a node" where
  "event_item L prev e =
     el ''li''
       ([el ''span'' [],
         el ''div''
           [el ''div''
              [case ev_fromStatus e of Some st \<Rightarrow> StatusTag st | None \<Rightarrow> el ''span'' [say ''start''],
               el ''span'' [Text [RightArrow]],
               StatusTag (ev_toStatus e)],
            el ''time''
              (say (time_on L (toISOString (ev_occurredAt e)))
               # (case prev of
                    None \<Rightarrow> []
                  | Some q \<Rightarrow> [el ''span'' [Text [Lit '' '', MiddleDot, Lit '' ''],
                                  say (sincePrev (ev_occurredAt e) (ev_occurredAt q))]]))]]
        @ (let kvs = (case ev_metadata e of None \<Rightarrow> [] | Some j \<Rightarrow> object_entries j)
           in shown_if (kvs \<noteq> []) [el ''div'' (map (\<lambda>(k, v). el ''span'' [Text [Lit k, Lit '' ''], el ''span'' [say (js_String v)]]) kvs)]))"

fun event_items :: "locale_data \<Rightarrow> event_view option \<Rightarrow> event_view list \<Rightarrow> 'a node list" where
  "event_items L prev [] = []"
| "event_items L prev (e # es) = event_item L prev e # event_items L (Some e) es"

definition AuditTimeline :: "locale_data \<Rightarrow> event_view list \<Rightarrow> 'a node" where
  "AuditTimeline L es =
     (if es = [] then el ''div'' [Text [Lit ''No transitions yet '', EmDash, Lit '' the payment is queued and still PENDING.'']]
      else el ''ol'' (event_items L None es))"

subsection \<open>The drawer\<close>

datatype form_action = CloseForm | SubmitForm | FieldTyped form_field string | KeyTyped string | NewKey

definition Field :: "string \<Rightarrow> (string \<times> attr_value) list \<Rightarrow> 'a handler list \<Rightarrow> 'a node" where
  "Field label ats hs = el ''label'' [el ''span'' [say label], El ''input'' ats hs []]"

text \<open>The pattern of the amount, \<open>\d+(\.\d{1,2})?\<close>.\<close>

definition amount_pattern :: string where
  "amount_pattern = CHR 0x5C # ''d+('' @ CHR 0x5C # ''.'' @ CHR 0x5C # ''d{1,2})?''"

definition form_fields :: "payment_input \<Rightarrow> form_action node list" where
  "form_fields f =
     [Field ''Customer ID''
        [(''value'', AStr (in_customerId f)), (''autofocus'', Flag), (''required'', Flag)] [OnChange (FieldTyped CustomerId)],
      el ''div''
        [Field ''Source account'' [(''value'', AStr (in_sourceAccount f)), (''required'', Flag)] [OnChange (FieldTyped SourceAccount)],
         Field ''Destination account''
           [(''value'', AStr (in_destinationAccount f)), (''required'', Flag)] [OnChange (FieldTyped DestinationAccount)]],
      el ''div''
        [Field ''Amount''
           [(''value'', AStr (in_amount f)), (''inputmode'', AStr ''decimal''), (''pattern'', AStr amount_pattern),
            (''placeholder'', AStr ''250.00''), (''required'', Flag)] [OnChange (FieldTyped AmountField)],
         Field ''Reference''
           [(''value'', AStr (case in_reference f of None \<Rightarrow> [] | Some r \<Rightarrow> r)), (''placeholder'', AStr ''PMT-1001'')]
           [OnChange (FieldTyped ReferenceField)]]]"

definition key_field :: "string \<Rightarrow> form_action node" where
  "key_field key =
     el ''label''
       [el ''span'' [say ''Idempotency key''],
        el ''div''
          [El ''input'' [(''value'', AStr key)] [OnChange KeyTyped] [],
           El ''button'' [(''type'', AStr ''button''), (''title'', AStr ''Generate a new key'')] [OnClick NewKey] [say ''New'']],
        el ''p'' [Text [Lit ''Reuse the same key to test duplicate prevention '', EmDash,
           Lit '' the original payment is returned instead of creating a second.'']]]"

text \<open>How React prints the id and the status of an answer is the argument \<open>child\<close>.\<close>

fun accepted_box :: "(json option \<Rightarrow> string) \<Rightarrow> piece list \<Rightarrow> json option \<Rightarrow> json option \<Rightarrow> string option \<Rightarrow> 'a node" where
  "accepted_box child title i st corr =
     el ''div''
       ([el ''div'' [Text title], el ''div'' [Text [Lit (child st), Lit '' '', MiddleDot, Lit '' '', Lit (child i)]]]
        @ (case corr of None \<Rightarrow> [] | Some c \<Rightarrow> if c = [] then [] else [el ''div'' [say (''trace '' @ c)]]))"

fun result_box :: "(json option \<Rightarrow> string) \<Rightarrow> form_result option \<Rightarrow> 'a node list" where
  "result_box child None = []"
| "result_box child (Some (ResError m)) = [el ''div'' [el ''span'' [say m]]]"
| "result_box child (Some (ResReplay i st corr)) =
     [el ''div'' [accepted_box child [Lit ''Duplicate ignored '', EmDash, Lit '' original returned''] i st corr]]"
| "result_box child (Some (ResNew i st corr)) =
     [el ''div'' [accepted_box child [Lit ''Accepted for processing''] i st corr]]"

definition SubmitPaymentForm :: "(json option \<Rightarrow> string) \<Rightarrow> form_state \<Rightarrow> form_action node" where
  "SubmitPaymentForm child s =
     el ''div''
       [El ''div'' [(''aria-hidden'', Flag)] [OnClick CloseForm] [],
        El ''aside'' [(''role'', AStr ''dialog''), (''aria-modal'', AStr ''true''), (''aria-label'', AStr ''Submit payment'')] []
          [el ''header''
             [el ''div'' [el ''h2'' [say ''New payment''], el ''p'' [say ''POST /v1/payments'']],
              El ''button'' [(''aria-label'', AStr ''Close'')] [OnClick CloseForm] [el ''svg'' [el ''path'' []]]],
           El ''form'' [] [OnSubmit SubmitForm] (form_fields (fs_form s) @ [key_field (fs_key s)] @ result_box child (fs_result s)),
           el ''footer''
             [El ''button'' (flag ''disabled'' (fs_submitting s)) [OnClick SubmitForm]
                [Text (if fs_submitting s then [Lit ''Submitting'', Ellipsis] else [Lit ''Submit payment''])]]]]"

text \<open>What the actions do to the form; \<open>None\<close> is the closed drawer. Escape closes it too.\<close>

fun form_act :: "'w fetch \<Rightarrow> string \<Rightarrow> string option \<times> 8 word list \<Rightarrow> form_action \<Rightarrow> form_state \<Rightarrow> 'w \<Rightarrow> form_state option \<times> 'w" where
  "form_act fetch base rnd CloseForm s w = (None, w)"
| "form_act fetch base rnd SubmitForm s w = (case handleSubmit fetch base s w of (s', w') \<Rightarrow> (Some s', w'))"
| "form_act fetch base rnd (FieldTyped k v) s w = (Some (change_field k v s), w)"
| "form_act fetch base rnd (KeyTyped v) s w = (Some (change_key v s), w)"
| "form_act fetch base rnd NewKey s w = (Some (fresh_key (fst rnd) (snd rnd) s), w)"

definition form_keydown :: "string \<Rightarrow> form_state \<Rightarrow> form_state option" where
  "form_keydown key s = (if key = ''Escape'' then None else Some s)"

lemma result_box_inert [simp]: "list_all inert (result_box child r)"
  by (cases r; cases "the r") (auto split: option.splits)

lemmas drawer_simps = SubmitPaymentForm_def form_fields_def Field_def key_field_def page_simps

lemma drawer_submit_button: "offers re (SubmitPaymentForm child s) SubmitForm \<longleftrightarrow> \<not> fs_submitting s"
  by (simp add: drawer_simps markup)

lemma drawer_enter: "\<not> entered re (SubmitPaymentForm child s) a"
  by (simp add: drawer_simps markup)

text \<open>Submitted by itself the form would refuse an empty required field; the button never asks it.\<close>

lemma drawer_form_refuses:
  assumes "in_customerId f = [] \<or> in_sourceAccount f = [] \<or> in_destinationAccount f = [] \<or> in_amount f = []"
  shows "form_submit re [OnSubmit SubmitForm] (form_fields f @ ns) = []"
  using assms by (auto simp: form_submit_def form_fields_def Field_def field_valid_def field_value_def)

subsection \<open>The dashboard\<close>

datatype dashboard_action = RefreshPayments | OpenDrawer | InDrawer form_action

text \<open>\<open>drawerOpen\<close> with the state of the drawer that is mounted while it holds.\<close>

definition DashboardPage :: "locale_data \<Rightarrow> (json option \<Rightarrow> string) \<Rightarrow> payment dashboard \<Rightarrow> form_state option
  \<Rightarrow> dashboard_action node" where
  "DashboardPage L child s drawer =
     el ''main''
       ([el ''header''
          [el ''div'' [el ''h1'' [say ''Payments''], el ''p'' [say ''Live view of the payment lifecycle across the pipeline.'']],
           el ''div''
             [el ''span''
                [el ''span'' [],
                 Text (case db_lastSync s of
                         None \<Rightarrow> [Lit ''connecting'', Ellipsis]
                       | Some t \<Rightarrow> [Lit ''live '', MiddleDot, Lit '' updated '', Lit (time_on L t)])],
              El ''button'' (flag ''disabled'' (db_loading s)) [OnClick RefreshPayments] [say ''Refresh''],
              El ''button'' [] [OnClick OpenDrawer] [say ''New payment'']]]]
        @ error_box (db_error s)
        @ [el ''div'' [PipelineRail (db_payments s)],
           el ''div''
             [if db_loading s \<and> db_payments s = [] then el ''div'' [Text [Lit ''Loading'', Ellipsis]]
              else PaymentsTable L (db_payments s)]]
        @ (case drawer of None \<Rightarrow> [] | Some f \<Rightarrow> [map_node InDrawer (SubmitPaymentForm child f)]))"

text \<open>\<open>setDrawerOpen(true)\<close> mounts the form with its first key, or leaves the mounted one.\<close>

definition open_drawer :: "string \<Rightarrow> form_state option \<Rightarrow> form_state option" where
  "open_drawer key drawer = (case drawer of None \<Rightarrow> Some (new_form key) | Some f \<Rightarrow> Some f)"

text \<open>
  What an action does to the drawer, and whether the page refreshes: \<open>onSubmitted\<close> is called
  after a submission that was answered, not after one that failed.
\<close>

fun answered :: "form_state option \<Rightarrow> bool" where
  "answered None = False"
| "answered (Some f) = (case fs_result f of None \<Rightarrow> False | Some (ResError m) \<Rightarrow> False | Some _ \<Rightarrow> True)"

fun dashboard_act :: "'w fetch \<Rightarrow> string \<Rightarrow> string option \<times> 8 word list \<Rightarrow> string \<Rightarrow> dashboard_action
  \<Rightarrow> form_state option \<times> 'w \<Rightarrow> (form_state option \<times> 'w) \<times> bool" where
  "dashboard_act fetch base rnd key RefreshPayments (drawer, w) = ((drawer, w), True)"
| "dashboard_act fetch base rnd key OpenDrawer (drawer, w) = ((open_drawer key drawer, w), False)"
| "dashboard_act fetch base rnd key (InDrawer a) (None, w) = ((None, w), False)"
| "dashboard_act fetch base rnd key (InDrawer a) (Some f, w) =
     (case form_act fetch base rnd a f w of
        (drawer, w') \<Rightarrow> ((drawer, w'), a = SubmitForm \<and> answered drawer))"

text \<open>A submission the client could not carry out leaves the drawer open with the message and refreshes nothing.\<close>

lemma failed_submission_stays:
  assumes "submitPayment fetch base (form_input (fs_form f)) (fs_key f) w = (Inl e, w')"
  shows "dashboard_act fetch base rnd key (InDrawer SubmitForm) (Some f, w)
    = ((Some (f\<lparr>fs_result := Some (ResError (message_or ''Submission failed'' e)), fs_submitting := False\<rparr>), w'), False)"
  using assms by (simp add: handleSubmit_def submit_end_error)

definition new_dashboard :: "payment dashboard" where
  "new_dashboard = \<lparr>db_payments = [], db_error = None, db_loading = True, db_lastSync = None\<rparr>"

lemma links_map_node [simp]: "links (map_node g n) = links n"
  by (induction n) (auto intro!: arg_cong [where f = concat])

lemma tags_inert [simp]: "inert (StatusTag st)" "inert (DeliveryStatusTag ds)"
  by (simp_all add: StatusTag_def DeliveryStatusTag_def)

lemma error_box_inert [simp]: "list_all inert (error_box e)"
  by (simp add: error_box_def split: option.splits)

lemma PipelineRail_inert [simp]: "inert (PipelineRail ps)"
  by (auto simp: PipelineRail_def STATES_def shown_if_def Let_def list_all_iff)

lemma event_items_inert [simp]: "list_all inert (event_items L prev es)"
  by (induction L prev es rule: event_items.induct)
    (auto simp: event_item_def shown_if_def Let_def list_all_iff split: option.splits)

lemma AuditTimeline_inert [simp]: "inert (AuditTimeline L es)"
  by (simp add: AuditTimeline_def)

lemma drawer_links [simp]: "links (SubmitPaymentForm child f) = []"
  by (simp add: SubmitPaymentForm_def form_fields_def Field_def key_field_def)

lemma rows_links: "concat (map (links \<circ> table_row L) ps) = map (\<lambda>p. ''/payments/'' @ p_id p) ps"
  by (induction ps) (simp_all add: table_row_def Link_def)

lemma table_links: "links (PaymentsTable L ps) = map (\<lambda>p. ''/payments/'' @ p_id p) ps"
  by (simp add: PaymentsTable_def rows_links)

text \<open>The dashboard links to the payments it holds, in their order, and to nothing else.\<close>

lemma dashboard_links: "links (DashboardPage L child s drawer) = map (\<lambda>p. ''/payments/'' @ p_id p) (db_payments s)"
  by (cases drawer) (simp_all add: DashboardPage_def table_links)

text \<open>The first page of the payment list, and the texts of the rail.\<close>

lemma first_page:
  assumes "controller_list \<lparr>lq_status = None, lq_cursor = None, lq_limit = n\<rparr> d = (ps, cur)"
  shows "ps = take n (order_by_desc p_id (payments d))"
proof -
  have "list_payments \<lparr>lq_status = None, lq_cursor = None, lq_limit = n\<rparr> d = take (n + 1) (order_by_desc p_id (payments d))"
    by (simp add: list_payments_def limit_def select_where_def)
  then show ?thesis using assms by (auto simp: controller_list_def page_of_def min_def split: if_splits)
qed

lemma no_texts: "(\<And>x. texts (f x) = []) \<Longrightarrow> concat (map texts (shown_if b (map f xs))) = []"
  by (auto simp: shown_if_def)

lemma rail_texts:
  "texts (PipelineRail ps) = concat (map (\<lambda>(st, label). [[Lit label], [Lit (nat_str (count_where (\<lambda>p. status p = st) ps))]]) STATES)"
  unfolding PipelineRail_def Let_def tally_count
  by (simp add: no_texts case_prod_beta' comp_def)

subsection \<open>The payment page\<close>

definition Detail :: "string \<Rightarrow> piece list \<Rightarrow> 'a node" where
  "Detail label v = el ''div'' [el ''dt'' [say label], el ''dd'' [Text v]]"

definition payment_details :: "locale_data \<Rightarrow> payment \<Rightarrow> string option \<Rightarrow> 'a node list" where
  "payment_details L p corr =
     [Detail ''Customer'' [Lit (customerId p)], Detail ''Source'' [Lit (sourceAccount p)],
      Detail ''Destination'' [Lit (destinationAccount p)], Detail ''Reference'' (dash (reference p)),
      Detail ''Version'' [Lit (nat_str (version p))], Detail ''Updated'' [Lit (time_on L (toISOString (p_updatedAt p)))],
      Detail ''Correlation'' (dash corr)]"

definition PaymentDetailPage :: "locale_data \<Rightarrow> (payment, event_view) payment_page \<Rightarrow> 'a node" where
  "PaymentDetailPage L s =
     el ''main''
       ([Link ''/'' [El ''span'' [(''aria-hidden'', Flag)] [] [Text [LeftArrow]], say '' Payments'']]
        @ shown_if (shows_loading s) [el ''div'' [Text [Lit ''Loading'', Ellipsis]]]
        @ (if shows_error s then error_box (pp_error s) else [])
        @ (case pp_payment s of
             None \<Rightarrow> []
           | Some p \<Rightarrow>
               [el ''header''
                  [el ''div'' [el ''h1'' [say (p_id p)], StatusTag (status p)],
                   el ''span'' [say (money_on L (amountCents p) (currency p))]],
                el ''dl'' (payment_details L p (page_correlation (pp_events s))),
                el ''section'' [el ''h2'' [say ''Audit timeline''], AuditTimeline L (pp_events s)]]))"

text \<open>Once a payment is shown, a failed poll changes nothing on the page.\<close>

lemma payment_page_stale:
  assumes "pp_payment s \<noteq> None"
  shows "PaymentDetailPage L (payment_refresh (Inl e) s) = PaymentDetailPage L s"
  using assms by (cases "pp_payment s") (simp_all add: PaymentDetailPage_def payment_refresh_def shows_loading_def shows_error_def)

lemma payment_page_links: "links (PaymentDetailPage L s) = [''/'']"
  by (auto simp: PaymentDetailPage_def Link_def shown_if_def payment_details_def Detail_def split: option.splits)

end
