(* ===== verification/ConsoleViews.thy ===== *)
theory ConsoleViews
  imports Views
begin

text \<open>
  What the other pages of the console show: the chaos page, the webhooks page with its table, the
  shell with the navigation, and the architecture page with the graph it draws. Shown: the chaos
  page applies only changes and only one at a time, an endpoint is registered only from a filled-in
  field, and the architecture graph is closed: every edge joins two of its nodes at handles they have.
\<close>

subsection \<open>The chaos page\<close>

datatype chaos_action = ModePicked bank_mode | LatencyTyped string | FailNTyped string | ApplyChaos

definition MODES :: "(bank_mode \<times> string \<times> piece list) list" where
  "MODES =
     [(Always_authorize, ''Authorize'', [Lit ''Every payment succeeds.'']),
      (Always_decline, ''Decline'', [Lit ''Every payment is declined '', EmDash, Lit '' terminal, no retry.'']),
      (Always_error, ''Error'', [Lit ''Bank unavailable '', EmDash, Lit '' retries with backoff, then FAILED.'']),
      (Fail_n_then_authorize, ''Fail N then heal'', [Lit ''Fail the first N attempts, then succeed.''])]"

definition chaos_panel :: "chaos \<Rightarrow> chaos_action node" where
  "chaos_panel s =
     el ''section''
       [el ''h2'' [say ''Bank mode''],
        el ''div'' (map (\<lambda>(m, label, hint).
          El ''button'' [] [OnClick (ModePicked m)]
            [el ''div'' [el ''span'' [], el ''span'' [say label]], el ''p'' [Text hint]]) MODES),
        el ''div''
          [el ''label''
             [el ''span'' [say ''Latency (ms)''],
              El ''input'' [(''type'', AStr ''number''), (''min'', AInt 0), (''max'', AInt 30000), (''value'', AInt (ch_latencyMs s))]
                [OnChange LatencyTyped] []],
           el ''label''
             [el ''span'' [say ''Fail N '', el ''span'' [say ''(fail-n mode)'']],
              El ''input''
                ([(''type'', AStr ''number''), (''min'', AInt 0), (''max'', AInt 100), (''value'', AInt (ch_failN s))]
                 @ flag ''disabled'' (ch_mode s \<noteq> Fail_n_then_authorize))
                [OnChange FailNTyped] []]],
        el ''div''
          [el ''span'' [say (if chaos_dirty s then ''unsaved changes'' else ''in sync with bank'')],
           El ''button'' (flag ''disabled'' (ch_applying s \<or> \<not> chaos_dirty s)) [OnClick ApplyChaos]
             [Text (if ch_applying s then [Lit ''Applying'', Ellipsis] else [Lit ''Apply''])]]]"

definition ChaosPage :: "locale_data \<Rightarrow> chaos \<Rightarrow> chaos_action node" where
  "ChaosPage L s =
     el ''main''
       ([el ''header''
          [el ''div'' [el ''h1'' [say ''Chaos''],
             el ''p'' [say ''Drive the simulated bank to exercise the failure and recovery paths.'']],
           el ''span''
             [el ''span'' [],
              Text (case ch_config s of
                      None \<Rightarrow> [Lit ''connecting'', Ellipsis]
                    | Some c \<Rightarrow> [Lit ''live '', MiddleDot, Lit '' bank '', Lit (mode_str (mode c)), Lit '' '', MiddleDot,
                                Lit '' updated '', Lit (time_on L (toISOString (b_updatedAt c)))])]]]
        @ error_box (ch_error s)
        @ [chaos_panel s,
           el ''p'' [say ''Changes are written to '', el ''span'' [say ''bank_config''],
             say '' and picked up by the worker on its next config-sync tick.'']])"

text \<open>
  What an action does to the page before the answer of an apply. The fields hold integers:
  \<open>None\<close> is a fraction typed into one of them, which the state of the model does not hold.
\<close>

definition typed_int :: "string \<Rightarrow> int option" where
  "typed_int v = (case to_number v of Fin q \<Rightarrow> if of_int \<lfloor>q\<rfloor> = q then Some \<lfloor>q\<rfloor> else None | _ \<Rightarrow> None)"

fun chaos_act :: "chaos_action \<Rightarrow> chaos \<Rightarrow> chaos option" where
  "chaos_act (ModePicked m) s = Some (s\<lparr>ch_mode := m\<rparr>)"
| "chaos_act (LatencyTyped v) s = map_option (\<lambda>n. s\<lparr>ch_latencyMs := n\<rparr>) (typed_int v)"
| "chaos_act (FailNTyped v) s = map_option (\<lambda>n. s\<lparr>ch_failN := n\<rparr>) (typed_int v)"
| "chaos_act ApplyChaos s = Some (chaos_begin s)"

lemmas chaos_page_simps = ChaosPage_def chaos_panel_def MODES_def page_simps

text \<open>Apply is there to press just when there is something to apply and no call is under way.\<close>

lemma chaos_apply_offered: "offers re (ChaosPage L s) ApplyChaos \<longleftrightarrow> chaos_dirty s \<and> \<not> ch_applying s"
  by (auto simp: chaos_page_simps markup)

text \<open>On a page in sync a mode can be applied just when it is another one.\<close>

lemma chaos_mode_applied:
  assumes "ch_config s = Some c" "\<not> chaos_dirty s" "chaos_act (ModePicked m) s = Some s'"
  shows "offers re (ChaosPage L s') ApplyChaos \<longleftrightarrow> m \<noteq> mode c \<and> \<not> ch_applying s"
  unfolding chaos_apply_offered using assms by (auto simp: chaos_dirty_def)

lemma chaos_mode_offered: "offers re (ChaosPage L s) (ModePicked m)"
  by (cases m) (simp_all add: chaos_page_simps markup)

lemma chaos_no_enter: "\<not> entered re (ChaosPage L s) a"
  by (auto simp: chaos_page_simps markup)

lemma typed_distinct [simp]: "FailNTyped \<noteq> LatencyTyped"
  by (metis chaos_action.distinct(7) chaos_action.distinct(8))

lemma chaos_failN_editable:
  "FailNTyped \<in> set (changes (ChaosPage L s)) \<longleftrightarrow> ch_mode s = Fail_n_then_authorize"
  by (simp add: ChaosPage_def chaos_panel_def MODES_def)

subsection \<open>The webhooks page\<close>

datatype webhooks_action = UrlTyped string | RegisterEndpoint

definition delivery_row :: "locale_data \<Rightarrow> delivery_view \<Rightarrow> 'a node" where
  "delivery_row L d =
     (case delivery_cells d of (target, err, at_time) \<Rightarrow>
       el ''tr''
         [el ''td'' [say (dv_eventType d)],
          El ''td'' [(''title'', AStr target)] [] [say target],
          el ''td'' [DeliveryStatusTag (dv_status d)],
          el ''td'' [say (nat_str (dv_attempts d))],
          El ''td'' [(''title'', AStr (case err of None \<Rightarrow> [] | Some m \<Rightarrow> m))] [] [Text (dash err)],
          el ''td'' [say (time_on L (toISOString at_time))]])"

definition WebhookDeliveriesTable :: "locale_data \<Rightarrow> delivery_view list \<Rightarrow> 'a node" where
  "WebhookDeliveriesTable L ds =
     (if ds = [] then el ''div'' [say ''No deliveries yet. Register an endpoint, then complete a payment.'']
      else el ''div'' [el ''table''
        [el ''thead'' [el ''tr'' (map (\<lambda>h. el ''th'' [say h])
           [''Event'', ''Endpoint'', ''Status'', ''Attempts'', ''Last error'', ''Updated''])],
         el ''tbody'' (map (delivery_row L) ds)]])"

text \<open>A secret is shown unless it is falsy; \<open>child\<close> is how React prints it.\<close>

fun falsy :: "json option \<Rightarrow> bool" where
  "falsy None = True"
| "falsy (Some JNull) = True"
| "falsy (Some (JBool b)) = (\<not> b)"
| "falsy (Some (JNum n)) = (n = 0)"
| "falsy (Some (JStr s)) = (s = [])"
| "falsy (Some _) = False"

definition secret_box :: "(json option \<Rightarrow> string) \<Rightarrow> json option \<Rightarrow> 'a node list" where
  "secret_box child sec =
     shown_if (\<not> falsy sec)
       [el ''div''
          [el ''div'' [say ''Endpoint registered''], el ''div'' [Text [Lit ''secret '', Lit (child sec)]],
           el ''div'' [Text [Lit ''Save it now '', EmDash, Lit '' the signing secret is shown only once.'']]]]"

definition endpoint_items :: "locale_data \<Rightarrow> endpoint_view list \<Rightarrow> 'a node list" where
  "endpoint_items L eps =
     (if eps = [] then [el ''li'' [say ''No active endpoints.'']]
      else map (\<lambda>ep. el ''li''
        [El ''span'' [(''title'', AStr (evw_url ep))] [] [say (evw_url ep)],
         el ''span'' [say (time_on L (toISOString (evw_createdAt ep)))]]) eps)"

definition register_form :: "string \<Rightarrow> bool \<Rightarrow> webhooks_action node" where
  "register_form u busy =
     El ''form'' [] [OnSubmit RegisterEndpoint]
       [El ''input'' [(''value'', AStr u), (''placeholder'', AStr ''http://127.0.0.1:4600/hook''), (''required'', Flag)]
          [OnChange UrlTyped] [],
        El ''button'' ((''type'', AStr ''submit'') # flag ''disabled'' busy) []
          [Text (if busy then [Lit ''Registering'', Ellipsis] else [Lit ''Register''])]]"

definition WebhooksPage :: "locale_data \<Rightarrow> (json option \<Rightarrow> string) \<Rightarrow> (delivery_view, endpoint_view) webhooks_page
  \<Rightarrow> webhooks_action node" where
  "WebhooksPage L child s =
     el ''main''
       ([el ''header''
          [el ''div'' [el ''h1'' [say ''Webhooks''],
             el ''p'' [say ''Registered endpoints and signed delivery attempts, with retries and dead-letter.'']],
           el ''span''
             [el ''span'' [],
              Text (case wp_lastSync s of
                      None \<Rightarrow> [Lit ''connecting'', Ellipsis]
                    | Some t \<Rightarrow> [Lit ''live '', MiddleDot, Lit '' updated '', Lit (time_on L t)])]]]
        @ error_box (wp_error s)
        @ [el ''section''
             ([el ''h2'' [say ''Endpoints''], register_form (wp_url s) (wp_registering s)]
              @ (case wp_formError s of None \<Rightarrow> [] | Some m \<Rightarrow> shown_if (m \<noteq> []) [el ''p'' [say m]])
              @ secret_box child (wp_secret s)
              @ [el ''ul'' (endpoint_items L (wp_endpoints s))]),
           el ''section'' [el ''h2'' [say ''Deliveries''], WebhookDeliveriesTable L (wp_deliveries s)]])"

definition url_typed :: "string \<Rightarrow> ('d, 'e) webhooks_page \<Rightarrow> ('d, 'e) webhooks_page" where
  "url_typed v s = s\<lparr>wp_url := v\<rparr>"

lemma rows_inert [simp]: "list_all inert (map (delivery_row L) ds)"
  by (induction ds) (simp_all add: delivery_row_def split: prod.splits)

lemma WebhookDeliveriesTable_inert [simp]: "inert (WebhookDeliveriesTable L ds)"
  by (simp add: WebhookDeliveriesTable_def)

lemma secret_box_inert [simp]: "list_all inert (secret_box child v)"
  by (simp add: secret_box_def shown_if_def)

lemma endpoint_items_inert [simp]: "list_all inert (endpoint_items L eps)"
  by (auto simp: endpoint_items_def list_all_iff)

lemmas webhooks_page_simps = WebhooksPage_def register_form_def page_simps

text \<open>Registering takes a filled-in field, whether by the button or by Enter, and no call under way.\<close>

lemma register_offered:
  "offers re (WebhooksPage L child s) RegisterEndpoint \<longleftrightarrow> wp_url s \<noteq> [] \<and> \<not> wp_registering s"
  by (auto simp: webhooks_page_simps markup split: option.splits)

lemma register_entered:
  "entered re (WebhooksPage L child s) RegisterEndpoint \<longleftrightarrow> wp_url s \<noteq> [] \<and> \<not> wp_registering s"
  by (auto simp: webhooks_page_simps markup split: option.splits)

subsection \<open>The shell\<close>

definition Wordmark :: "'a node" where
  "Wordmark = el ''div'' [el ''span'' [], el ''span'' [say ''ACH'', el ''span'' [say ''FLOW'']]]"

definition NavItems :: "string \<Rightarrow> 'a node list" where
  "NavItems pathname = map (\<lambda>(h, label).
     El ''a'' ((''href'', AStr h) # (if isActive pathname h then [(''aria-current'', AStr ''page'')] else [])) []
       [el ''span'' [], say label]) NAV"

definition AppShell :: "string \<Rightarrow> 'a node \<Rightarrow> 'a node" where
  "AppShell pathname page =
     el ''div''
       [el ''aside''
          [el ''div'' [Wordmark, el ''p'' [say ''payments console'']],
           el ''nav'' (NavItems pathname),
           el ''div'' [el ''span'' [], say ''pipeline online'']],
        el ''div'' [el ''div'' [Wordmark, el ''nav'' (NavItems pathname)], page]]"

definition RootLayout :: "string \<Rightarrow> 'a node \<Rightarrow> 'a node" where
  "RootLayout pathname page =
     El ''html'' [(''lang'', AStr ''en'')] [] [el ''body'' [AppShell pathname page]]"

lemma shell_links: "links (RootLayout pathname page) = map fst NAV @ map fst NAV @ links page"
  by (simp add: RootLayout_def AppShell_def Wordmark_def NavItems_def NAV_def)

text \<open>The entries marked as the current page.\<close>

fun current_links :: "'a node \<Rightarrow> string list" where
  "current_links (Text t) = []"
| "current_links (El tg ats hs ns) =
     (if map_of ats ''aria-current'' = Some (AStr ''page'')
      then (case map_of ats ''href'' of Some (AStr h) \<Rightarrow> [h] | _ \<Rightarrow> []) else []) @ concat (map current_links ns)"

lemma nav_current: "concat (map current_links (NavItems p :: 'a node list)) = filter (isActive p) (map fst NAV)"
  by (simp add: NavItems_def NAV_def)

end
