(* ===== verification/Architecture.thy ===== *)
theory Architecture
  imports ConsoleViews
begin

text \<open>
  The architecture page of the console: the graph of \<open>lib/architecture.ts\<close>, the handles that
  \<open>components/ArchNodeCard.tsx\<close> gives every node, and the page with its selection,
  \<open>app/architecture/page.tsx\<close>. The drawing library is an argument: it calls the page back when
  a node or the pane is clicked. Shown: the graph is closed, and the panel shows the node clicked.
\<close>

subsection \<open>The graph\<close>

datatype arch_kind = ProcessKind | StoreKind | ExternalKind

record arch_data =
  ad_label :: string
  ad_kind :: arch_kind
  ad_responsibilities :: "piece list list"
  ad_failureModes :: "piece list list"
  ad_adrs :: "piece list list"

record arch_node =
  an_id :: string
  an_position :: "int \<times> int"
  an_data :: arch_data

definition arch_client :: arch_node where
  "arch_client = \<lparr>an_id = ''client'', an_position = (0, 300), an_data = \<lparr>ad_label = ''Client'', ad_kind = ExternalKind,
     ad_responsibilities = [[Lit ''Submits ACH payments to the API.''],
       [Lit ''Polls payment status and reads the audit trail.'']],
     ad_failureModes = [[Lit ''May resend the same request '', EmDash,
      Lit '' an Idempotency-Key makes duplicates safe (one payment, replayed response).'']],
     ad_adrs = [[Lit ''ADR-002 '', MiddleDot, Lit '' Idempotency'']]\<rparr>\<rparr>"

definition arch_api :: arch_node where
  "arch_api = \<lparr>an_id = ''api'', an_position = (340, 300), an_data = \<lparr>ad_label = ''API'', ad_kind = ProcessKind,
     ad_responsibilities = [[Lit ''Validates the request and accepts it (202) without processing inline.''],
       [Lit ''In one transaction writes the payment, an outbox row, and the idempotency record.'']],
     ad_failureModes = [[Lit ''Crash after commit '', RightArrow,
      Lit '' the outbox row is durable and is published later; no payment is lost.'']],
     ad_adrs = [[Lit ''ADR-001 '', MiddleDot, Lit '' Sync vs async''],
       [Lit ''ADR-002 '', MiddleDot, Lit '' Idempotency''],
       [Lit ''ADR-003 '', MiddleDot, Lit '' Transactional outbox'']]\<rparr>\<rparr>"

definition arch_postgres :: arch_node where
  "arch_postgres = \<lparr>an_id = ''postgres'', an_position = (340, 540), an_data = \<lparr>ad_label = ''Postgres'', ad_kind = StoreKind,
     ad_responsibilities = [[Lit ''System of record: payments, payment_events (audit), outbox, idempotency_keys, webhook_* and bank_config.''],
       [Lit ''Enforces state transitions via compare-and-swap.'']],
     ad_failureModes = [[Lit ''Unavailable '', RightArrow,
      Lit '' readiness probe returns 503; writes are atomic so partial state cannot persist.'']],
     ad_adrs = [[Lit ''ADR-005 '', MiddleDot, Lit '' Money (integer minor units)''],
       [Lit ''ADR-006 '', MiddleDot, Lit '' State machine''],
       [Lit ''ADR-010 '', MiddleDot, Lit '' Data access (Drizzle)'']]\<rparr>\<rparr>"

definition arch_redis :: arch_node where
  "arch_redis = \<lparr>an_id = ''redis'', an_position = (1040, 80), an_data = \<lparr>ad_label = ''Redis'', ad_kind = StoreKind,
     ad_responsibilities = [[Lit ''BullMQ queue backing for the payment and webhook job queues.'']],
     ad_failureModes = [[Lit ''The commit'', RightArrow,
      Lit ''enqueue dual-write is made safe by the outbox (publish is replayable) and jobId dedup.'']],
     ad_adrs = [[Lit ''ADR-004 '', MiddleDot, Lit '' Queue technology'']]\<rparr>\<rparr>"

definition arch_relay :: arch_node where
  "arch_relay = \<lparr>an_id = ''relay'', an_position = (690, 540), an_data = \<lparr>ad_label = ''Relay'', ad_kind = ProcessKind,
     ad_responsibilities = [[Lit ''Polls unpublished outbox rows (FOR UPDATE SKIP LOCKED) and publishes them to the queue.''],
       [Lit ''Publishes before marking published '', EmDash, Lit '' at-least-once.'']],
     ad_failureModes = [[Lit ''Crash after publish, before marking '', RightArrow,
      Lit '' the row republishes next tick; idempotent consumers make the duplicate harmless.'']],
     ad_adrs = [[Lit ''ADR-003 '', MiddleDot, Lit '' Transactional outbox''],
       [Lit ''ADR-004 '', MiddleDot, Lit '' Queue technology'']]\<rparr>\<rparr>"

definition arch_worker :: arch_node where
  "arch_worker = \<lparr>an_id = ''worker'', an_position = (1040, 300), an_data = \<lparr>ad_label = ''Worker'', ad_kind = ProcessKind,
     ad_responsibilities = [[Lit ''Consumes jobs; drives the payment state machine with a compare-and-swap.''],
       [Lit ''Calls the bank; handles retries with backoff, a retry budget, and a circuit breaker; emits terminal events.'']],
     ad_failureModes = [[Lit ''Crash mid-processing '', RightArrow,
      Lit '' the job redelivers; CAS + a per-payment bank key make the effect exactly-once despite at-least-once delivery.'']],
     ad_adrs = [[Lit ''ADR-006 '', MiddleDot, Lit '' State machine''],
       [Lit ''ADR-007 '', MiddleDot, Lit '' Delivery semantics'']]\<rparr>\<rparr>"

definition arch_bank :: arch_node where
  "arch_bank = \<lparr>an_id = ''bank'', an_position = (1380, 300), an_data = \<lparr>ad_label = ''Bank'', ad_kind = ExternalKind,
     ad_responsibilities = [[Lit ''ACH banking partner (simulated) '', EmDash,
      Lit '' authorizes, declines, or errors on a payment.'']],
     ad_failureModes = [[Lit ''Declines are terminal (no retry); transient errors/timeouts are retried; the circuit breaker sheds load while the bank is failing.'']],
     ad_adrs = [[Lit ''ADR-007 '', MiddleDot, Lit '' Delivery semantics'']]\<rparr>\<rparr>"

definition arch_dispatcher :: arch_node where
  "arch_dispatcher = \<lparr>an_id = ''dispatcher'', an_position = (690, 760), an_data = \<lparr>ad_label = ''Dispatcher'', ad_kind = ProcessKind,
     ad_responsibilities = [[Lit ''Fans terminal payment events out to webhook_deliveries (one event '', RightArrow,
      Lit '' N endpoints) and enqueues delivery jobs.'']],
     ad_failureModes = [[Lit ''Uses the same outbox-style claim (SKIP LOCKED) + marker, so it cannot lose or double-fan-out under crash.'']],
     ad_adrs = [[Lit ''ADR-008 '', MiddleDot, Lit '' Webhook delivery'']]\<rparr>\<rparr>"

definition arch_receiver :: arch_node where
  "arch_receiver = \<lparr>an_id = ''receiver'', an_position = (1380, 540), an_data = \<lparr>ad_label = ''Webhook receiver'', ad_kind = ExternalKind,
     ad_responsibilities = [[Lit ''The customer's endpoint '', EmDash, Lit '' receives signed delivery POSTs.'']],
     ad_failureModes = [[Lit ''If down, deliveries retry with backoff and land in a dead-letter after the budget; HMAC signatures let the receiver verify authenticity.'']],
     ad_adrs = [[Lit ''ADR-008 '', MiddleDot, Lit '' Webhook delivery'']]\<rparr>\<rparr>"

definition archNodes :: "arch_node list" where
  "archNodes = [arch_client, arch_api, arch_postgres, arch_redis, arch_relay, arch_worker, arch_bank, arch_dispatcher, arch_receiver]"

record arch_link =
  al_id :: string
  al_source :: string
  al_target :: string
  al_sourceHandle :: string
  al_targetHandle :: string
  al_label :: "piece list"
  al_type :: string

definition arch_edge :: "string \<Rightarrow> string \<Rightarrow> string \<Rightarrow> string \<Rightarrow> string \<Rightarrow> piece list \<Rightarrow> arch_link" where
  "arch_edge i s sh t th label =
     \<lparr>al_id = i, al_source = s, al_target = t, al_sourceHandle = sh, al_targetHandle = th, al_label = label,
      al_type = ''smoothstep''\<rparr>"

definition archEdges :: "arch_link list" where
  "archEdges =
     [arch_edge ''e-client-api'' ''client'' ''sr'' ''api'' ''tl'' [Lit ''POST /v1/payments''],
      arch_edge ''e-api-pg'' ''api'' ''sb'' ''postgres'' ''tt'' [Lit ''txn: payment + outbox''],
      arch_edge ''e-relay-pg'' ''relay'' ''sl'' ''postgres'' ''tr'' [Lit ''poll outbox '', MiddleDot, Lit '' SKIP LOCKED''],
      arch_edge ''e-relay-redis'' ''relay'' ''sr'' ''redis'' ''tb'' [Lit ''publish '', MiddleDot, Lit '' at-least-once''],
      arch_edge ''e-redis-worker'' ''redis'' ''sb'' ''worker'' ''tt'' [Lit ''consume''],
      arch_edge ''e-worker-bank'' ''worker'' ''sr'' ''bank'' ''tl'' [Lit ''authorize '', MiddleDot, Lit '' idempotent''],
      arch_edge ''e-worker-pg'' ''worker'' ''sl'' ''postgres'' ''tr'' [Lit ''CAS + events''],
      arch_edge ''e-disp-pg'' ''dispatcher'' ''sl'' ''postgres'' ''tb'' [Lit ''fan-out terminal events''],
      arch_edge ''e-disp-redis'' ''dispatcher'' ''sr'' ''redis'' ''tb'' [Lit ''enqueue delivery''],
      arch_edge ''e-worker-recv'' ''worker'' ''sb'' ''receiver'' ''tl'' [Lit ''signed POST '', MiddleDot, Lit '' HMAC'']]"

subsection \<open>The card of a node\<close>

datatype side = TopSide | LeftSide | RightSide | BottomSide

text \<open>Each handle's id, whether it is a source, and its side.\<close>

definition card_handles :: "(string \<times> bool \<times> side) list" where
  "card_handles =
     [(''tt'', False, TopSide), (''tl'', False, LeftSide), (''tr'', False, RightSide), (''tb'', False, BottomSide),
      (''st'', True, TopSide), (''sl'', True, LeftSide), (''sr'', True, RightSide), (''sb'', True, BottomSide)]"

fun KIND_LABEL :: "arch_kind \<Rightarrow> string" where
  "KIND_LABEL ProcessKind = ''service''"
| "KIND_LABEL StoreKind = ''datastore''"
| "KIND_LABEL ExternalKind = ''external''"

fun side_str :: "side \<Rightarrow> string" where
  "side_str TopSide = ''top''"
| "side_str LeftSide = ''left''"
| "side_str RightSide = ''right''"
| "side_str BottomSide = ''bottom''"

definition ArchNodeCard :: "arch_data \<Rightarrow> 'a node" where
  "ArchNodeCard d =
     el ''div''
       (map (\<lambda>(h, source, sd). El ''Handle'' [(''id'', AStr h),
            (''type'', AStr (if source then ''source'' else ''target'')), (''position'', AStr (side_str sd))] [] [])
          card_handles
        @ [el ''div'' [el ''span'' [], el ''span'' [say (KIND_LABEL (ad_kind d))]], el ''div'' [say (ad_label d)]])"

subsection \<open>The page\<close>

datatype arch_action = NodeClicked string | PaneClicked | PanelClosed

fun arch_act :: "arch_action \<Rightarrow> arch_data option \<Rightarrow> arch_data option" where
  "arch_act (NodeClicked i) sel =
     (case first_row (select_where (\<lambda>n. an_id n = i) archNodes) of None \<Rightarrow> sel | Some n \<Rightarrow> Some (an_data n))"
| "arch_act PaneClicked sel = None"
| "arch_act PanelClosed sel = None"

fun kind_str :: "arch_kind \<Rightarrow> string" where
  "kind_str ProcessKind = ''process''"
| "kind_str StoreKind = ''store''"
| "kind_str ExternalKind = ''external''"

definition arch_panel :: "arch_data \<Rightarrow> arch_action node" where
  "arch_panel d =
     el ''aside''
       [el ''header''
          [el ''div'' [el ''div'' [say (kind_str (ad_kind d))], el ''h2'' [say (ad_label d)]],
           El ''button'' [(''aria-label'', AStr ''Close'')] [OnClick PanelClosed] [el ''svg'' [el ''path'' []]]],
        el ''div''
          [el ''section''
             [el ''h3'' [say ''Responsibilities''],
              el ''ul'' (map (\<lambda>r. el ''li'' [el ''span'' [], Text r]) (ad_responsibilities d))],
           el ''section''
             [el ''h3'' [say ''Failure modes''],
              el ''ul'' (map (\<lambda>f. el ''li'' [el ''span'' [], Text f]) (ad_failureModes d))],
           el ''section''
             [el ''h3'' [say ''Decisions''], el ''div'' (map (\<lambda>a. el ''span'' [Text a]) (ad_adrs d))]]]"

text \<open>\<open>flow\<close> is what the drawing library renders.\<close>

definition ArchitecturePage :: "arch_action node \<Rightarrow> arch_data option \<Rightarrow> arch_action node" where
  "ArchitecturePage flow sel =
     el ''div''
       ([el ''div''
           [el ''h1'' [say ''Architecture''],
            el ''p'' [say ''Click a component to see its responsibilities, failure modes, and the decision behind it.'']]]
        @ [flow] @ (case sel of None \<Rightarrow> [] | Some d \<Rightarrow> [arch_panel d]))"

lemmas arch_node_defs = arch_client_def arch_api_def arch_postgres_def arch_redis_def arch_relay_def arch_worker_def arch_bank_def arch_dispatcher_def arch_receiver_def

lemma arch_ids: "map an_id archNodes = [''client'', ''api'', ''postgres'', ''redis'', ''relay'', ''worker'', ''bank'', ''dispatcher'', ''receiver'']"
  by (simp add: archNodes_def arch_node_defs)

lemma arch_ids_distinct: "distinct (map an_id archNodes)"
  unfolding arch_ids by simp

text \<open>Every edge leaves a node at a source handle and enters another at a target handle.\<close>

definition edge_ok :: "arch_link \<Rightarrow> bool" where
  "edge_ok e \<longleftrightarrow> al_source e \<in> set (map an_id archNodes) \<and> al_target e \<in> set (map an_id archNodes)
     \<and> al_source e \<noteq> al_target e
     \<and> list_ex (\<lambda>(h, source, sd). h = al_sourceHandle e \<and> source) card_handles
     \<and> list_ex (\<lambda>(h, source, sd). h = al_targetHandle e \<and> \<not> source) card_handles"

lemma arch_edges_ok: "list_all edge_ok archEdges"
  unfolding edge_ok_def arch_ids by (simp add: archEdges_def arch_edge_def card_handles_def)

lemma arch_edge_ids_distinct: "distinct (map al_id archEdges)"
  by (simp add: archEdges_def arch_edge_def)

text \<open>No node stands alone.\<close>

lemma arch_nodes_used: "list_all (\<lambda>i. list_ex (\<lambda>e. al_source e = i \<or> al_target e = i) archEdges) (map an_id archNodes)"
  unfolding arch_ids by (simp add: archEdges_def arch_edge_def)

lemma node_clicked:
  assumes "n \<in> set archNodes"
  shows "arch_act (NodeClicked (an_id n)) sel = Some (an_data n)"
proof -
  have "select_where (\<lambda>m. an_id m = an_id n) archNodes \<noteq> []" using assms by (auto simp: select_where_def filter_empty_conv)
  then obtain m ms where m: "select_where (\<lambda>m. an_id m = an_id n) archNodes = m # ms" by (meson neq_Nil_conv)
  then have "m \<in> set (select_where (\<lambda>m. an_id m = an_id n) archNodes)" by simp
  then have "m \<in> set archNodes" "an_id m = an_id n" by (auto simp: select_where_def)
  then have "m = n" using arch_ids_distinct assms by (auto simp: distinct_map dest: inj_onD)
  with m show ?thesis by simp
qed

lemma panel_offers: "does re cx [arch_panel d] (Do PanelClosed)"
  by (simp add: arch_panel_def inside_def markup)

lemma panel_closes: "offers re (ArchitecturePage flow (Some d)) PanelClosed"
  using panel_offers [of re top_level d]
  by (simp add: ArchitecturePage_def offers_def top_level_def inside_def does_simps(3)) (simp add: does_def)

end
