(* ===== verification/Services.thy ===== *)
theory Services
  imports Config PollLoop
begin

text \<open>
  The six polling services with their settings, and their loops on a clock. A service is what its
  file gives the shared loop of \<open>PollLoop\<close>: the interval it reads from \<open>config.ts\<close>, the deadline
  where it has one, whether it polls at start-up, and whether a failed poll is printed. Shown:
  two polls of a loop start at least one timer apart, and what the timer makes of an interval the
  configuration accepts.
\<close>

subsection \<open>The services\<close>

record loop_service =
  ls_interval :: rat
  ls_deadline :: "rat option"
  ls_eager :: bool
  ls_prints :: bool

definition RelayService :: "config \<Rightarrow> loop_service" where
  "RelayService c = \<lparr>ls_interval = relayPollMs (relay c), ls_deadline = None, ls_eager = False, ls_prints = True\<rparr>"

definition ReaperService :: "config \<Rightarrow> loop_service" where
  "ReaperService c = \<lparr>ls_interval = reaperIntervalMs (relay c), ls_deadline = Some (reaperDeadlineMs (relay c)),
     ls_eager = False, ls_prints = False\<rparr>"

definition OutboxCleanupService :: "config \<Rightarrow> loop_service" where
  "OutboxCleanupService c = \<lparr>ls_interval = outboxCleanupIntervalMs (relay c), ls_deadline = None,
     ls_eager = True, ls_prints = False\<rparr>"

definition WebhookDispatcherService :: "config \<Rightarrow> loop_service" where
  "WebhookDispatcherService c = \<lparr>ls_interval = webhookPollMs (webhooks c), ls_deadline = None,
     ls_eager = False, ls_prints = True\<rparr>"

definition WebhookReaperService :: "config \<Rightarrow> loop_service" where
  "WebhookReaperService c = \<lparr>ls_interval = webhookReaperIntervalMs (webhooks c),
     ls_deadline = Some (webhookReaperDeadlineMs (webhooks c)), ls_eager = False, ls_prints = False\<rparr>"

definition BankConfigSyncService :: "config \<Rightarrow> loop_service" where
  "BankConfigSyncService c = \<lparr>ls_interval = syncMs (bank c), ls_deadline = None, ls_eager = False, ls_prints = False\<rparr>"

definition loop_services :: "config \<Rightarrow> loop_service list" where
  "loop_services c = [RelayService c, ReaperService c, OutboxCleanupService c, WebhookDispatcherService c,
     WebhookReaperService c, BankConfigSyncService c]"

lemmas service_defs = RelayService_def ReaperService_def OutboxCleanupService_def WebhookDispatcherService_def
  WebhookReaperService_def BankConfigSyncService_def loop_services_def

text \<open>The timer truncates a delay to whole milliseconds.\<close>

definition timer_delay :: "rat \<Rightarrow> int" where
  "timer_delay x = (if 1 \<le> x \<and> x \<le> 2147483647 then \<lfloor>x\<rfloor> else 1)"

lemma timer_delay_pos: "1 \<le> timer_delay x"
  by (simp add: timer_delay_def)

lemma timer_delay_ms: "timer_delay (of_int n) = timer_ms n"
proof -
  have "(of_int n :: rat) \<le> 2147483647 \<longleftrightarrow> n \<le> 2147483647"
    using of_int_le_iff [of n 2147483647, where ?'a = rat] by (simp only: of_int_numeral)
  then show ?thesis by (simp add: timer_delay_def timer_ms_def)
qed

lemma loop_services_interval:
  assumes "load_config e = Inr c" "sv \<in> set (loop_services c)"
  shows "100 \<le> ls_interval sv"
proof -
  note reads = load_config_reads [OF assms(1)]
  from load_bank_ok [OF reads(7)] load_relay_ok [OF reads(8)] load_webhooks_ok [OF reads(9)] assms(2)
  show ?thesis by (auto simp: service_defs)
qed

subsection \<open>A loop on a clock\<close>

text \<open>\<open>tm_due\<close> is when the timer armed last fires at the earliest; an event carries its time.\<close>

record 'w timed_loop =
  tm_loop :: "'w poll_loop"
  tm_due :: int

definition timed_init :: "loop_service \<Rightarrow> int \<Rightarrow> 'w \<Rightarrow> 'w timed_loop" where
  "timed_init sv t w =
     (if ls_eager sv then \<lparr>tm_loop = eager_init w, tm_due = t\<rparr>
      else \<lparr>tm_loop = onModuleInit w, tm_due = t + timer_delay (ls_interval sv)\<rparr>)"

fun timed_step :: "int \<Rightarrow> ('e \<Rightarrow> 'w \<Rightarrow> 'r result \<times> 'w) \<Rightarrow> int \<times> 'e loop_signal \<Rightarrow> 'w timed_loop \<Rightarrow> 'w timed_loop" where
  "timed_step d poll (t, Fires h) s =
     (if tm_due s \<le> t then s\<lparr>tm_loop := tick_begin h (tm_loop s)\<rparr> else s)"
| "timed_step d poll (t, PollEnds e) s =
     (if pl_running (tm_loop s) = 0 then s else \<lparr>tm_loop = tick_end poll e (tm_loop s), tm_due = t + d\<rparr>)"
| "timed_step d poll (t, Shutdown) s = s\<lparr>tm_loop := onApplicationShutdown (tm_loop s)\<rparr>"

fun begins :: "int \<times> 'e loop_signal \<Rightarrow> 'w timed_loop \<Rightarrow> bool" where
  "begins (t, Fires h) s \<longleftrightarrow> h \<in> set (pl_armed (tm_loop s)) \<and> tm_due s \<le> t"
| "begins _ s \<longleftrightarrow> False"

text \<open>The times at which polls start.\<close>

fun poll_starts :: "int \<Rightarrow> ('e \<Rightarrow> 'w \<Rightarrow> 'r result \<times> 'w) \<Rightarrow> (int \<times> 'e loop_signal) list \<Rightarrow> 'w timed_loop \<Rightarrow> int list" where
  "poll_starts d poll [] s = []"
| "poll_starts d poll (ev # evs) s =
     (if begins ev s then [fst ev] else []) @ poll_starts d poll evs (timed_step d poll ev s)"

text \<open>A loop on a clock is the loop with some of its timers held back.\<close>

lemma timed_step_loop: "\<exists>sgs. tm_loop (timed_step d poll ev s) = loop_run poll sgs (tm_loop s)"
proof -
  obtain t sg where ev: "ev = (t, sg)" by (cases ev)
  have "tm_loop (timed_step d poll ev s) = loop_run poll [] (tm_loop s)
    \<or> tm_loop (timed_step d poll ev s) = loop_run poll [sg] (tm_loop s)"
    by (cases sg) (simp_all add: ev)
  then show ?thesis by blast
qed

lemma timed_step_ok: "loop_ok (tm_loop s) \<Longrightarrow> loop_ok (tm_loop (timed_step d poll ev s))"
  using timed_step_loop [of d poll ev s] loop_ok_run by metis

text \<open>The earliest next start: the due time of a waiting loop, a timer from now for a polling one.\<close>

definition next_start :: "int \<Rightarrow> int \<Rightarrow> 'w timed_loop \<Rightarrow> int" where
  "next_start d t s = (if pl_running (tm_loop s) = 0 then tm_due s else t + d)"

lemma next_start_step:
  assumes "loop_ok (tm_loop s)" "0 \<le> d" "t0 \<le> t"
  shows "next_start d t0 s \<le> next_start d t (timed_step d poll (t, sg) s)"
    and "begins (t, sg) s \<Longrightarrow> next_start d t0 s \<le> t \<and> next_start d t (timed_step d poll (t, sg) s) = t + d"
  using assms
  by (cases sg; auto simp: next_start_def loop_ok_def tick_begin_def tick_end_def scheduleNext_def
      onApplicationShutdown_def split: nat.splits option.splits)+

lemma starts_after:
  assumes "loop_ok (tm_loop s)" "0 \<le> d" "sorted (map fst evs)" "\<forall>ev \<in> set evs. t0 \<le> fst ev"
  shows "\<forall>x \<in> set (poll_starts d poll evs s). next_start d t0 s \<le> x"
  using assms
proof (induction evs arbitrary: s t0)
  case (Cons ev evs)
  obtain t sg where ev: "ev = (t, sg)" by (cases ev)
  let ?s = "timed_step d poll (t, sg) s"
  have t: "t0 \<le> t" "\<forall>ev \<in> set evs. t \<le> fst ev" using Cons.prems(3,4) by (auto simp: ev)
  have "\<forall>x \<in> set (poll_starts d poll evs ?s). next_start d t ?s \<le> x"
    using Cons.prems t timed_step_ok by (intro Cons.IH) (auto simp: ev)
  moreover note next_start_step [OF Cons.prems(1,2) t(1), where poll = poll and sg = sg]
  ultimately show ?case by (force simp: ev)
qed simp

lemma starts_spaced:
  assumes "loop_ok (tm_loop s)" "0 \<le> d" "sorted (map fst evs)"
  shows "sorted_wrt (\<lambda>a b. a + d \<le> b) (poll_starts d poll evs s)"
  using assms
proof (induction evs arbitrary: s)
  case (Cons ev evs)
  obtain t sg where ev: "ev = (t, sg)" by (cases ev)
  let ?s = "timed_step d poll (t, sg) s"
  have ok: "loop_ok (tm_loop ?s)" using Cons.prems(1) by (rule timed_step_ok)
  have so: "sorted (map fst evs)" "\<forall>ev \<in> set evs. t \<le> fst ev" using Cons.prems(3) by (auto simp: ev)
  have "\<forall>x \<in> set (poll_starts d poll evs ?s). t + d \<le> x" if "begins (t, sg) s"
    using starts_after [OF ok Cons.prems(2) so, of poll] next_start_step(2) [OF Cons.prems(1,2) order_refl that, of poll] by simp
  moreover have "sorted_wrt (\<lambda>a b. a + d \<le> b) (poll_starts d poll evs ?s)"
    using Cons.IH [OF ok Cons.prems(2) so(1)] .
  ultimately show ?case by (simp add: ev)
qed simp

text \<open>An interval in range is kept to the millisecond; one beyond 24.8 days makes the loop spin.\<close>

lemma timer_delay_range:
  assumes "100 \<le> x"
  shows "if x \<le> 2147483647 then 100 \<le> timer_delay x \<and> of_int (timer_delay x) \<le> x \<and> x < of_int (timer_delay x) + 1
    else timer_delay x = 1"
proof -
  have "100 \<le> \<lfloor>x\<rfloor>" using assms by (simp add: le_floor_iff)
  then show ?thesis using assms by (auto simp: timer_delay_def) linarith+
qed

lemma timed_init_ok: "loop_ok (tm_loop (timed_init sv t w))"
  by (simp add: timed_init_def)

text \<open>The polls of a service that starts at \<open>t\<close>; an eager one begins with the start.\<close>

definition service_polls :: "loop_service \<Rightarrow> ('e \<Rightarrow> 'w \<Rightarrow> 'r result \<times> 'w) \<Rightarrow> (int \<times> 'e loop_signal) list \<Rightarrow> int \<Rightarrow> 'w
  \<Rightarrow> int list" where
  "service_polls sv poll evs t w =
     (if ls_eager sv then [t] else []) @ poll_starts (timer_delay (ls_interval sv)) poll evs (timed_init sv t w)"

lemma timed_init_next: "next_start (timer_delay (ls_interval sv)) t (timed_init sv t w) = t + timer_delay (ls_interval sv)"
  by (simp add: timed_init_def next_start_def onModuleInit_def eager_init_def scheduleNext_def new_loop_def)

lemma service_starts:
  assumes "sorted (map fst evs)" "\<forall>ev \<in> set evs. t \<le> fst ev"
    and d_def: "d = timer_delay (ls_interval sv)"
  shows "sorted_wrt (\<lambda>a b. a + d \<le> b) (service_polls sv poll evs t w)"
    and "\<not> ls_eager sv \<Longrightarrow> \<forall>x \<in> set (service_polls sv poll evs t w). t + d \<le> x"
proof -
  have d: "0 \<le> d" using timer_delay_pos [of "ls_interval sv"] by (simp add: d_def)
  have s: "sorted_wrt (\<lambda>a b. a + d \<le> b) (poll_starts d poll evs (timed_init sv t w))"
    by (rule starts_spaced [OF timed_init_ok d assms(1)])
  have l: "\<forall>x \<in> set (poll_starts d poll evs (timed_init sv t w)). t + d \<le> x"
    using starts_after [where s = "timed_init sv t w" and poll = poll, OF timed_init_ok d assms(1,2)]
    unfolding d_def timed_init_next .
  show "sorted_wrt (\<lambda>a b. a + d \<le> b) (service_polls sv poll evs t w)"
    using s l by (simp add: service_polls_def d_def)
  show "\<forall>x \<in> set (service_polls sv poll evs t w). t + d \<le> x" if "\<not> ls_eager sv"
    using l that by (simp add: service_polls_def d_def)
qed

end
