(* ===== verification/Wiring.thy ===== *)
theory Wiring
  imports Services Platform JobQueue
begin

text \<open>
  What the three processes are made of: the injectable classes with the tokens their
  constructors ask for, the modules with their imports, providers and exports, and the
  start-up of \<open>main.ts\<close>, \<open>worker.ts\<close> and \<open>relay.ts\<close>. How the Nest container resolves a token is
  a parameter, the locale \<open>nest_container\<close> with the documented rule; the theory interprets it.
  Shown: every dependency has a provider, the objects that two services must share are
  shared, and each loop and each queue's consumer runs in one process, with its shutdown hooks.
\<close>

subsection \<open>Classes\<close>

text \<open>A token is a class, a string, or what \<open>InjectQueue\<close>, \<open>InjectMetric\<close> and \<open>InjectPinoLogger\<close> make.\<close>

datatype token =
    ClassToken string
  | StringToken string
  | QueueToken string
  | MetricToken string
  | LoggerToken string

definition PG_POOL :: token where "PG_POOL = StringToken ''PG_POOL''"
definition DRIZZLE :: token where "DRIZZLE = StringToken ''DRIZZLE''"
definition BANK :: token where "BANK = StringToken ''BANK''"
definition BREAKER :: token where "BREAKER = StringToken ''BREAKER''"

text \<open>
  A class: what its constructor injects, the queue its \<open>Processor\<close> decorator names, and the
  polling loop that its module hooks run.
\<close>

record nest_class =
  cl_name :: string
  cl_injects :: "token list"
  cl_consumes :: "string option"
  cl_loop :: "loop_service option"

definition plain_class :: "string \<Rightarrow> token list \<Rightarrow> nest_class" where
  "plain_class n ts = \<lparr>cl_name = n, cl_injects = ts, cl_consumes = None, cl_loop = None\<rparr>"

definition BankConfigController :: nest_class where
  "BankConfigController = plain_class ''BankConfigController'' [ClassToken ''BankConfigService'']"

definition BankConfigService :: nest_class where
  "BankConfigService = plain_class ''BankConfigService'' [DRIZZLE]"

definition HealthController :: nest_class where
  "HealthController = plain_class ''HealthController''
     [ClassToken ''HealthCheckService'', ClassToken ''PostgresHealthIndicator'']"

definition PostgresHealthIndicator :: nest_class where
  "PostgresHealthIndicator = plain_class ''PostgresHealthIndicator'' [PG_POOL]"

definition QueueMetricsService :: nest_class where
  "QueueMetricsService = plain_class ''QueueMetricsService''
     [MetricToken ''payments_queue_depth'', QueueToken PAYMENTS_QUEUE, QueueToken WEBHOOKS_QUEUE]"

definition WorkerMetricsService :: nest_class where
  "WorkerMetricsService = plain_class ''WorkerMetricsService'' [BREAKER]"

definition PaymentsController :: nest_class where
  "PaymentsController = plain_class ''PaymentsController''
     [ClassToken ''PaymentsService'', MetricToken ''payment_submit_duration_seconds'']"

definition PaymentsService :: nest_class where
  "PaymentsService = plain_class ''PaymentsService'' [DRIZZLE, LoggerToken ''PaymentsService'']"

definition WebhooksController :: nest_class where
  "WebhooksController = plain_class ''WebhooksController'' [ClassToken ''WebhooksService'']"

definition WebhookDeliveriesController :: nest_class where
  "WebhookDeliveriesController = plain_class ''WebhookDeliveriesController'' [ClassToken ''WebhooksService'']"

definition WebhooksService :: nest_class where
  "WebhooksService = plain_class ''WebhooksService'' [DRIZZLE]"

definition PaymentProcessor :: nest_class where
  "PaymentProcessor = (plain_class ''PaymentProcessor''
     [DRIZZLE, BANK, QueueToken PAYMENTS_QUEUE, BREAKER, LoggerToken ''PaymentProcessor''])
     \<lparr>cl_consumes := Some PAYMENTS_QUEUE\<rparr>"

definition WebhookProcessor :: nest_class where
  "WebhookProcessor = (plain_class ''WebhookProcessor''
     [DRIZZLE, QueueToken WEBHOOKS_QUEUE, LoggerToken ''WebhookProcessor''])
     \<lparr>cl_consumes := Some WEBHOOKS_QUEUE\<rparr>"

definition RelayService_class :: "config \<Rightarrow> nest_class" where
  "RelayService_class c = (plain_class ''RelayService''
     [DRIZZLE, QueueToken PAYMENTS_QUEUE, LoggerToken ''RelayService''])\<lparr>cl_loop := Some (RelayService c)\<rparr>"

definition ReaperService_class :: "config \<Rightarrow> nest_class" where
  "ReaperService_class c = (plain_class ''ReaperService''
     [DRIZZLE, QueueToken PAYMENTS_QUEUE])\<lparr>cl_loop := Some (ReaperService c)\<rparr>"

definition OutboxCleanupService_class :: "config \<Rightarrow> nest_class" where
  "OutboxCleanupService_class c = (plain_class ''OutboxCleanupService'' [DRIZZLE])
     \<lparr>cl_loop := Some (OutboxCleanupService c)\<rparr>"

definition WebhookDispatcherService_class :: "config \<Rightarrow> nest_class" where
  "WebhookDispatcherService_class c = (plain_class ''WebhookDispatcherService''
     [DRIZZLE, QueueToken WEBHOOKS_QUEUE, LoggerToken ''WebhookDispatcherService''])
     \<lparr>cl_loop := Some (WebhookDispatcherService c)\<rparr>"

definition WebhookReaperService_class :: "config \<Rightarrow> nest_class" where
  "WebhookReaperService_class c = (plain_class ''WebhookReaperService''
     [DRIZZLE, QueueToken WEBHOOKS_QUEUE, LoggerToken ''WebhookReaperService''])
     \<lparr>cl_loop := Some (WebhookReaperService c)\<rparr>"

definition BankConfigSyncService_class :: "config \<Rightarrow> nest_class" where
  "BankConfigSyncService_class c = (plain_class ''BankConfigSyncService'' [DRIZZLE, BANK])
     \<lparr>cl_loop := Some (BankConfigSyncService c)\<rparr>"

lemmas class_defs = plain_class_def BankConfigController_def BankConfigService_def HealthController_def
  PostgresHealthIndicator_def QueueMetricsService_def WorkerMetricsService_def PaymentsController_def
  PaymentsService_def WebhooksController_def WebhookDeliveriesController_def WebhooksService_def
  PaymentProcessor_def WebhookProcessor_def RelayService_class_def ReaperService_class_def
  OutboxCleanupService_class_def WebhookDispatcherService_class_def WebhookReaperService_class_def
  BankConfigSyncService_class_def PG_POOL_def DRIZZLE_def BANK_def BREAKER_def

subsection \<open>Modules\<close>

text \<open>The modules of the packages the code imports, with what it configures them with.\<close>

datatype library_module =
    BullConnection string
  | BullQueues "string list"
  | LoggerModule
  | TerminusModule
  | PrometheusModule

text \<open>
  A provider is a class under its own name, a class under a token, a factory with the tokens
  it injects, the factory of the connection pool with its options and the text its error listener
  prints, or a metric with its help, labels and buckets. \<open>ExportBull\<close> is \<open>exports: [BullModule]\<close>, which re-exports what is imported of it.
\<close>

datatype implementation = Bank_adapter "bank_class js_property" | Circuit_breaker

record pool_options =
  connectionString :: string
  connectionTimeoutMillis :: int
  on_error_prints :: string

datatype nest_provider =
    Provided nest_class
  | UseClass token implementation
  | UseFactory token "token list"
  | UsePool token pool_options
  | Gauge string string "string list"
  | Histogram string string "string list" "rat list"

datatype nest_export = Export token | ExportBull

datatype nest_module =
    Library library_module
  | Module string "nest_module list" "nest_provider list" "nest_class list" "nest_export list"

definition DatabaseModule :: "config \<Rightarrow> nest_module" where
  "DatabaseModule c = Module ''DatabaseModule'' []
     [UsePool PG_POOL \<lparr>connectionString = databaseUrl c, connectionTimeoutMillis = 2000,
        on_error_prints = ''[pg pool] idle client error:''\<rparr>,
      UseFactory DRIZZLE [PG_POOL]] []
     [Export PG_POOL, Export DRIZZLE]"

definition QueueModule :: "config \<Rightarrow> nest_module" where
  "QueueModule c = Module ''QueueModule''
     [Library (BullConnection (redisUrl c)), Library (BullQueues (map fst registered_queues))] [] [] [ExportBull]"

text \<open>The provider of the bank is selected from the registry, which can throw.\<close>

definition BankModule :: "config \<Rightarrow> nest_module result" where
  "BankModule c =
     (case bank_provider c of
        Inl err \<Rightarrow> Inl err
      | Inr p \<Rightarrow> Inr (Module ''BankModule'' []
          [UseClass (StringToken (provide p)) (Bank_adapter (useClass p)), UseClass BREAKER Circuit_breaker] []
          [Export BANK, Export BREAKER]))"

definition RelayModule :: "config \<Rightarrow> nest_module" where
  "RelayModule c = Module ''RelayModule'' [DatabaseModule c, QueueModule c, Library LoggerModule]
     (map Provided [RelayService_class c, ReaperService_class c, OutboxCleanupService_class c,
        WebhookDispatcherService_class c, WebhookReaperService_class c]) [] []"

definition WorkerModule :: "config \<Rightarrow> nest_module result" where
  "WorkerModule c =
     (case BankModule c of
        Inl err \<Rightarrow> Inl err
      | Inr bm \<Rightarrow> Inr (Module ''WorkerModule'' [DatabaseModule c, QueueModule c, bm, Library LoggerModule]
          (map Provided [PaymentProcessor, WebhookProcessor, WorkerMetricsService, BankConfigSyncService_class c]) [] []))"

definition HealthModule :: "config \<Rightarrow> nest_module" where
  "HealthModule c = Module ''HealthModule'' [Library TerminusModule, DatabaseModule c]
     [Provided PostgresHealthIndicator] [HealthController] []"

definition PaymentsModule :: "config \<Rightarrow> nest_module" where
  "PaymentsModule c = Module ''PaymentsModule'' [DatabaseModule c]
     [Provided PaymentsService,
      Histogram ''payment_submit_duration_seconds'' ''Latency of POST /v1/payments'' [''outcome'']
        [0.0025, 0.005, 0.01, 0.025, 0.05, 0.1, 0.25, 0.5, 1]] [PaymentsController] []"

definition WebhooksModule :: "config \<Rightarrow> nest_module" where
  "WebhooksModule c = Module ''WebhooksModule'' [DatabaseModule c] [Provided WebhooksService]
     [WebhooksController, WebhookDeliveriesController] []"

definition MetricsModule :: "config \<Rightarrow> nest_module" where
  "MetricsModule c = Module ''MetricsModule'' [QueueModule c]
     [Gauge ''payments_queue_depth'' ''BullMQ job counts by queue and state'' [''queue'', ''state''],
      Provided QueueMetricsService] [] []"

definition AdminModule :: "config \<Rightarrow> nest_module" where
  "AdminModule c = Module ''AdminModule'' [DatabaseModule c] [Provided BankConfigService] [BankConfigController] []"

definition AppModule :: "config \<Rightarrow> nest_module" where
  "AppModule c = Module ''AppModule'' [HealthModule c, PaymentsModule c, WebhooksModule c, Library PrometheusModule,
     MetricsModule c, AdminModule c, Library LoggerModule] [] [] []"

lemmas module_defs = DatabaseModule_def QueueModule_def RelayModule_def HealthModule_def PaymentsModule_def
  WebhooksModule_def MetricsModule_def AdminModule_def AppModule_def registered_queues_def

lemma WorkerModule_loaded:
  assumes "load_config e = Inr c"
  shows "WorkerModule c = Inr (Module ''WorkerModule''
    [DatabaseModule c, QueueModule c,
     Module ''BankModule'' [] [UseClass BANK (Bank_adapter (Own SimulatedBankAdapter)), UseClass BREAKER Circuit_breaker] []
       [Export BANK, Export BREAKER],
     Library LoggerModule]
    (map Provided [PaymentProcessor, WebhookProcessor, WorkerMetricsService, BankConfigSyncService_class c]) [] [])"
  using bank_provider_loaded [OF assms] by (simp add: WorkerModule_def BankModule_def BANK_def)

subsection \<open>Processes\<close>

text \<open>
  A started process: its root module, what the API puts before its controllers, whether the
  process asks for the shutdown hooks, the port it listens on (the API, or the metrics of a
  worker) and the heartbeat it prints.
\<close>

record http_edge =
  whitelist :: bool
  forbidNonWhitelisted :: bool
  transform :: bool
  global_filters :: "string list"
  cors_origin :: "string list"

record process =
  pr_root :: nest_module
  pr_edge :: "http_edge option"
  pr_shutdown_hooks :: bool
  pr_listens :: "rat option"
  pr_heartbeat :: "(string \<times> int) option"

definition main_bootstrap :: "config \<Rightarrow> process" where
  "main_bootstrap c = \<lparr>pr_root = AppModule c,
     pr_edge = Some \<lparr>whitelist = True, forbidNonWhitelisted = True, transform = True,
       global_filters = [''ProblemDetailFilter''], cors_origin = corsOrigins c\<rparr>,
     pr_shutdown_hooks = False,
     pr_listens = Some (apiPort c), pr_heartbeat = None\<rparr>"

definition relay_bootstrap :: "config \<Rightarrow> process" where
  "relay_bootstrap c = \<lparr>pr_root = RelayModule c, pr_edge = None, pr_shutdown_hooks = True,
     pr_listens = None, pr_heartbeat = Some (''relay up'', 5000)\<rparr>"

definition worker_bootstrap :: "config \<Rightarrow> process result" where
  "worker_bootstrap c =
     (case WorkerModule c of
        Inl err \<Rightarrow> Inl err
      | Inr m \<Rightarrow> Inr \<lparr>pr_root = m, pr_edge = None, pr_shutdown_hooks = True,
          pr_listens = Some (metricsPort c), pr_heartbeat = Some (''worker up'', 5000)\<rparr>)"

text \<open>All modules of a process, with the repetitions of the imports, and its classes.\<close>

fun modules :: "nest_module \<Rightarrow> nest_module list" where
  "modules (Library l) = [Library l]"
| "modules (Module n ms ps cs es) = Module n ms ps cs es # concat (map modules ms)"

fun own_classes :: "nest_module \<Rightarrow> nest_class list" where
  "own_classes (Library l) = []"
| "own_classes (Module n ms ps cs es) = [k. Provided k \<leftarrow> ps] @ cs"

definition process_classes :: "nest_module \<Rightarrow> nest_class list" where
  "process_classes rt = concat (map own_classes (remdups (modules rt)))"

definition process_loops :: "nest_module \<Rightarrow> loop_service list" where
  "process_loops rt = List.map_filter cl_loop (process_classes rt)"

definition process_consumes :: "nest_module \<Rightarrow> string list" where
  "process_consumes rt = List.map_filter cl_consumes (process_classes rt)"

subsection \<open>Dependencies\<close>

text \<open>What a module provides, and what its providers and controllers ask for.\<close>

fun provider_token :: "nest_provider \<Rightarrow> token" where
  "provider_token (Provided k) = ClassToken (cl_name k)"
| "provider_token (UseClass t i) = t"
| "provider_token (UseFactory t ts) = t"
| "provider_token (UsePool t po) = t"
| "provider_token (Gauge n h ls) = MetricToken n"
| "provider_token (Histogram n h ls bs) = MetricToken n"

fun provider_needs :: "nest_provider \<Rightarrow> token list" where
  "provider_needs (Provided k) = cl_injects k"
| "provider_needs (UseFactory t ts) = ts"
| "provider_needs _ = []"

fun provides :: "nest_module \<Rightarrow> token list" where
  "provides (Library l) = []"
| "provides (Module n ms ps cs es) = map provider_token ps"

fun needs :: "nest_module \<Rightarrow> token list" where
  "needs (Library l) = []"
| "needs (Module n ms ps cs es) = concat (map provider_needs ps) @ concat (map cl_injects cs)"

fun is_bull :: "nest_module \<Rightarrow> bool" where
  "is_bull (Library (BullConnection u)) \<longleftrightarrow> True"
| "is_bull (Library (BullQueues qs)) \<longleftrightarrow> True"
| "is_bull _ \<longleftrightarrow> False"

text \<open>The modules whose provider of a token an import of the module brings in; \<open>offers\<close> is what packages export.\<close>

fun exporters :: "(library_module \<Rightarrow> token \<Rightarrow> bool) \<Rightarrow> token \<Rightarrow> nest_module \<Rightarrow> nest_module list" where
  "exporters offers t (Library l) = (if offers l t then [Library l] else [])"
| "exporters offers t (Module n ms ps cs es) =
     (if Export t \<in> set es \<and> t \<in> set (map provider_token ps) then [Module n ms ps cs es] else [])
     @ (if ExportBull \<in> set es then concat (map (exporters offers t) (filter is_bull ms)) else [])"

fun imported_from :: "(library_module \<Rightarrow> token \<Rightarrow> bool) \<Rightarrow> token \<Rightarrow> nest_module \<Rightarrow> nest_module list" where
  "imported_from offers t (Library l) = []"
| "imported_from offers t (Module n ms ps cs es) = concat (map (exporters offers t) ms)"

text \<open>What the declarations must give a dependency for the container to find it.\<close>

definition satisfied :: "(library_module \<Rightarrow> token \<Rightarrow> bool) \<Rightarrow> nest_module \<Rightarrow> nest_module \<Rightarrow> token \<Rightarrow> bool" where
  "satisfied offers rt m t \<longleftrightarrow> t \<in> set (provides m) \<or> imported_from offers t m \<noteq> []
     \<or> (\<exists>x. t = LoggerToken x) \<and> Library LoggerModule \<in> set (modules rt)"

text \<open>
  The container finds the module whose provider a dependency gets: the module's own, else one
  of those an import exports; the logger's module is global. Packages export the tokens
  their decorators name and none of this program's string tokens.
\<close>

locale nest_container =
  fixes offers :: "library_module \<Rightarrow> token \<Rightarrow> bool"
    and finds :: "nest_module \<Rightarrow> nest_module \<Rightarrow> token \<Rightarrow> nest_module option"
  assumes finds_own: "t \<in> set (provides m) \<Longrightarrow> finds rt m t = Some m"
    and finds_imported: "t \<notin> set (provides m) \<Longrightarrow> imported_from offers t m \<noteq> [] \<Longrightarrow>
      \<exists>h \<in> set (imported_from offers t m). finds rt m t = Some h"
    and finds_logger: "t \<notin> set (provides m) \<Longrightarrow> imported_from offers t m = [] \<Longrightarrow>
      Library LoggerModule \<in> set (modules rt) \<Longrightarrow> t = LoggerToken x \<Longrightarrow> finds rt m t = Some (Library LoggerModule)"
    and offers_queue: "q \<in> set qs \<Longrightarrow> offers (BullQueues qs) (QueueToken q)"
    and offers_logger: "offers LoggerModule (LoggerToken x)"
    and offers_health: "offers TerminusModule (ClassToken ''HealthCheckService'')"
    and offers_no_string: "\<not> offers l (StringToken x)"
begin

lemma satisfied_finds: "satisfied offers rt m t \<Longrightarrow> finds rt m t \<noteq> None"
  using finds_own [of t m rt] finds_imported [of t m rt] finds_logger [of t m rt]
  by (auto simp: satisfied_def)

lemmas wiring = satisfied_def module_defs class_defs offers_queue offers_logger offers_health offers_no_string

lemma main_satisfied: "\<forall>m \<in> set (modules (AppModule c)). \<forall>t \<in> set (needs m). satisfied offers (AppModule c) m t"
  by (simp add: wiring)

lemma relay_satisfied: "\<forall>m \<in> set (modules (RelayModule c)). \<forall>t \<in> set (needs m). satisfied offers (RelayModule c) m t"
  by (simp add: wiring)

lemma worker_satisfied:
  assumes "load_config e = Inr c" "WorkerModule c = Inr w"
  shows "\<forall>m \<in> set (modules w). \<forall>t \<in> set (needs m). satisfied offers w m t"
  using assms(2) by (auto simp: WorkerModule_loaded [OF assms(1)] wiring)

lemma found: "t \<notin> set (provides m) \<Longrightarrow> imported_from offers t m = [h] \<Longrightarrow> finds rt m t = Some h"
  using finds_imported [of t m rt] by simp

text \<open>One pool per process: wherever the database is asked for, it is the one of the same module.\<close>

lemma main_database: "\<forall>m \<in> set (modules (AppModule c)). DRIZZLE \<in> set (needs m) \<longrightarrow> finds (AppModule c) m DRIZZLE = Some (DatabaseModule c)"
  by (simp add: wiring found)

lemma relay_database: "finds (RelayModule c) (RelayModule c) DRIZZLE = Some (DatabaseModule c)"
  by (rule found) (simp_all add: wiring)

lemma worker_shares:
  assumes "load_config e = Inr c" "WorkerModule c = Inr w"
  shows "finds w w DRIZZLE = Some (DatabaseModule c)"
    and "BankModule c = Inr bm \<Longrightarrow> finds w w BANK = Some bm \<and> finds w w BREAKER = Some bm"
  using assms(2) bank_provider_loaded [OF assms(1)]
  by (auto intro!: found simp: WorkerModule_loaded [OF assms(1)] BankModule_def wiring)

end

subsection \<open>A container\<close>

text \<open>The documented exports of the packages, and a search in the order of the rule.\<close>

fun listed_offers :: "library_module \<Rightarrow> token \<Rightarrow> bool" where
  "listed_offers (BullQueues qs) (QueueToken q) \<longleftrightarrow> q \<in> set qs"
| "listed_offers LoggerModule (LoggerToken x) \<longleftrightarrow> True"
| "listed_offers TerminusModule (ClassToken x) \<longleftrightarrow> x = ''HealthCheckService''"
| "listed_offers _ _ \<longleftrightarrow> False"

definition search :: "nest_module \<Rightarrow> nest_module \<Rightarrow> token \<Rightarrow> nest_module option" where
  "search rt m t =
     (if t \<in> set (provides m) then Some m
      else case imported_from listed_offers t m of
          h # hs \<Rightarrow> Some h
        | [] \<Rightarrow> (case t of
              LoggerToken x \<Rightarrow> if Library LoggerModule \<in> set (modules rt) then Some (Library LoggerModule) else None
            | _ \<Rightarrow> None))"

interpretation searching: nest_container listed_offers search
  by unfold_locales (auto simp: search_def neq_Nil_conv)

subsection \<open>What runs where\<close>

lemma process_services:
  "process_loops (AppModule c) = []" "process_consumes (AppModule c) = []"
  "process_loops (RelayModule c) = [RelayService c, ReaperService c, OutboxCleanupService c,
     WebhookDispatcherService c, WebhookReaperService c]"
  "process_consumes (RelayModule c) = []"
  by (simp_all add: process_loops_def process_consumes_def process_classes_def module_defs class_defs map_filter_simps)

lemma worker_services:
  assumes "load_config e = Inr c" "WorkerModule c = Inr w"
  shows "process_loops w = [BankConfigSyncService c]" "process_consumes w = [PAYMENTS_QUEUE, WEBHOOKS_QUEUE]"
  using assms(2)
  by (auto simp: WorkerModule_loaded [OF assms(1)] process_loops_def process_consumes_def process_classes_def
      module_defs class_defs map_filter_simps)

end
