(* ===== verification/LoadTest.thy ===== *)
theory LoadTest
  imports Config
begin

text \<open>
  The load test \<open>scripts/loadtest.mjs\<close>: its settings, the pool of workers that post payments until
  the deadline, as a step relation over the requests in flight, and the figures of its report. The
  GET mode is the package \<open>autocannon\<close> and is left out. Shown: no two posts share an idempotency
  key, so the test measures inserts and not replays; what the totals count; and
  that percentiles are measured latencies in the order of their fractions.
\<close>

subsection \<open>Settings\<close>

record load_settings =
  ld_mode :: string
  ld_base :: string
  ld_duration :: js_number
  ld_connections :: js_number

definition load_settings :: "string option \<Rightarrow> process_env \<Rightarrow> load_settings" where
  "load_settings arg e =
     \<lparr>ld_mode = (case arg of Some m \<Rightarrow> m | None \<Rightarrow> ''post''),
      ld_base = (case e ''API_BASE'' of Some b \<Rightarrow> b | None \<Rightarrow> ''http://localhost:3000''),
      ld_duration = (case e ''DURATION'' of Some d \<Rightarrow> to_number d | None \<Rightarrow> Fin 30),
      ld_connections = (case e ''CONNECTIONS'' of Some d \<Rightarrow> to_number d | None \<Rightarrow> Fin 10)\<rparr>"

subsection \<open>The pool of workers\<close>

text \<open>\<open>lt_flights\<close> holds for each worker the key and the start of the request it awaits.\<close>

record load_pool =
  lt_n :: nat
  lt_flights :: "nat \<rightharpoonup> string \<times> rat"
  lt_keys :: "string list"
  lt_latencies :: "rat list"
  lt_errors :: nat

definition new_pool :: load_pool where
  "new_pool = \<lparr>lt_n = 0, lt_flights = Map.empty, lt_keys = [], lt_latencies = [], lt_errors = 0\<rparr>"

definition load_key :: "nat \<Rightarrow> nat \<Rightarrow> string \<Rightarrow> string" where
  "load_key pid n rnd36 = ''k-'' @ nat_str pid @ ''-'' @ nat_str n @ ''-'' @ rnd36"

definition post_begin :: "nat \<Rightarrow> string \<Rightarrow> rat \<Rightarrow> nat \<Rightarrow> load_pool \<Rightarrow> load_pool" where
  "post_begin pid rnd36 t i s =
     (let key = load_key pid (lt_n s) rnd36
      in s\<lparr>lt_n := lt_n s + 1, lt_flights := (lt_flights s)(i \<mapsto> (key, t)), lt_keys := lt_keys s @ [key]\<rparr>)"

text \<open>A response, or a rejected fetch.\<close>

datatype post_outcome = Post_response bool | Post_rejected

definition post_end :: "post_outcome \<Rightarrow> rat \<Rightarrow> nat \<Rightarrow> load_pool \<Rightarrow> load_pool" where
  "post_end outcome now i s =
     (case lt_flights s i of
        None \<Rightarrow> s
      | Some (key, t) \<Rightarrow>
          (let s' = s\<lparr>lt_flights := (lt_flights s)(i := None)\<rparr>
           in case outcome of
             Post_response okay \<Rightarrow> s'\<lparr>lt_latencies := lt_latencies s @ [f64 (now - t)],
               lt_errors := (if okay then lt_errors s else lt_errors s + 1)\<rparr>
           | Post_rejected \<Rightarrow> s'\<lparr>lt_errors := lt_errors s + 1\<rparr>))"

text \<open>A worker that awaits nothing looks at the clock and posts as long as the deadline is ahead.\<close>

inductive load_step :: "nat \<Rightarrow> nat \<Rightarrow> int \<Rightarrow> load_pool \<Rightarrow> load_pool \<Rightarrow> bool"
  for pid conns :: nat and deadline :: int
where
  load_begin: "i < conns \<Longrightarrow> lt_flights s i = None \<Longrightarrow> clock < deadline \<Longrightarrow>
    load_step pid conns deadline s (post_begin pid rnd36 t i s)"
| load_end: "lt_flights s i \<noteq> None \<Longrightarrow> load_step pid conns deadline s (post_end outcome now i s)"

text \<open>The counter in the key separates the keys of one run, whatever the random part is.\<close>

lemma load_key_inj:
  assumes "load_key pid m r = load_key pid n r'"
  shows "m = n"
proof -
  have "takeWhile is_digit (nat_str k @ ''-'' @ r) = nat_str k" for k r
    using nat_str_digits by (simp add: takeWhile_append is_digit_def list_all_iff)
  moreover from assms have "nat_str m @ ''-'' @ r = nat_str n @ ''-'' @ r'" by (simp add: load_key_def)
  ultimately have "nat_str m = nat_str n" by metis
  then show ?thesis using digits_val_nat_str by metis
qed

definition load_ok :: "nat \<Rightarrow> nat \<Rightarrow> load_pool \<Rightarrow> bool" where
  "load_ok pid conns s \<longleftrightarrow> distinct (lt_keys s) \<and> length (lt_keys s) = lt_n s
     \<and> (\<forall>k \<in> set (lt_keys s). \<exists>n r. n < lt_n s \<and> k = load_key pid n r)
     \<and> dom (lt_flights s) \<subseteq> {..<conns}
     \<and> length (lt_latencies s) + card (dom (lt_flights s)) \<le> lt_n s
     \<and> lt_n s \<le> length (lt_latencies s) + card (dom (lt_flights s)) + lt_errors s"

lemma load_ok_new: "load_ok pid conns new_pool"
  by (simp add: load_ok_def new_pool_def)

lemma load_ok_step:
  assumes "load_step pid conns deadline s s'" "load_ok pid conns s"
  shows "load_ok pid conns s'"
  using assms
proof (cases rule: load_step.cases)
  case (load_begin i clock rnd36 t)
  have fin: "finite (dom (lt_flights s))" using assms(2) by (auto simp: load_ok_def intro: finite_subset)
  have "load_key pid (lt_n s) rnd36 \<notin> set (lt_keys s)" using assms(2) load_key_inj by (fastforce simp: load_ok_def)
  moreover have "card (insert i (dom (lt_flights s))) = Suc (card (dom (lt_flights s)))"
    using fin load_begin by (simp add: domIff)
  moreover have "\<exists>n r. n < Suc (lt_n s) \<and> k = load_key pid n r" if "k \<in> set (lt_keys s)" for k
    using assms(2) that less_SucI unfolding load_ok_def by blast
  ultimately show ?thesis using assms(2) load_begin
    by (auto simp: load_ok_def post_begin_def Let_def)
next
  case (load_end i outcome now)
  then obtain key t where f: "lt_flights s i = Some (key, t)" by auto
  have fin: "finite (dom (lt_flights s))" using assms(2) by (auto simp: load_ok_def intro: finite_subset)
  have "card (dom (lt_flights s)) = Suc (card (dom (lt_flights s) - {i}))"
    using fin f by (intro card.remove) auto
  then show ?thesis using assms(2) load_end(1)
    by (auto simp: load_ok_def post_end_def f Let_def split: post_outcome.split)
qed

definition load_run :: "nat \<Rightarrow> nat \<Rightarrow> int \<Rightarrow> load_pool \<Rightarrow> bool" where
  "load_run pid conns deadline s \<longleftrightarrow> (load_step pid conns deadline)\<^sup>*\<^sup>* new_pool s"

lemma load_run_ok: "load_run pid conns deadline s \<Longrightarrow> load_ok pid conns s"
  unfolding load_run_def by (induction rule: rtranclp_induct) (auto simp: load_ok_new intro: load_ok_step)

lemma load_run_steps: "load_run pid conns deadline s \<Longrightarrow> load_step pid conns deadline s s' \<Longrightarrow> load_run pid conns deadline s'"
  unfolding load_run_def by (rule rtranclp.rtrancl_into_rtrancl)

subsection \<open>The report\<close>

definition pct :: "rat list \<Rightarrow> rat \<Rightarrow> rat" where
  "pct ls p =
     (let i = min (int (length ls) - 1) \<lfloor>f64 (of_nat (length ls) * p)\<rfloor>
      in if 0 \<le> i \<and> i < int (length ls) then ls ! nat i else 0)"

text \<open>The fractions are the doubles of their literals; the rate is rounded half up.\<close>

record load_report =
  rp_total :: nat
  rp_rate :: js_number
  rp_percentiles :: "rat list"
  rp_max :: rat
  rp_errors :: nat

fun js_round :: "js_number \<Rightarrow> js_number" where
  "js_round (Fin x) = Fin (of_int \<lfloor>x + 1 / 2\<rfloor>)"
| "js_round x = x"

fun js_per :: "nat \<Rightarrow> js_number \<Rightarrow> js_number" where
  "js_per n (Fin d) = (if d = 0 then (if n = 0 then NaN else Infinite True) else js_finite (of_nat n / d))"
| "js_per n (Infinite pos) = Fin 0"
| "js_per n NaN = NaN"

definition report :: "js_number \<Rightarrow> nat \<Rightarrow> rat list \<Rightarrow> nat \<Rightarrow> load_report" where
  "report duration tot latencies errs =
     (let ls = sort latencies
      in \<lparr>rp_total = tot, rp_rate = js_round (js_per tot duration),
          rp_percentiles = map (\<lambda>p. pct ls (f64 p)) [0.5, 0.9, 0.95, 0.99],
          rp_max = (if ls = [] then 0 else last ls), rp_errors = errs\<rparr>)"

definition pool_report :: "js_number \<Rightarrow> load_pool \<Rightarrow> load_report" where
  "pool_report duration s = report duration (length (lt_latencies s)) (lt_latencies s) (lt_errors s)"

lemma pct_index:
  assumes "ls \<noteq> []" "0 \<le> p"
  obtains i where "i < length ls" "pct ls p = ls ! i" "int i = min (int (length ls) - 1) \<lfloor>f64 (of_nat (length ls) * p)\<rfloor>"
proof -
  let ?j = "min (int (length ls) - 1) \<lfloor>f64 (of_nat (length ls) * p)\<rfloor>"
  have "f64 0 \<le> f64 (of_nat (length ls) * p)" using assms(2) by (intro f64_mono) simp
  then have "0 \<le> f64 (of_nat (length ls) * p)" using f64_int [of 0] by simp
  moreover have "1 \<le> length ls" using assms(1) by (simp add: Suc_le_eq)
  moreover define m where "m = \<lfloor>f64 (of_nat (length ls) * p)\<rfloor>"
  ultimately have "0 \<le> m" "1 \<le> int (length ls)" by (simp_all add: le_floor_iff)
  then have "0 \<le> ?j" "?j < int (length ls)" unfolding m_def [symmetric] by linarith+
  then have "nat ?j < length ls" "pct ls p = ls ! nat ?j" "int (nat ?j) = ?j"
    unfolding pct_def Let_def by (simp_all only: nat_less_iff if_True simp_thms int_nat_eq)
  then show ?thesis by (rule that)
qed

text \<open>The values before the index of a percentile are at most it, those after at least it.\<close>

lemma pct_sorted:
  assumes "ls \<noteq> []" "0 \<le> p" "p \<le> p'"
  shows "pct (sort ls) p \<in> set ls" "pct (sort ls) p \<le> pct (sort ls) p'" "pct (sort ls) p \<le> last (sort ls)"
proof -
  have ne: "sort ls \<noteq> []" using assms(1) by (metis set_empty set_sort)
  obtain i where i: "i < length ls" "pct (sort ls) p = sort ls ! i"
    "int i = min (int (length ls) - 1) \<lfloor>f64 (of_nat (length ls) * p)\<rfloor>"
    using pct_index [OF ne assms(2)] by auto
  have "0 \<le> p'" using assms(2,3) by simp
  then obtain j where j: "j < length ls" "pct (sort ls) p' = sort ls ! j"
    "int j = min (int (length ls) - 1) \<lfloor>f64 (of_nat (length ls) * p')\<rfloor>"
    using pct_index [OF ne] by (metis length_sort)
  have "f64 (of_nat (length ls) * p) \<le> f64 (of_nat (length ls) * p')"
    using assms(3) by (intro f64_mono mult_left_mono) simp_all
  then have "int i \<le> int j" unfolding i(3) j(3) by (intro min.mono order_refl floor_mono)
  then show "pct (sort ls) p \<le> pct (sort ls) p'" using i j by (simp add: sorted_nth_mono)
  show "pct (sort ls) p \<in> set ls" using i by (metis nth_mem length_sort set_sort)
  show "pct (sort ls) p \<le> last (sort ls)" using i ne by (simp add: last_conv_nth sorted_nth_mono)
qed

text \<open>What the printed totals count: every post is a measured latency, an error, or still in flight.\<close>

lemma report_counts:
  assumes "load_run pid conns deadline s"
  shows "distinct (lt_keys s)"
    and "rp_total (pool_report d s) + card (dom (lt_flights s)) \<le> length (lt_keys s)"
    and "length (lt_keys s) \<le> rp_total (pool_report d s) + card (dom (lt_flights s)) + rp_errors (pool_report d s)"
  using load_run_ok [OF assms] by (auto simp: load_ok_def pool_report_def report_def Let_def)

end
