(* ===== verification/Spec2Isabelle.thy ===== *)
theory Spec2Isabelle
  imports Scenario FanOut Architecture Wiring LoadTest
begin

text \<open>
  Verification library of the payments processor, a TypeScript system of an HTTP API, a relay
  process, worker processes and a web console around Postgres and a job queue.

  \<^bold>\<open>The program and its parts.\<close> A client posts a payment to the API, which stores the payment,
  its first event, an idempotency key and an outbox row in one transaction and answers 202. The
  relay polls the outbox and adds a job per submission row. A worker takes the job, claims the
  payment by a compare-and-swap of its status, asks the bank through a circuit breaker and a
  timeout, and settles the answer in a second transaction: COMPLETED or FAILED with an outbox
  row, or RETRYING with a delayed job until the attempts are used up. A reaper takes payments
  back that were left in PROCESSING or RETRYING. Terminal outbox rows are fanned out by the
  dispatcher to the registered webhook endpoints; the delivery worker posts them signed, with
  its own retries and reaper. The console lists and submits payments, registers endpoints, and
  sets the failure mode of the simulated bank, which the workers poll.

  \<^bold>\<open>Which theory models what\<close> (paths below \<open>apps/api/src\<close> unless said otherwise):

  \<^item> \<open>Prelude\<close>: results in which a thrown error is a value, tables as lists of rows with the
    queries of the data layer, decimal strings, and the rule collections.
  \<^item> \<open>Transitions\<close>, \<open>Money\<close> (\<open>packages/shared/src/index.ts\<close>): statuses, transition map, audit
    trails; the conversion between amount strings and cents, run on doubles.
  \<^item> \<open>JsNumber\<close>, \<open>NumberParse\<close>: binary64 arithmetic as correctly rounded rationals, and
    \<open>Number(s)\<close>. \<open>Config\<close> (\<open>config.ts\<close>): every environment variable with default and bounds.
  \<^item> \<open>Schema\<close> (\<open>database/schema.ts\<close>): one record per table, the record \<open>db\<close> of all tables, and
    the inserts with the keys they can violate. \<open>Ledger\<close>: the contract of status writers.
  \<^item> \<open>Http\<close>, \<open>Pagination\<close>, \<open>Payments\<close> (\<open>payments/\<close>, \<open>common/problem-detail.filter.ts\<close>): validation,
    problem documents, submission with its idempotency, the lists with their cursors.
  \<^item> \<open>Outbox\<close>, \<open>Relay\<close>, \<open>Reaper\<close>, \<open>OutboxCleanup\<close> (\<open>relay/\<close>): the claims under SKIP LOCKED, one
    poll of each service, and the daily partitions on the ECMAScript calendar.
  \<^item> \<open>PollLoop\<close>: the timer loop all six polling services share (\<open>onModuleInit\<close>, \<open>scheduleNext\<close>,
    \<open>tick\<close>, \<open>onApplicationShutdown\<close>), a tick split at its await. \<open>Services\<close>: the six services with
    the settings they read, and their loops on a clock.
  \<^item> \<open>Backoff\<close>, \<open>CircuitBreaker\<close>, \<open>Bank\<close>, \<open>PaymentWorker\<close> (\<open>worker/\<close>, \<open>bank/\<close>): the job handler as
    one function \<open>process\<close> and as the phases claim, call and settle.
  \<^item> \<open>System\<close>: the step relation \<open>sys_step\<close> in which API, relay, reaper and workers interleave;
    the whole handler is shown to be a run of its steps.
    \<open>Retries\<close> and \<open>StoredTypes\<close> prove two invariants of its reachable states, \<open>LateCharges\<close> what
    a late answer of the bank can lead to, \<open>Progress\<close> that no payment is lost and that a restarted
    worker can complete any that is unfinished.
  \<^item> \<open>JobQueue\<close> (\<open>queue/\<close>): the two queues with their options, and what a job store does under them:
    ids are held once, a settled job is kept or removed, a stalled one is given back.
    \<open>QueuedSystem\<close> runs the payment system over such a store and proves that it refines \<open>System\<close>;
    \<open>Stranding\<close> shows which payments can still be completed over it.
  \<^item> \<open>BankConfig\<close> (\<open>admin/\<close>, \<open>bank/bank-config-sync.service.ts\<close>), \<open>Webhooks\<close>, \<open>Dispatcher\<close>,
    \<open>WebhookWorker\<close> (\<open>webhooks/\<close>): chaos control, endpoints, fan-out, signed deliveries.
    \<open>Receiver\<close> (\<open>scripts/webhook-receiver.mjs\<close>): the demo receiver and the worker run against it.
  \<^item> \<open>WebhookSystem\<close>: the step relation \<open>hook_step\<close> of all processes, in which the dispatcher, the
    delivery workers, their reaper and the endpoint API interleave with the steps of \<open>System\<close>,
    and its refinement \<open>core_sys\<close>, which forgets the webhook tables and marks. \<open>Announcements\<close>
    shows what an outbox row of a reachable state says, \<open>WebhookTruth\<close> what a request that was
    sent and a delivery that is marked say, \<open>FanOut\<close> which deliveries an event gets.
    \<open>QueuedWebhooks\<close> runs it over the webhooks queue.
  \<^item> \<open>Platform\<close> (\<open>common/provider-registry.ts\<close>, \<open>metrics/\<close>, \<open>health/\<close>, \<open>worker.ts\<close>): the adapter
    registry, gauges and probes. \<open>Wiring\<close> (the \<open>module.ts\<close> files, the constructors, \<open>main.ts\<close>,
    \<open>worker.ts\<close>, \<open>relay.ts\<close>): what is injected where, and what the three processes run.
    \<open>LoadTest\<close> (\<open>scripts/loadtest.mjs\<close>): the POST mode of the load test.
  \<^item> \<open>WebIds\<close>, \<open>WebClient\<close>, \<open>WebPages\<close> (\<open>apps/web/src\<close>): identifiers and query strings, the fetch
    wrappers, the polling hook, the state of the form and of the pages, and the console run
    against the model of the API through a browser with its CORS rules. \<open>Formats\<close>
    (\<open>lib/api.ts\<close>): how amounts and times are shown.
  \<^item> \<open>Markup\<close>: page trees and what a user can do with them by clicks, Enter and typing.
    \<open>Views\<close>, \<open>ConsoleViews\<close>, \<open>Architecture\<close> (\<open>components/\<close>, \<open>app/\<close>, \<open>lib/architecture.ts\<close>): the
    tree each component and page returns in each state.
  \<^item> \<open>Scenario\<close>: one payment followed through the system, on which the witnesses are evaluated.

  \<^bold>\<open>State and operations.\<close> A transaction is a function from \<open>db\<close> to a result with the new \<open>db\<close>;
  an error leaves the old one. Clocks, ULIDs, random numbers and the rows other transactions
  have locked are arguments. In \<open>System\<close> a queue is the list of the additions ever made to it and
  any of them may be delivered, again and again; one step is one transaction, one queue operation
  or one bank call, workers crash anywhere, calls may take effect after their timeout. In
  \<open>QueuedSystem\<close> and \<open>QueuedWebhooks\<close> the jobs are in a store that is a parameter: it drops an
  addition under an id it holds, hands a job to one worker, and settles it as the options of the queue
  say; their states are those of \<open>System\<close> and \<open>WebhookSystem\<close> with a store beside them.
  Each worker of \<open>System\<close> is a process of its own, with the breaker and the simulated bank in its
  memory (\<open>s_breakers\<close>, \<open>s_banks\<close>) and the calls its adapter has open; \<open>step_throw\<close> is a handler that throws,
  \<open>step_crash\<close> a process that dies and starts again with a fresh breaker and an empty bank. \<open>s_lives\<close>
  counts the restarts. No step reads \<open>s_charged\<close> and \<open>s_charge_count\<close>, which record who charged what.

  \<^bold>\<open>What is shown.\<close> For the system: payments are audited, final and well typed, charged when completed and
  once per life of a process, announced in the
  outbox as their events say, and keep their terms in jobs and calls; retry jobs have fresh ids and
  the store accepts them; which unfinished payments can still be completed, and that every open
  delivery can still be delivered. For each operation: what it does on
  every branch, errors included. For the services: what a poll achieves and preserves, that
  the loop around it survives errors and keeps its interval, and that every dependency is provided. For webhooks: exactly one delivery
  of an event to each endpoint active when it was dispatched, among all processes, that
  deliveries end, that what an endpoint is told is true of the payment and of the bank, that
  delivered means accepted, and that the webhook services leave the payments alone. For numbers:
  exactness of the money conversions, bounds of the backoff and of the configuration. For the
  console: that what it shows is what the API did, which actions each page offers in each state,
  and where it links. Several properties state behaviour that the program's documents do not mean:
  a duplicate job of a finished payment reaches the bank, a restarted worker charges a payment again, a failed probe can wedge the breaker, a
  payment failed by a timeout can be charged, a stale attempt overwrites a delivered row, a
  shutdown during a poll does not end its loop, a payment whose first job throws before its claim
  stays PENDING for good, an interval of a month is a timer of a millisecond, a deleted endpoint still receives, the submission
  form never checks its fields, and large amounts are shown a cent off.

  The interfaces are locales: \<open>status_machine\<close>, \<open>audited_writer\<close> (status writers),
  \<open>bank_port\<close> (the adapter), \<open>outbox_poller\<close> (both consumers of the outbox), \<open>keyset_source\<close> (both
  lists) and \<open>poll_service\<close> (the timer loops), each interpreted on the definitions of the
  components that provide it. Two stand for packages: \<open>bull_queue\<close> (a job store, extended by
  \<open>payments_queue\<close> and \<open>webhooks_queue\<close> with the options of the two queues), interpreted on a
  store of lists, and \<open>nest_container\<close> (the resolution of tokens), interpreted on a search.

  \<^bold>\<open>Bounds.\<close> The reader of the page cursors has fuel; one more than the number of rows is shown to
  be enough. Every other recursion is structural. Batches are at most 100 rows as in the
  queries. Times are integers of milliseconds, attempt counts natural numbers, JSON numbers
  integers, and the doubles of the money and backoff code are rounded at each operation.
  Characters are those of the type \<open>char\<close>. The calendar lemmas reach from 1970 to 9999.

  \<^bold>\<open>Not modelled.\<close> Logging, the routing and the sockets of the framework, migrations,
  the class names and drawings of the console, fractions typed into the chaos page, the GET mode
  of the load test (a package) and the tests. Other currencies than US dollars, the zone of the browser, what React prints for
  a value that is no string and the drawing library are arguments. SHA-256, HMAC, the JSON text,
  ULIDs, the URL check of the validator package, Postgres, the queue and the network are arguments
  or are represented by what the code relies on: atomic transactions, row locks that are skipped,
  and delivery at least once. The delay of a retry job is in the job, but a job store may hand it
  out at any time. The deletion of old outbox rows by
  the cleanup is not a step of the relations; a fetch of a delivery worker and the write after it
  are separate steps, its timeout is an answer of the network, and so is what it gets after the
  redirects that \<open>fetch\<close> follows. A worker process handles one job at a time, as the queue library
  does by default. Errors the JavaScript engine throws have their name as text: the engines word them differently.
\<close>

section \<open>The system\<close>

text \<open>C1: whatever the interleaving of API, relay, reaper, workers and
  crashes, the events of every payment are a trail of the state machine from its creation to
  its status, its version counts them, and its attempt counter counts those that use up the
  retry budget.\<close>

theorem every_payment_is_audited:
  assumes "reachable cfg s" "p \<in> set (payments (s_db s))"
  shows "audit_trail canTransition PENDING (map event_move (history (p_id p) (s_db s))) (status p)
    \<and> version p + 1 = length (history (p_id p) (s_db s))
    \<and> attemptCount p = count_where budget_event (history (p_id p) (s_db s))"
  using reachable_ledger_ok [OF assms(1)] assms(2)
  by (simp add: ledger_ok_def audit_ok_def payment_audited_def history_def)

theorem every_payment_is_audited_witness:
  "audit_trail canTransition PENDING (map event_move (history ''p1'' demo_d3)) COMPLETED
   \<and> length (history ''p1'' demo_d3) = 3 \<and> count_where budget_event (history ''p1'' demo_d3) = 0"
  using every_payment_is_audited [OF demo_s3_reachable, of demo_final] by simp

text \<open>C2: a payment that has reached COMPLETED or FAILED keeps its row
  and its events through every later step of the system.\<close>

theorem finished_payments_are_final:
  assumes "(sys_step cfg)\<^sup>*\<^sup>* s s'" "reachable cfg s"
    and "p \<in> set (payments (s_db s))" "is_terminal (status p)"
  shows "p \<in> set (payments (s_db s')) \<and> history (p_id p) (s_db s') = history (p_id p) (s_db s)"
  by (rule steps_terminal [OF assms])

theorem finished_payments_are_final_witness:
  "demo_final \<in> set (payments (s_db (set_worker 0 Idle demo_s3)))"
proof -
  have "(sys_step demo_cfg)\<^sup>*\<^sup>* demo_s3 (set_worker 0 Idle demo_s3)"
    using step_throw [of demo_cfg demo_s3 0] by blast
  from finished_payments_are_final [OF this demo_s3_reachable, of demo_final] show ?thesis by simp
qed

text \<open>C3: a COMPLETED payment has been charged, and every charge is of a
  stored payment. Each worker process asks an adapter of its own, whose charges are lost with the
  process: in one life a process charges a payment once, however often its job is redelivered,
  retried, reaped or answered late, and its counter counts the payments it charged. So all
  charges together are as many as the triples of worker, life and charged payment, and as many as the
  charged payments if one life of one worker made them all.\<close>

theorem completed_payments_are_charged:
  assumes "reachable cfg s"
  shows "(p \<in> set (payments (s_db s)) \<and> status p = COMPLETED \<longrightarrow> (\<exists>i n. (i, n, p_id p) \<in> s_charged s))
    \<and> (\<forall>(i, n, k) \<in> s_charged s. k \<in> p_id ` set (payments (s_db s)))
    \<and> (\<forall>i. getCharges (s_banks s i) = card {k. (i, s_lives s i, k) \<in> s_charged s})
    \<and> s_charge_count s = card (s_charged s)
    \<and> (s_charged s \<subseteq> {(i, n, k). i = i0 \<and> n = n0} \<longrightarrow> s_charge_count s = card (charged s))"
proof -
  have h: "history_ok s" by (rule reachable_history_ok [OF assms])
  have "getCharges (s_banks s i) = card {k. (i, s_lives s i, k) \<in> s_charged s}" for i
    using h by (simp add: history_ok_def sim_bank_inv_def charged_keys_def getCharges_def)
  moreover have "card (s_charged s) = card (charged s)" if "s_charged s \<subseteq> {(i, n, k). i = i0 \<and> n = n0}"
    using that unfolding charged_def by (intro card_image [symmetric]) (auto simp: inj_on_def)
  moreover have "s_charge_count s = card (s_charged s)" using h by (simp add: history_ok_def)
  moreover have "\<exists>i n. (i, n, p_id p) \<in> s_charged s" if "p \<in> set (payments (s_db s))" "status p = COMPLETED"
  proof -
    have "p_id p \<in> charged s" using reachable_completed [OF assms] that by (simp add: completed_in_def)
    then show ?thesis by (auto simp: charged_def)
  qed
  moreover have "\<forall>(i, n, k) \<in> s_charged s. k \<in> p_id ` set (payments (s_db s))"
    using reachable_charges_known [OF assms] by (auto simp: charged_def)
  ultimately show ?thesis by (intro conjI impI allI) simp_all
qed

theorem completed_payments_are_charged_witness:
  "(\<exists>i n. (i, n, ''p1'') \<in> s_charged demo_s3) \<and> s_charge_count demo_s3 = card (charged demo_s3)
   \<and> getCharges demo_bank = card {k. (0, 0, k) \<in> s_charged demo_s3}"
proof -
  note c = completed_payments_are_charged [OF demo_s3_reachable, of demo_final 0 0]
  have "\<exists>i n. (i, n, p_id demo_final) \<in> s_charged demo_s3" by (rule mp [OF conjunct1 [OF c]]) simp
  moreover have "s_charge_count demo_s3 = card (charged demo_s3)"
    using c [THEN conjunct2, THEN conjunct2, THEN conjunct2, THEN conjunct2] by simp
  moreover have "getCharges (s_banks demo_s3 0) = card {k. (0, s_lives demo_s3 0, k) \<in> s_charged demo_s3}"
    using c [THEN conjunct2, THEN conjunct2, THEN conjunct1] by blast
  ultimately show ?thesis by simp
qed

text \<open>C7: the outbox rows of a payment are its submission row and, once
  it is COMPLETED or was FAILED by the bank, one terminal row; a payment FAILED because its
  retries ran out has no terminal row.\<close>

theorem outbox_follows_status:
  assumes "reachable cfg s" "p \<in> set (payments (s_db s))"
  shows "outbox_of (p_id p) (s_db s) = ''payment.submitted'' #
    (case status p of
       COMPLETED \<Rightarrow> [''payment.completed'']
     | FAILED \<Rightarrow> if budget_event (last (history (p_id p) (s_db s))) then [] else [''payment.failed'']
     | _ \<Rightarrow> [])"
  using outbox_of_payment [OF _ reachable_outbox_ok [OF assms(1)] assms(2)]
    reachable_ledger_ok [OF assms(1)]
  by (simp add: ledger_ok_def history_def)

theorem outbox_follows_status_witness:
  "outbox_of ''p1'' demo_d3 = [''payment.submitted'', ''payment.completed'']"
  using outbox_follows_status [OF demo_s3_reachable, of demo_final] by simp

text \<open>The history of a payment has one event into a terminal status when the
  payment is finished and none before.\<close>

theorem one_terminal_event:
  assumes "reachable cfg s" "p \<in> set (payments (s_db s))"
  shows "count_where (\<lambda>e. is_terminal (toStatus e)) (history (p_id p) (s_db s))
    = (if is_terminal (status p) then 1 else 0)"
proof -
  have tr: "audit_trail canTransition PENDING (map event_move (history (p_id p) (s_db s))) (status p)"
    using reachable_ledger_ok [OF assms(1)] assms(2)
    by (simp add: ledger_ok_def audit_ok_def payment_audited_def history_def)
  have "count_where (\<lambda>e. is_terminal (snd e)) (map event_move es)
      = count_where (\<lambda>e. is_terminal (toStatus e)) es" for es
    by (induction es) (simp_all add: event_move_def)
  then show ?thesis using pay.trail_terminal_count [OF tr] by simp
qed

theorem one_terminal_event_witness:
  "count_where (\<lambda>e. is_terminal (toStatus e)) (history ''p1'' demo_d3) = 1"
  using one_terminal_event [OF demo_s3_reachable, of demo_final] by simp

text \<open>C18: every job in the queue and every bank call in flight
  names a payment of the database with that payment's amount and currency, and the call is
  keyed by the payment's id.\<close>

theorem jobs_and_calls_carry_the_payment:
  assumes "reachable cfg s"
  shows "(\<forall>j \<in> set (s_queue s). agrees (s_db s) (job_payload j))
    \<and> (\<forall>(k, req) \<in> set (s_calls s). \<exists>p \<in> set (payments (s_db s)). br_idempotencyKey req = p_id p
         \<and> br_amountCents req = amountCents p \<and> br_currency req = currency p)"
proof -
  have ok: "jobs_agree s" using reachable_jobs_agree [OF assms] .
  have "\<exists>p \<in> set (payments (s_db s)). br_idempotencyKey req = p_id p
         \<and> br_amountCents req = amountCents p \<and> br_currency req = currency p"
    if r: "call_agrees (s_db s) req" for req
  proof -
    from r obtain jd where jd: "req = authorize_request jd" "agrees (s_db s) jd" by (auto simp: call_agrees_def)
    then show ?thesis unfolding agrees_def by (elim bexE) (auto simp: authorize_request_def intro!: bexI)
  qed
  then show ?thesis using ok by (auto simp: jobs_agree_def)
qed

theorem jobs_and_calls_carry_the_payment_witness: "agrees demo_d2 (job_payload demo_job)"
  using jobs_and_calls_carry_the_payment [OF demo_s2_reachable] by simp

section \<open>Submission\<close>

text \<open>C8: in any sequence of submissions, those of one customer and
  idempotency key that succeed all answer with the same payment; the key has one row, and
  payments and keys correspond one to one.\<close>

theorem one_payment_per_key:
  assumes "keys_wf d" and "su_scope s = su_scope t"
    and "(s, Inr r) \<in> set (zip ss (fst (submit_all ss d)))" "(t, Inr q) \<in> set (zip ss (fst (submit_all ss d)))"
  shows "body r = body q
    \<and> count_where (\<lambda>k. (i_customerId k, idempotencyKey k) = su_scope s)
        (idempotencyKeys (snd (submit_all ss d))) = 1
    \<and> map i_paymentId (idempotencyKeys (snd (submit_all ss d))) = map p_id (payments (snd (submit_all ss d)))"
proof -
  let ?d = "snd (submit_all ss d)" and ?sc = "\<lambda>k. (i_customerId k, idempotencyKey k)"
  have wf: "keys_wf ?d" by (rule keys_wf_submit_all [OF assms(1)])
  from submit_all_answer [OF assms(3)] obtain x
    where x: "find_key (fst (su_scope s)) (snd (su_scope s)) ?d = Some x" by blast
  have "count_where (\<lambda>k. ?sc k = su_scope s) (idempotencyKeys ?d) \<le> 1"
    using wf by (intro count_where_distinct [where k = ?sc and x = "su_scope s"]) (simp_all add: keys_wf_def)
  moreover have "count_where (\<lambda>k. ?sc k = su_scope s) (idempotencyKeys ?d) \<noteq> 0"
    using find_key_Some_in [OF x] by (auto simp: count_where_0 intro!: bexI [of _ x])
  ultimately show ?thesis
    using submit_all_one_body [OF assms(3,4,2)] wf by (simp add: keys_wf_def)
qed

theorem one_payment_per_key_witness:
  "body \<lparr>replayed = False, sr_status = 202, body = demo_row\<rparr> = body \<lparr>replayed = True, sr_status = 202, body = demo_row\<rparr>
   \<and> map i_paymentId (idempotencyKeys demo_d1) = [''p1'']"
  using one_payment_per_key [OF keys_wf_empty refl, of demo_su "\<lparr>replayed = False, sr_status = 202, body = demo_row\<rparr>"
      "[demo_su, demo_su]" "\<lparr>replayed = True, sr_status = 202, body = demo_row\<rparr>"]
  unfolding demo_submit_all
  by (simp add: demo_d1_def submitted_db_def empty_db_def Let_def demo_env_def)

text \<open>C16: a valid submission with a key creates the payment with its event,
  key and outbox row and answers 202 if the key is new; answers with the recorded payment,
  changing nothing, if the key was used for the same request; and answers 409, changing
  nothing, if it was used for another.\<close>

theorem submission_is_answered:
  assumes "pipe_create_payment fs = Inr dto" "k \<noteq> []"
    and "convAmountToUnits (dto_amount dto) = Inr c" "submit_env_fresh en d"
  shows "case find_key (dto_customerId dto) k d of
      None \<Rightarrow> create_payment hash fs (Some k) reqId en d
        = (Inr \<lparr>ar_status = 202, ar_location = ''/v1/payments/'' @ se_id en,
               ar_body = payment_row dto \<lfloor>c\<rfloor> en\<rparr>,
           submitted_db dto \<lfloor>c\<rfloor> k (hash dto) reqId en d, Some Accepted)
    | Some x \<Rightarrow>
        if requestHash x = hash dto
        then create_payment hash fs (Some k) reqId en d
          = (Inr \<lparr>ar_status = 202, ar_location = ''/v1/payments/'' @ p_id (responseBody x),
                 ar_body = responseBody x\<rparr>, d, Some Replayed)
        else \<exists>e. create_payment hash fs (Some k) reqId en d = (Inl e, d, Some Errored)
          \<and> submit_http_status (Inl e) = 409"
proof (cases "find_key (dto_customerId dto) k d")
  case None
  then show ?thesis
    using insert_txn_new [OF assms(3,4)] assms(1,2) by (simp add: create_payment_def)
next
  case (Some x)
  then show ?thesis
    using insert_txn_used_key [OF assms(3)] assms(1,2)
    by (simp add: create_payment_def submit_http_status_def problem_status)
qed

theorem submission_is_answered_witness:
  "create_payment (\<lambda>_. ''h1'') demo_fields (Some ''k1'') ''r1'' demo_env empty_db
   = (Inr \<lparr>ar_status = 202, ar_location = ''/v1/payments/p1'', ar_body = demo_row\<rparr>, demo_d1, Some Accepted)"
proof -
  have amount: "convAmountToUnits (dto_amount demo_dto) = Inr 1250" by (simp add: demo_dto_def demo_amount)
  show ?thesis
    using submission_is_answered [OF demo_pipe _ amount demo_fresh, of "''k1''" "\<lambda>_. ''h1''" "''r1''"]
    by (simp add: demo_no_key demo_d1_def demo_row_def demo_env_def)
qed

text \<open>C17: a submission that is answered with an error leaves the
  database as it was, and the error is a 400, a 409 or a 500.\<close>

theorem failed_submission_changes_nothing:
  assumes "create_payment hash fs key reqId en d = (Inl e, d', out)"
  shows "d' = d \<and> submit_http_status (Inl e) \<in> {400, 409, 500}"
proof -
  have txn: "d1 = d \<and> submit_http_status (Inl e1) \<in> {400, 409, 500}"
    if i: "insert_txn dto k h c en d = (Inl e1, d1)" for dto k h c d1 e1
  proof
    show "d1 = d" using insert_txn_atomic [OF i] by auto
    have "e2 = UniqueViolation \<or> (\<exists>code. e2 = DbError code)"
      if "submit_txn dto x k h c en d = Inl e2" for x e2
      using that
      by (auto simp: submit_txn_def Let_def insert_payment_def insert_event_def insert_idempotency_key_def
          insert_outbox_def insert_row_def split: if_splits)
    moreover have "\<exists>m. e1 = PlainError m" if "convAmountToUnits (dto_amount dto) = Inl e1"
      using that by (auto simp: convAmountToUnits_def Let_def split: if_splits option.splits js_number.splits)
    ultimately show "submit_http_status (Inl e1) \<in> {400, 409, 500}" using i
      by (fastforce simp: insert_txn_def submit_http_status_def problem_status
          split: sum.splits option.splits if_splits prod.splits)
  qed
  show ?thesis using assms txn
    by (auto simp: create_payment_def pipe_create_payment_def submit_http_status_def problem_status
        split: sum.splits option.splits if_splits prod.splits list.splits)
qed

theorem failed_submission_changes_nothing_witness:
  "create_payment (\<lambda>_. ''h1'') demo_fields None ''r1'' demo_env empty_db
     = (Inl (HttpException 400 ''Idempotency-Key header required''), empty_db, None)
   \<and> submit_http_status (Inl (HttpException 400 ''Idempotency-Key header required'')) \<in> {400, 409, 500}"
proof -
  have "create_payment (\<lambda>_. ''h1'') demo_fields None ''r1'' demo_env empty_db
     = (Inl (HttpException 400 ''Idempotency-Key header required''), empty_db, None)"
    by (simp add: create_payment_def demo_pipe)
  with failed_submission_changes_nothing [OF this] show ?thesis by simp
qed

section \<open>The worker\<close>

text \<open>C14: when the bank authorizes or declines in time, the payment of
  the job ends COMPLETED or FAILED with two more versions, a claim and a final event and one
  outbox row; the breaker is closed and no job is added.\<close>

theorem answered_payment_is_settled:
  assumes dist: "distinct (map p_id (payments (ws_db w)))"
    and p: "p \<in> set (payments (ws_db w))" "p_id p = jd_paymentId jd" "canTransition (status p) PROCESSING"
    and fresh: "env_fresh en (ws_db w)"
    and bank: "cb_allow (breaker_cfg cfg) (bk_allow_time (call_env en)) (ws_breaker w) = (True, br)"
      "call (authorize_request jd) (ws_bank w) = (Some (t, Resolves out), b)" "t \<le> timer_ms (BANK_TIMEOUT_MS cfg)"
    and out: "\<not> is_retry (disposition_of out)"
  shows "\<exists>w' q. process cfg call en jd w = (Inr (), w') \<and> q \<in> set (payments (ws_db w')) \<and> same_terms p q
    \<and> status q = target (disposition_of out) \<and> is_terminal (status q)
    \<and> version q = version p + 2 \<and> attemptCount q = attemptCount p
    \<and> history (p_id p) (ws_db w') = history (p_id p) (ws_db w)
        @ [claim_event jd (status p) (claim_env en), final_event jd (disposition_of out) (settle_env en)]
    \<and> outbox (ws_db w') = outbox (ws_db w) @ [final_outbox jd (disposition_of out) (settle_env en)]
    \<and> getState (ws_breaker w') = CLOSED \<and> ws_jobs w' = ws_jobs w"
proof -
  let ?dis = "disposition_of out"
  let ?q = "final_row (target ?dis) (tx_time (settle_env en)) (claim_row (tx_time (claim_env en)) p)"
  note phase = bank_phase_answer [where call = call, OF bank(1,2) settle_call_answer [OF bank(3)]]
  have "is_terminal (target ?dis)" using out by (cases ?dis) auto
  moreover have "same_terms p ?q" by (simp add: same_terms_def final_row_def claim_row_def)
  moreover have "cb_state (cb_record c n True x) = CLOSED" for c n x by (simp add: cb_record_def)
  ultimately show ?thesis
    using p out unfolding process_final [OF dist p fresh phase out]
    by (auto simp: in_update_where history_def claim_event_def final_event_def getState_def intro!: exI [of _ ?q])
qed

theorem answered_payment_is_settled_witness:
  "\<exists>w' q. process demo_cfg sim_call demo_penv demo_jd demo_w = (Inr (), w')
    \<and> q \<in> set (payments (ws_db w')) \<and> status q = COMPLETED \<and> version q = 2"
proof -
  have "call_env demo_penv = \<lparr>bk_allow_time = 3001, bk_record_time = 3200\<rparr>" by (simp add: demo_penv_def)
  then have allow: "cb_allow (breaker_cfg demo_cfg) (bk_allow_time (call_env demo_penv)) (ws_breaker demo_w) = (True, new_breaker 0)"
    by (simp add: cb_allow_def demo_w_def new_breaker_def)
  have call: "sim_call (authorize_request demo_jd) (ws_bank demo_w) = (Some (200, Resolves (Authorized ''bank_p1'')), demo_bank)"
    by (simp add: sim_call_def demo_w_def demo_authorize) (simp add: new_bank_def timer_ms_def)
  have "distinct (map p_id (payments (ws_db demo_w)))" "demo_row \<in> set (payments (ws_db demo_w))"
    "env_fresh demo_penv (ws_db demo_w)" "(200 :: int) \<le> timer_ms (BANK_TIMEOUT_MS demo_cfg)"
    by (simp_all add: demo_w_def demo_d2_tables demo_env_fresh demo_cfg_def timer_ms_def)
  from answered_payment_is_settled [where call = sim_call, OF this(1,2) _ _ this(3) allow call this(4)] show ?thesis by force
qed

text \<open>C15: when the bank phase asks for a retry, the attempt is
  counted with its reason; within the budget the payment is RETRYING and one job carries the
  attempt's number and a delay between half of the capped exponential and all of it, beyond
  the budget the payment is FAILED with an event that says so, with no job. No outbox row is
  written in either case.\<close>

theorem retry_is_scheduled_or_exhausted:
  assumes dist: "distinct (map p_id (payments (ws_db w)))"
    and p: "p \<in> set (payments (ws_db w))" "p_id p = jd_paymentId jd" "canTransition (status p) PROCESSING"
    and fresh: "env_fresh en (ws_db w)"
    and bank: "bank_phase cfg call (call_env en) jd (ws_breaker w) (ws_bank w) = (Inr (Retry reason), br, b, ls)"
    and cfg: "BASE_MS cfg = of_nat base" "CAP_MS cfg = of_nat cap" "0 < base" "cap \<le> 2 ^ 53"
      "0 \<le> rnd en" "rnd en \<le> 1"
  shows "\<exists>w' q adds. process cfg call en jd w = (Inr (), w') \<and> ws_jobs w' = ws_jobs w @ adds
    \<and> q \<in> set (payments (ws_db w')) \<and> same_terms p q \<and> attemptCount q = attemptCount p + 1
    \<and> lastErrorCode q = Some reason \<and> outbox (ws_db w') = outbox (ws_db w)
    \<and> history (p_id p) (ws_db w') = history (p_id p) (ws_db w)
        @ [claim_event jd (status p) (claim_env en), retry_event jd q reason (settle_env en)]
    \<and> (if attemptCount p < MAX_RETRIES cfg
       then status q = RETRYING \<and> (\<exists>ms. adds = [retry_job jd (attemptCount q) (Fin ms)]
          \<and> of_nat (backoff_exp base cap (int (attemptCount q))) / 2 \<le> ms
          \<and> ms \<le> of_nat (backoff_exp base cap (int (attemptCount q))))
       else status q = FAILED \<and> adds = []
          \<and> metadata (retry_event jd q reason (settle_env en)) = Some (exhausted_metadata reason))"
proof -
  let ?upd = "retry_row (MAX_RETRIES cfg) reason (tx_time (settle_env en)) \<circ> claim_row (tx_time (claim_env en))"
  let ?q = "?upd p"
  obtain ms where ms: "computeBackoffMs (of_nat base) (of_nat cap) (rnd en) (int (attemptCount p + 1)) = Inr (Fin ms)"
      "of_nat (backoff_exp base cap (int (attemptCount p + 1))) / 2 \<le> ms"
      "ms \<le> of_nat (backoff_exp base cap (int (attemptCount p + 1)))"
    using computeBackoffMs_bounds [OF cfg(3,4) _ cfg(5,6), of "int (attemptCount p + 1)"] by auto
  have sch: "schedule_retry cfg (rnd en) jd (Some (attemptCount p + 1)) = Inr [retry_job jd (attemptCount p + 1) (Fin ms)]"
    using ms(1) by (simp only: schedule_retry_def option.case cfg(1,2) bind_result.simps)
  have q: "same_terms p ?q" "attemptCount ?q = attemptCount p + 1" "lastErrorCode ?q = Some reason"
    "status ?q = (if attemptCount p < MAX_RETRIES cfg then RETRYING else FAILED)"
    by (simp_all add: same_terms_def retry_row_def claim_row_def retry_status_def)
  have meta: "status ?q = FAILED \<Longrightarrow> metadata (retry_event jd ?q reason (settle_env en)) = Some (exhausted_metadata reason)"
    by (simp add: retry_event_def)
  define sch where "sch = (if attemptCount p + 1 > MAX_RETRIES cfg then None else Some (attemptCount p + 1))"
  define adds where "adds = (if attemptCount p < MAX_RETRIES cfg then [retry_job jd (attemptCount ?q) (Fin ms)] else [])"
  have sched: "schedule_retry cfg (rnd en) jd sch = Inr adds"
    using sch by (simp add: sch_def adds_def schedule_retry_def)
  note run = process_retry [OF dist p fresh bank, folded sch_def, unfolded sched, unfolded sum.case]
  have row: "?q \<in> set (update_where (\<lambda>x. p_id x = p_id p) ?upd (payments (ws_db w)))"
    using p(1) by (auto simp: in_update_where)
  show ?thesis
    by (intro exI [of _ ?q] exI [of _ adds] exI, intro conjI, rule run)
      (use row p(2) q meta ms(2,3) in \<open>auto simp: history_def claim_event_def retry_event_def adds_def
         simp del: comp_apply intro!: exI [of _ ms]\<close>)
qed

theorem retry_is_scheduled_or_exhausted_witness:
  "\<exists>w' q ms. process demo_cfg sim_call demo_penv demo_jd (demo_w\<lparr>ws_bank := new_bank\<lparr>sb_mode := Always_error\<rparr>\<rparr>)
     = (Inr (), w') \<and> q \<in> set (payments (ws_db w')) \<and> status q = RETRYING
   \<and> ws_jobs w' = [demo_job, retry_job demo_jd 1 (Fin ms)] \<and> 500 \<le> ms \<and> ms \<le> 1000"
proof -
  let ?w = "demo_w\<lparr>ws_bank := new_bank\<lparr>sb_mode := Always_error\<rparr>\<rparr>"
  have t: "distinct (map p_id (payments (ws_db ?w)))" "demo_row \<in> set (payments (ws_db ?w))"
    "env_fresh demo_penv (ws_db ?w)"
    by (simp_all add: demo_w_def demo_d2_tables demo_env_fresh)
  have call: "sim_call (authorize_request demo_jd) (ws_bank ?w)
      = (Some (200, Resolves (BankError True ''bank_unavailable'')), ws_bank ?w)"
    by (simp add: sim_call_def authorize_def new_bank_def timer_ms_def)
  have allow: "cb_allow (breaker_cfg demo_cfg) (bk_allow_time (call_env demo_penv)) (ws_breaker ?w) = (True, new_breaker 0)"
    by (simp add: cb_allow_def demo_w_def new_breaker_def)
  have "(200 :: int) \<le> timer_ms (BANK_TIMEOUT_MS demo_cfg)" by (simp add: demo_cfg_def timer_ms_def)
  note phase = bank_phase_answer [where call = sim_call, OF allow call settle_call_answer [OF this]]
  have phase': "bank_phase demo_cfg sim_call (call_env demo_penv) demo_jd (ws_breaker ?w) (ws_bank ?w)
      = (Inr (Retry ''bank_unavailable''), cb_record (breaker_cfg demo_cfg) (bk_record_time (call_env demo_penv)) False (new_breaker 0),
         ws_bank ?w, [''error''])"
    unfolding phase by simp
  have cfg: "BASE_MS demo_cfg = of_nat 1000" "CAP_MS demo_cfg = of_nat 30000" "0 \<le> rnd demo_penv" "rnd demo_penv \<le> 1"
    by (simp_all add: demo_cfg_def demo_penv_def)
  have mx: "MAX_RETRIES demo_cfg = 5" by (simp add: demo_cfg_def)
  from retry_is_scheduled_or_exhausted [OF t(1,2) _ _ t(3) phase' cfg(1,2) _ _ cfg(3,4)]
  obtain w' q adds where w: "process demo_cfg sim_call demo_penv demo_jd ?w = (Inr (), w')"
      "ws_jobs w' = ws_jobs ?w @ adds" "q \<in> set (payments (ws_db w'))" "attemptCount q = attemptCount demo_row + 1"
      "if attemptCount demo_row < MAX_RETRIES demo_cfg
       then status q = RETRYING \<and> (\<exists>ms. adds = [retry_job demo_jd (attemptCount q) (Fin ms)]
          \<and> of_nat (backoff_exp 1000 30000 (int (attemptCount q))) / 2 \<le> ms
          \<and> ms \<le> of_nat (backoff_exp 1000 30000 (int (attemptCount q))))
       else status q = FAILED \<and> adds = []
          \<and> metadata (retry_event demo_jd q ''bank_unavailable'' (settle_env demo_penv))
            = Some (exhausted_metadata ''bank_unavailable'')"
    by auto
  moreover have "backoff_exp 1000 30000 1 = 1000" by (simp add: backoff_exp_def)
  ultimately show ?thesis by (auto simp: mx demo_w_def)
qed

text \<open>C24: the claim of a job whose payment is finished does
  nothing, but the handler goes on to the bank: with an authorizing bank that has not seen
  the key, a FAILED payment's duplicate job charges it and leaves it FAILED.\<close>

theorem finished_payment_is_still_charged:
  assumes dist: "distinct (map p_id (payments (ws_db w)))"
    and fin: "\<forall>p \<in> set (payments (ws_db w)). p_id p = jd_paymentId jd \<longrightarrow> is_terminal (status p)"
    and allow: "getState (ws_breaker w) = CLOSED"
    and bank: "sb_mode (ws_bank w) = Always_authorize" "store (ws_bank w) (jd_paymentId jd) = None"
  shows "\<exists>w'. process cfg sim_call en jd w = (Inr (), w') \<and> ws_db w' = ws_db w
    \<and> getCharges (ws_bank w') = getCharges (ws_bank w) + 1
    \<and> jd_paymentId jd \<in> charged_keys (ws_bank w')"
proof -
  obtain out b where a: "authorize (authorize_request jd) (ws_bank w) = (out, b)"
    "charges b = charges (ws_bank w) + 1" "jd_paymentId jd \<in> charged_keys b"
    using bank by (simp add: authorize_def authorize_request_def charge_def Let_def charged_keys_def)
  obtain dis br ls where phase: "bank_phase cfg sim_call (call_env en) jd (ws_breaker w) (ws_bank w) = (Inr dis, br, b, ls)"
    using a(1) allow
    by (cases "timer_ms (sb_latencyMs (ws_bank w)) \<le> timer_ms (BANK_TIMEOUT_MS cfg)")
      (simp_all add: bank_phase_def sim_call_def cb_allow_def getState_def settle_call_answer settle_call_late)
  show ?thesis using process_terminal [OF dist fin phase] a(2,3) by (auto simp: getCharges_def)
qed

theorem finished_payment_is_still_charged_witness:
  "\<exists>w'. process demo_cfg sim_call demo_penv demo_jd (demo_w\<lparr>ws_db := demo_d2\<lparr>payments := [demo_row\<lparr>status := FAILED\<rparr>]\<rparr>\<rparr>) = (Inr (), w')
    \<and> payments (ws_db w') = [demo_row\<lparr>status := FAILED\<rparr>] \<and> getCharges (ws_bank w') = 1"
  using finished_payment_is_still_charged
    [of "demo_w\<lparr>ws_db := demo_d2\<lparr>payments := [demo_row\<lparr>status := FAILED\<rparr>]\<rparr>\<rparr>" demo_jd demo_cfg demo_penv]
  by (auto simp: demo_w_def new_breaker_def getState_def new_bank_def getCharges_def)

section \<open>The breaker and the bank\<close>

text \<open>C26: after any sequence of \<open>allow\<close> and \<open>record\<close> calls on a fresh breaker,
  it is closed while fewer failures than the threshold were recorded since the last success, and
  lets every call through. From then on it is open, refuses calls until the cooldown since the last
  recorded failure is over, lets one through, and is half-open and refuses all until the next
  record. A failed probe leaves it open with the cooldown started again: the branch of \<open>record\<close> for
  a half-open breaker only says what the count of failures, kept from before, says too.\<close>

theorem breaker_opens_after_threshold:
  assumes "1 \<le> FAILURE_THRESHOLD cfg"
  shows "(let b = breaker_run cfg cs (new_breaker t0); n = failures_since (rev cs);
           sent = probe_sent cfg (rev cs)
     in getState b = (if n < FAILURE_THRESHOLD cfg then CLOSED else if sent then HALF_OPEN else OPEN)
      \<and> failures b = n
      \<and> (fst (cb_allow cfg now b) \<longleftrightarrow>
          n < FAILURE_THRESHOLD cfg \<or> \<not> sent \<and> OPEN_MS cfg \<le> now - last_failure (rev cs)))"
  using breaker_run_spec [OF assms, of cs t0] breaker_run_allows [OF assms, of now cs t0]
  by (simp add: Let_def)

theorem breaker_opens_after_threshold_witness:
  "let cfg = \<lparr>FAILURE_THRESHOLD = 2, OPEN_MS = 10\<rparr>;
       run = (\<lambda>cs. breaker_run cfg cs (new_breaker 0));
       open_cs = [Record 1 False, Record 2 True, Record 3 False, Allow 3, Record 4 False, Allow 5]
   in getState (run open_cs) = OPEN \<and> getState (run (open_cs @ [Allow 14])) = HALF_OPEN
    \<and> getState (run (open_cs @ [Allow 14, Record 15 False])) = OPEN
    \<and> \<not> fst (cb_allow cfg 20 (run (open_cs @ [Allow 14, Record 15 False])))
    \<and> fst (cb_allow cfg 25 (run (open_cs @ [Allow 14, Record 15 False])))"
proof -
  let ?c = "\<lparr>FAILURE_THRESHOLD = 2, OPEN_MS = 10\<rparr>"
  let ?o = "[Record 1 False, Record 2 True, Record 3 False, Allow 3, Record 4 False, Allow 5]"
  note t = breaker_opens_after_threshold [of ?c _ 0, simplified Let_def]
  show ?thesis
    using t [of ?o 0] t [of "?o @ [Allow 14]" 0] t [of "?o @ [Allow 14, Record 15 False]" 20]
      t [of "?o @ [Allow 14, Record 15 False]" 25]
    by (simp add: Let_def)
qed

text \<open>An open breaker refuses every call during the cooldown,
  lets the first call after it through and refuses all others until an outcome is recorded.\<close>

theorem breaker_lets_one_probe_through:
  assumes "getState b = OPEN" "\<forall>t \<in> set ts. t - openedAt b < OPEN_MS cfg" "OPEN_MS cfg \<le> t - openedAt b"
  shows "fst (allow_all cfg (ts @ t # us) b)
    = replicate (length ts) False @ True # replicate (length us) False"
  using one_probe [of b ts cfg t us] assms by (simp add: getState_def)

theorem breaker_lets_one_probe_through_witness:
  "fst (allow_all \<lparr>FAILURE_THRESHOLD = 2, OPEN_MS = 10\<rparr> [1, 5, 12, 13, 40] \<lparr>cb_state = OPEN, openedAt = 0, failures = 2\<rparr>)
   = [False, False, True, False, False]"
  using breaker_lets_one_probe_through [of "\<lparr>cb_state = OPEN, openedAt = 0, failures = 2\<rparr>" "[1, 5]"
      "\<lparr>FAILURE_THRESHOLD = 2, OPEN_MS = 10\<rparr>" 12 "[13, 40]"]
  by (simp add: getState_def)

text \<open>C27: when the probing call rejects with an error other than the
  timeout, nothing is recorded, and the breaker refuses every later call.\<close>

theorem breaker_stuck_after_failed_probe:
  assumes "getState br = OPEN" "OPEN_MS (breaker_cfg cfg) \<le> bk_allow_time en - openedAt br"
    and "call (authorize_request jd) b = (Some (t, Rejects e), b')" "t \<le> timer_ms (BANK_TIMEOUT_MS cfg)"
    and "\<forall>ms. e \<noteq> BankTimeoutError ms"
  shows "\<exists>br'. bank_phase cfg call en jd br b = (Inl e, br', b', [])
    \<and> fst (allow_all (breaker_cfg cfg) ts br') = replicate (length ts) False"
proof -
  have "settle_call cfg (Some (t, Rejects e)) = (Inl e, [])"
    using assms(4,5) by (cases e) (simp_all add: settle_call_def withTimeout_def)
  moreover have "cb_allow (breaker_cfg cfg) (bk_allow_time en) br = (True, br\<lparr>cb_state := HALF_OPEN\<rparr>)"
    using assms(1,2) by (simp add: cb_allow_def getState_def)
  ultimately have "bank_phase cfg call en jd br b = (Inl e, br\<lparr>cb_state := HALF_OPEN\<rparr>, b', [])"
    using assms(3) by (simp add: bank_phase_def)
  then show ?thesis by (simp add: allow_all_half_open)
qed

theorem breaker_stuck_after_failed_probe_witness:
  "\<exists>br'. bank_phase demo_cfg (\<lambda>_ b. (Some (5, Rejects (PlainError ''ECONNRESET'')), b))
      \<lparr>bk_allow_time = 20000, bk_record_time = 20010\<rparr> demo_jd
      \<lparr>cb_state = OPEN, openedAt = 0, failures = 5\<rparr> new_bank = (Inl (PlainError ''ECONNRESET''), br', new_bank, [])
   \<and> fst (allow_all (breaker_cfg demo_cfg) [30000, 90000] br') = [False, False]"
  using breaker_stuck_after_failed_probe [of "\<lparr>cb_state = OPEN, openedAt = 0, failures = 5\<rparr>" demo_cfg
      "\<lparr>bk_allow_time = 20000, bk_record_time = 20010\<rparr>" "\<lambda>_ b. (Some (5, Rejects (PlainError ''ECONNRESET'')), b)"
      demo_jd new_bank 5 "PlainError ''ECONNRESET''" new_bank "[30000, 90000]"]
  by (simp add: getState_def demo_cfg_def timer_ms_def)

text \<open>However many requests reach the simulated bank and however its
  mode stood, the charges it made are as many as the keys it authorized, all of them keys of
  the requests.\<close>

theorem bank_charges_each_key_once:
  shows "getCharges (snd (auth_all authorize rs new_bank)) = card (charged_keys (snd (auth_all authorize rs new_bank)))
    \<and> charged_keys (snd (auth_all authorize rs (setConfig m n l new_bank))) \<subseteq> br_idempotencyKey ` set rs"
proof -
  have e: "charged_keys new_bank = {}" "getCharges new_bank = 0"
    by (simp_all add: new_bank_def charged_keys_def getCharges_def)
  have "getCharges (snd (auth_all authorize rs new_bank))
      = getCharges new_bank + (card (charged_keys (snd (auth_all authorize rs new_bank))) - card (charged_keys new_bank))"
    unfolding getCharges_def by (rule sim.auth_all_total) (simp_all add: e)
  then show ?thesis using sim.auth_all_charged [of "setConfig m n l new_bank" rs] e by simp
qed

text \<open>C28: after the chaos endpoint has set \<open>fail_n_then_authorize\<close>, the
  worker's poll applies it once; a new payment then fails exactly \<open>n\<close> times and is authorized,
  with one charge, however many polls run between the calls.\<close>

theorem configured_failures_heal:
  assumes row: "bank_config_get d = Some row" and nonull: "ub_latencyMs dto \<noteq> Null"
    and dto: "ub_mode dto = Given Fail_n_then_authorize" "ub_failN dto = Given n"
    and new: "\<And>t. fst st = Some t \<Longrightarrow> t < now" and fresh: "store (snd st) (br_idempotencyKey r) = None"
    and calls: "calls_of acts = replicate (Suc (nat n)) r"
  shows "\<exists>r' d'. bank_config_update dto now d = (Inr (Some r'), d')
    \<and> fst (run_bank d' (Poll # acts) st) = replicate (nat n) (BankError True ''bank_unavailable'')
        @ [Authorized (''bank_'' @ br_idempotencyKey r)]
    \<and> getCharges (snd (snd (run_bank d' (Poll # acts) st))) = getCharges (snd st) + 1"
proof -
  have "ub_mode dto \<noteq> Null" "ub_failN dto \<noteq> Null" using dto by simp_all
  note up = bank_config_get_update [OF row this(1) nonull this(2), of now]
  let ?r = "patch_row dto now row"
  have r: "mode ?r = Fail_n_then_authorize" "failN ?r = nat n" "b_updatedAt ?r = now"
    using dto by (simp_all add: patch_row_def)
  show ?thesis
    using chaos_heals [OF up [THEN conjunct2] r(1) _ fresh, of acts] up new calls unfolding r(2,3) by auto
qed

theorem configured_failures_heal_witness:
  "\<exists>r' d'. bank_config_update \<lparr>ub_mode = Given Fail_n_then_authorize, ub_latencyMs = Undefined, ub_failN = Given 1\<rparr> 50
      (empty_db\<lparr>bankConfig := [\<lparr>b_id = ''singleton'', mode = Always_authorize, latencyMs = 200, failN = 2, b_updatedAt = 10\<rparr>]\<rparr>)
    = (Inr (Some r'), d')
    \<and> fst (run_bank d' [Poll, Call (authorize_request demo_jd), Poll, Call (authorize_request demo_jd)] (Some 10, new_bank))
      = [BankError True ''bank_unavailable'', Authorized ''bank_p1'']"
proof -
  let ?row = "\<lparr>b_id = ''singleton'', mode = Always_authorize, latencyMs = 200, failN = 2, b_updatedAt = 10\<rparr>"
  let ?dto = "\<lparr>ub_mode = Given Fail_n_then_authorize, ub_latencyMs = Undefined, ub_failN = Given 1\<rparr>"
  have row: "bank_config_get (empty_db\<lparr>bankConfig := [?row]\<rparr>) = Some ?row"
    by (simp add: bank_config_get_def BANK_CONFIG_ID_def select_where_def)
  have key: "br_idempotencyKey (authorize_request demo_jd) = ''p1''" by (simp add: authorize_request_def)
  have fresh: "store (snd (Some (10 :: int), new_bank)) (br_idempotencyKey (authorize_request demo_jd)) = None"
    by (simp add: new_bank_def)
  from configured_failures_heal [OF row _ _ _ _ fresh, of ?dto 1 50
      "[Call (authorize_request demo_jd), Poll, Call (authorize_request demo_jd)]"]
  show ?thesis by (auto simp: key simp del: run_bank.simps)
qed

section \<open>Relay, reaper and dispatcher\<close>

text \<open>Whatever a relay poll claims, whichever additions the queue rejects and whether or not its
  update fails, a submission row found published afterwards was published before or its job has
  been added to the queue under its id.\<close>

theorem relay_publishes_before_marking:
  assumes "relay_poll_once locked refuses fails now d = (r, d', adds)"
    and "row' \<in> set (outbox d')" "publishedAt row' \<noteq> None" "eventType row' = ''payment.submitted''"
  shows "(\<exists>row \<in> set (outbox d). o_id row = o_id row' \<and> publishedAt row \<noteq> None)
    \<or> (\<exists>j \<in> set adds. job_id j = o_id row')"
  by (rule relay_no_loss [OF assms])

theorem relay_publishes_before_marking_witness:
  "(\<exists>row \<in> set (outbox demo_d1). o_id row = ''o1'' \<and> publishedAt row \<noteq> None)
   \<or> (\<exists>j \<in> set [demo_job]. job_id j = ''o1'')"
  using relay_publishes_before_marking [OF demo_relay, of "hd (outbox demo_d2)"]
  by (simp add: demo_d2_tables submitted_outbox_def demo_env_def)

text \<open>With nothing locked and a queue that accepts, \<open>n\<close> polls publish
  a backlog of up to a hundred rows each, and touch no payment.\<close>

theorem relay_drains_the_backlog:
  assumes "count_where relay_pending (outbox d) \<le> 100 * n"
  shows "count_where relay_pending (outbox (fst (relay_polls n now d))) = 0
    \<and> payments (fst (relay_polls n now d)) = payments d"
  using relay_drains [OF assms, of now] by (simp add: relay_polls_db)

theorem relay_drains_the_backlog_witness:
  "count_where relay_pending (outbox (fst (relay_polls 1 2000 demo_d1))) = 0"
proof -
  have "length (outbox demo_d1) = 1" by (simp add: demo_d1_def submitted_db_def Let_def empty_db_def)
  then have "count_where relay_pending (outbox demo_d1) \<le> 100 * 1"
    using count_where_le_length [of relay_pending "outbox demo_d1"] by simp
  from relay_drains_the_backlog [OF this, of 2000] show ?thesis by simp
qed

text \<open>C23: with at most a hundred stuck payments and no lock held, a
  reap leaves every stuck payment in RETRYING, one it moved there with its attempt counted
  whatever the budget, and adds a job for each with its amount.\<close>

theorem reaper_recovers_stuck_payments:
  assumes dist: "distinct (map p_id (payments d))"
    and reap: "reap_once dl {} en d = (Inr (), d', jobs)"
    and few: "count_where (is_stuck dl (re_cutoff_now en)) (payments d) \<le> 100"
    and p: "p \<in> set (payments d)" "is_stuck dl (re_cutoff_now en) p"
  shows "(\<exists>q \<in> set (payments d'). same_terms p q \<and> status q = RETRYING
        \<and> attemptCount q = attemptCount p + (if status p = PROCESSING then 1 else 0))
    \<and> (\<exists>j \<in> set jobs. jd_paymentId (job_payload j) = p_id p
        \<and> jd_amountCents (job_payload j) = amountCents p)"
  by (rule reap_recovers [OF assms])

theorem reaper_recovers_stuck_payments_witness:
  "let d = demo_d2\<lparr>payments := [claim_row 3000 demo_row]\<rparr>;
       en = \<lparr>re_cutoff_now = 90000, re_update_now = 90001, re_db_now = 90001, re_enqueue_now = 90002, re_fresh = (\<lambda>i. ''e9'')\<rparr>
   in \<exists>d' jobs. reap_once 60000 {} en d = (Inr (), d', jobs) \<and> (\<exists>q \<in> set (payments d'). status q = RETRYING)"
proof -
  let ?d = "demo_d2\<lparr>payments := [claim_row 3000 demo_row]\<rparr>"
  let ?en = "\<lparr>re_cutoff_now = 90000, re_update_now = 90001, re_db_now = 90001, re_enqueue_now = 90002, re_fresh = (\<lambda>i. ''e9'')\<rparr>"
  have stuck: "is_stuck 60000 90000 (claim_row 3000 demo_row)" by (simp add: is_stuck_def claim_row_def)
  obtain d' jobs where r: "reap_once 60000 {} ?en ?d = (Inr (), d', jobs)"
    using stuck
    by (simp add: reap_once_def reap_txn_def Let_def claim_stuck_def limit_def select_where_def
        insert_event_def insert_row_def reaped_event_def update_where_def demo_d2_tables submitted_event_def demo_env_def)
  from reaper_recovers_stuck_payments [OF _ r, of "claim_row 3000 demo_row"] stuck r show ?thesis
    unfolding Let_def by auto
qed

text \<open>A committed dispatch leaves each event it claimed with
  exactly one delivery to each active endpoint.\<close>

theorem dispatch_reaches_every_endpoint:
  assumes "dispatch_txn locked fresh db_now now d = Inr (rows, d')" "deliveries_unique d"
    and "e \<in> set (claim_rows dispatch_pending locked (outbox d))"
    and "ep \<in> set (webhookEndpoints d)" "active ep"
  shows "count_where (\<lambda>r. eventId r = o_id e \<and> endpointId r = w_id ep) (webhookDeliveries d') = 1
    \<and> deliveries_unique d'"
  using dispatch_txn_delivers [OF assms] dispatch_txn_unique [OF assms(1,2)] by simp

theorem dispatch_reaches_every_endpoint_witness:
  "\<exists>rows d'. dispatch_txn {} (\<lambda>e w. ''d1'') 5000 5001 demo_hooked = Inr (rows, d')
    \<and> count_where (\<lambda>r. eventId r = ''o2'' \<and> endpointId r = ''w1'') (webhookDeliveries d') = 1"
proof -
  obtain rows d' where r: "dispatch_txn {} (\<lambda>e w. ''d1'') 5000 5001 demo_hooked = Inr (rows, d')"
    using demo_dispatch by blast
  have e: "last (outbox demo_d3) \<in> set (claim_rows dispatch_pending {} (outbox demo_hooked))"
    and o: "o_id (last (outbox demo_d3)) = ''o2''"
    by (simp_all add: demo_claim demo_last)
  have "deliveries_unique demo_hooked" by (simp add: deliveries_unique_def demo_hooked_def demo_d3_deliveries)
  from dispatch_reaches_every_endpoint [OF r this e, of demo_endpoint] r o show ?thesis
    by (auto simp: demo_hooked_tables)
qed

text \<open>An outbox row found dispatched after a committed dispatch was
  dispatched before, or has a delivery to each endpoint that was active.\<close>

theorem dispatch_loses_no_event:
  assumes "dispatch_txn locked fresh db_now now d = Inr (rows, d')"
    and "e' \<in> set (outbox d')" "webhookDispatchedAt e' \<noteq> None"
    and "ep \<in> set (webhookEndpoints d)" "active ep"
  shows "(\<exists>e \<in> set (outbox d). o_id e = o_id e' \<and> webhookDispatchedAt e \<noteq> None)
    \<or> (\<exists>r \<in> set (webhookDeliveries d'). eventId r = o_id e' \<and> endpointId r = w_id ep)"
  by (rule dispatch_no_loss [OF assms])

theorem dispatch_loses_no_event_witness:
  "\<exists>rows d'. dispatch_txn {} (\<lambda>e w. ''d1'') 5000 5001 demo_hooked = Inr (rows, d')
    \<and> ((\<exists>e \<in> set (outbox demo_hooked). o_id e = ''o2'' \<and> webhookDispatchedAt e \<noteq> None)
       \<or> (\<exists>r \<in> set (webhookDeliveries d'). eventId r = ''o2'' \<and> endpointId r = ''w1''))"
proof -
  obtain rows d' where r: "dispatch_txn {} (\<lambda>e w. ''d1'') 5000 5001 demo_hooked = Inr (rows, d')"
    using demo_dispatch by blast
  let ?f = "final_outbox demo_jd demo_dis (settle_env demo_penv)"
  have "?f \<in> set (outbox demo_hooked)" by (simp add: demo_hooked_tables demo_d3_outbox)
  moreover have "o_id ?f \<in> o_id ` set (claim_rows dispatch_pending {} (outbox demo_hooked))"
    by (simp add: demo_claim)
  ultimately have "dispatch_mark 5001 ?f \<in> set (poll_mark dispatch_pending (dispatch_mark 5001) {} (outbox demo_hooked))"
    unfolding poll_mark_def mark_rows_def in_update_where by blast
  then have "dispatch_mark 5001 ?f \<in> set (outbox d')" by (simp add: dispatch_txn_Inr(2) [OF r])
  from dispatch_loses_no_event [OF r this, of demo_endpoint] r show ?thesis
    by (auto simp: demo_hooked_tables demo_last)
qed

section \<open>Webhook deliveries\<close>

text \<open>C21: over successive attempts of a delivery, the first success
  within the budget delivers it with one request per attempt; when the budget is used up by
  failures it is dead with exactly that many attempts; otherwise it is failed and waiting. Once
  delivered or dead no more requests are sent.\<close>

theorem deliveries_end_delivered_or_dead:
  assumes "backoff_wf cfg base cap" and "\<forall>a \<in> set as. 0 \<le> ae_rnd (snd a) \<and> ae_rnd (snd a) \<le> 1"
    and "find_delivery i d = Some r" "d_status r \<noteq> Delivered" "d_status r \<noteq> Dead" "endpoint_known r d"
    and "attempts r < MAX_WEBHOOK_ATTEMPTS cfg"
  shows "\<exists>n d' r'. webhook_runs cfg hmac str as i d = (n, d') \<and> find_delivery i d' = Some r'
    \<and> attempts r' = attempts r + n
    \<and> (let k = length (takeWhile (\<lambda>a. \<not> response_ok (fst a)) as)
       in if MAX_WEBHOOK_ATTEMPTS cfg \<le> attempts r + k
          then d_status r' = Dead \<and> attempts r' = MAX_WEBHOOK_ATTEMPTS cfg
          else if k < length as then d_status r' = Delivered \<and> n = k + 1
          else n = k \<and> d_status r' = (if as = [] then d_status r else Failed))"
  unfolding Let_def by (rule webhook_runs_spec [OF assms])

theorem deliveries_end_delivered_or_dead_witness:
  "\<exists>n d' r'. webhook_runs demo_wcfg (\<lambda>k m. m) (\<lambda>e. ''{}'')
      [(Response 500, demo_aenv), (FetchError ''timeout'', demo_aenv), (Response 200, demo_aenv)] ''d1'' demo_sent = (n, d')
    \<and> find_delivery ''d1'' d' = Some r' \<and> d_status r' = Dead \<and> attempts r' = 2"
proof -
  have "0 \<le> ae_rnd demo_aenv" "ae_rnd demo_aenv \<le> 1" by (simp_all add: demo_aenv_def)
  with deliveries_end_delivered_or_dead [OF demo_backoff_wf _ demo_find,
      of "[(Response 500, demo_aenv), (FetchError ''timeout'', demo_aenv), (Response 200, demo_aenv)]"
        "\<lambda>k m. m" "\<lambda>e. ''{}''"]
  show ?thesis by (auto simp: demo_wcfg_def demo_known Let_def simp del: webhook_runs.simps)
qed

text \<open>A failed attempt within the budget makes the delivery
  Failed, due after a delay between half of the capped exponential and all of it, and adds one
  job with that delay under the id the reaper will reuse; the reaper takes the delivery for
  stranded only when the due time is past by more than the deadline.\<close>

theorem failed_delivery_is_retried_later:
  assumes "find_delivery i d = Some r" "\<not> response_ok res" "attempts r + 1 < MAX_WEBHOOK_ATTEMPTS cfg"
    and "backoff_wf cfg base cap" "0 \<le> x" "x \<le> 1"
  shows "\<exists>d' delay due r'. webhook_write cfg r res now x d
      = (Inr (), d', [retry_delivery_job r (attempts r + 1) (Some (Fin delay))])
    \<and> of_nat (backoff_exp base cap (int (attempts r + 1))) / 2 \<le> delay
    \<and> delay \<le> of_nat (backoff_exp base cap (int (attempts r + 1)))
    \<and> due = \<lfloor>f64 (of_int now + delay)\<rfloor>
    \<and> find_delivery i d' = Some r' \<and> d_status r' = Failed \<and> nextAttemptAt r' = Some due
    \<and> job_id (reaped_delivery_job r') = job_id (retry_delivery_job r (attempts r + 1) (Some (Fin delay)))
    \<and> (\<forall>deadline t. delivery_stuck deadline t r' \<longleftrightarrow> due + deadline < t)"
proof -
  have i: "d_id r = i" using find_delivery_id [OF assms(1)] .
  from webhook_write_retry [OF assms(2-6), of d now] assms(1) i obtain d' delay due where w:
    "webhook_write cfg r res now x d = (Inr (), d', [retry_delivery_job r (attempts r + 1) (Some (Fin delay))])"
    "due = \<lfloor>f64 (of_int now + delay)\<rfloor>"
    "of_nat (backoff_exp base cap (int (attempts r + 1))) / 2 \<le> delay"
    "delay \<le> of_nat (backoff_exp base cap (int (attempts r + 1)))"
    "find_delivery i d' = Some (r\<lparr>d_status := Failed, nextAttemptAt := Some due,
        attempts := attempts r + 1, lastError := Some (last_error res)\<rparr>)" by auto
  from reaped_job_retry [OF assms(1) w(1)] w show ?thesis by (intro exI conjI) auto
qed

theorem failed_delivery_is_retried_later_witness:
  "\<exists>d' r' due. webhook_write demo_wcfg demo_delivery (Response 503) 7000 (1/2) demo_sent
      = (Inr (), d', [retry_delivery_job demo_delivery 1 (Some (Fin 750))])
    \<and> find_delivery ''d1'' d' = Some r' \<and> nextAttemptAt r' = Some due
    \<and> (\<forall>deadline t. delivery_stuck deadline t r' \<longleftrightarrow> due + deadline < t)"
proof -
  have c: "computeBackoffMs 1000 30000 (1/2) 1 = Inr (Fin 750)" using demo_delay by simp
  have "\<not> response_ok (Response 503)" "attempts demo_delivery + 1 < MAX_WEBHOOK_ATTEMPTS demo_wcfg"
    "(0 :: rat) \<le> 1/2" "(1/2 :: rat) \<le> 1"
    by (simp_all add: demo_delivery_def new_delivery_def demo_wcfg_def)
  from failed_delivery_is_retried_later [OF demo_find this(1,2) demo_backoff_wf this(3,4), of 7000] c
  show ?thesis
    by (auto simp: webhook_write_def demo_wcfg_def demo_delivery_def new_delivery_def)
qed

text \<open>C32: the write of an attempt does not look at the status it
  replaces: when two attempts have read the delivery and the first delivers it, the failure of
  the second turns it into a failed or dead one.\<close>

theorem stale_attempt_overwrites_delivered:
  assumes "find_delivery i d = Some r"
    and "response_ok res1" "webhook_write cfg r res1 t1 rnd1 d = (x1, d1, js1)"
    and "\<not> response_ok res2" "webhook_write cfg r res2 t2 rnd2 d1 = (Inr (), d2, js2)"
  shows "map_option d_status (find_delivery i d1) = Some Delivered
    \<and> map_option d_status (find_delivery i d2) = Some (if MAX_WEBHOOK_ATTEMPTS cfg \<le> attempts r + 1 then Dead else Failed)"
  by (rule stale_write_overwrites [OF assms])

theorem stale_attempt_overwrites_delivered_witness:
  "\<exists>d1 d2. webhook_write (demo_wcfg\<lparr>MAX_WEBHOOK_ATTEMPTS := 1\<rparr>) demo_delivery (Response 200) 7000 0 demo_sent = (Inr (), d1, [])
    \<and> webhook_write (demo_wcfg\<lparr>MAX_WEBHOOK_ATTEMPTS := 1\<rparr>) demo_delivery (FetchError ''reset'') 7001 0 d1 = (Inr (), d2, [])
    \<and> map_option d_status (find_delivery ''d1'' d1) = Some Delivered
    \<and> map_option d_status (find_delivery ''d1'' d2) = Some Dead"
proof -
  let ?cfg = "demo_wcfg\<lparr>MAX_WEBHOOK_ATTEMPTS := 1\<rparr>"
  obtain d1 where 1: "webhook_write ?cfg demo_delivery (Response 200) 7000 0 demo_sent = (Inr (), d1, [])"
    by (simp add: webhook_write_def)
  obtain d2 where 2: "webhook_write ?cfg demo_delivery (FetchError ''reset'') 7001 0 d1 = (Inr (), d2, [])"
    by (simp add: webhook_write_def)
  from stale_attempt_overwrites_delivered [OF demo_find _ 1 _ 2] 1 2 show ?thesis by auto
qed

text \<open>Following the cursors of the delivery list from the start,
  with any page size, yields all the deliveries of the asked status, newest first, in pages no
  longer than the size.\<close>

theorem delivery_pages_list_everything:
  assumes "deliveries_wf d" "1 \<le> psize"
  shows "\<exists>ps. follow (\<lambda>c. deliveries_page \<lparr>dq_status = st, dq_cursor = c, dq_limit = psize\<rparr> d)
      (Suc (length (delivery_rows st d))) None = Some ps
    \<and> concat ps = delivery_rows st d \<and> (\<forall>p \<in> set ps. length p \<le> psize)"
  using delivery_pages.follow_from_start [OF assms, of st] by (simp add: deliveries_page_def del: follow.simps)

theorem delivery_pages_list_everything_witness:
  "\<exists>ps. follow (\<lambda>c. deliveries_page \<lparr>dq_status = None, dq_cursor = c, dq_limit = 1\<rparr> demo_sent) 2 None = Some ps
    \<and> map dv_id (concat ps) = [''d1'']"
proof -
  have wf: "deliveries_wf demo_sent" by (simp add: deliveries_wf_def demo_sent_tables demo_delivery_def new_delivery_def)
  have "map dv_id (joined_deliveries demo_sent) = [''d1'']"
    using ids_joined [of demo_sent] wf by (simp add: deliveries_wf_def demo_sent_tables demo_delivery_def new_delivery_def)
  then have "map dv_id (delivery_rows None demo_sent) = [''d1'']"
    by (auto simp: delivery_rows_def select_where_def order_by_desc_def map_eq_Cons_conv)
  moreover from this have "length (delivery_rows None demo_sent) = 1" by (metis length_map length_Cons list.size(3) One_nat_def)
  ultimately show ?thesis using delivery_pages_list_everything [OF wf, of 1 None]
    by (auto simp: numeral_2_eq_2 simp del: follow.simps)
qed

text \<open>The endpoint list does not depend on any secret; a created endpoint
  is answered with its secret and appears in the list, and a deleted one disappears from it.\<close>

theorem secrets_are_not_listed:
  assumes "insert_endpoint u i s now d = Inr (row, d')"
  shows "secret row = s \<and> list_endpoints d' = list_endpoints d @ [endpoint_columns row]
    \<and> list_endpoints (d'\<lparr>webhookEndpoints := map (\<lambda>r. r\<lparr>secret := f r\<rparr>) (webhookEndpoints d')\<rparr>) = list_endpoints d'
    \<and> list_endpoints (snd (delete_endpoint x d')) = filter (\<lambda>v. evw_id v \<noteq> x) (list_endpoints d')"
  using assms list_endpoints_delete [of x d'] unfolding list_endpoints_secret
  by (auto simp: insert_endpoint_Inr list_endpoints_def select_where_def new_endpoint_def)

theorem secrets_are_not_listed_witness:
  "list_endpoints (empty_db\<lparr>webhookEndpoints := [demo_endpoint]\<rparr>) = [endpoint_columns demo_endpoint]"
proof -
  have "insert_endpoint ''http://x/fail'' ''w1'' ''s1'' 100 empty_db
      = Inr (demo_endpoint, empty_db\<lparr>webhookEndpoints := [demo_endpoint]\<rparr>)"
    by (simp add: insert_endpoint_Inr demo_endpoint_def empty_db_def)
  from secrets_are_not_listed [OF this] show ?thesis
    by (simp add: list_endpoints_def empty_db_def select_where_def)
qed

section \<open>Amounts, delays, configuration\<close>

text \<open>C30: a string is converted to the exact number of cents it
  denotes when it has at most twenty characters, the form of an amount, and a safe number of
  cents; in every other case it is refused, and nothing is rounded.\<close>

theorem amounts_are_converted_exactly:
  "convAmountToUnits s =
     (if length s > 20 then Inl (PlainError ''Amount input string too long'')
      else case match_amount s of
        None \<Rightarrow> Inl (PlainError (''Invalid amount string format: '' @ s))
      | Some (d, c) \<Rightarrow>
          if exact_cents d c \<le> 2 ^ 53 - 1 then Inr (of_nat (exact_cents d c))
          else Inl (PlainError (''Amount exceeds safe int range: '' @ s)))"
  by (rule convAmountToUnits_exact)

text \<open>C31: every safe non-negative number of cents is printed to a string
  that parses back to it.\<close>

theorem printed_amounts_parse_back:
  assumes "n \<le> 2 ^ 53 - 1"
  shows "\<exists>s. convUnitsToAmount (of_nat n) = Inr s \<and> convAmountToUnits s = Inr (of_nat n)"
  using convUnitsToAmount_nat [OF assms] convAmountToUnits_amount_str [OF assms] by blast

theorem printed_amounts_parse_back_witness:
  "\<exists>s. convUnitsToAmount (of_nat 1999) = Inr s \<and> convAmountToUnits s = Inr (of_nat 1999)"
  by (rule printed_amounts_parse_back) simp

text \<open>A canonical amount string, without leading zeros and with two
  decimals, that is accepted is printed back as it was.\<close>

theorem parsed_amounts_print_back:
  assumes "canonical_digits d" "length f = 2" "list_all is_digit f"
    and "convAmountToUnits (d @ ''.'' @ f) = Inr r"
  shows "convUnitsToAmount r = Inr (d @ ''.'' @ f)"
  by (rule print_parse_canonical [OF assms])

theorem parsed_amounts_print_back_witness: "convUnitsToAmount 1250 = Inr ''12.50''"
  using parsed_amounts_print_back [of "''12''" "''50''" 1250] demo_amount
  by (simp add: canonical_digits_def is_digit_def)

text \<open>An amount that passes the DTO's pattern but is longer
  than twenty characters makes the conversion throw a plain error, which is answered with 500
  instead of a validation error.\<close>

theorem valid_amount_can_be_a_server_error:
  assumes "pipe_create_payment fs = Inr dto" "k \<noteq> []" "20 < length (dto_amount dto)"
  shows "match_amount (dto_amount dto) \<noteq> None
    \<and> submit_http_status (fst (create_payment hash fs (Some k) reqId en d)) = 500"
proof -
  have "string_satisfies (\<lambda>s. match_amount s \<noteq> None) (map_of fs ''amount'')"
    and "dto_amount dto = the_str (map_of fs ''amount'')"
    using assms(1)
    by (auto simp: pipe_create_payment_def validate_def create_payment_checks_def to_create_payment_def
        filter_empty_conv split: list.splits if_splits)
  then have "match_amount (dto_amount dto) \<noteq> None"
    by (cases "map_of fs ''amount''" rule: is_string.cases) auto
  moreover have "convAmountToUnits (dto_amount dto) = Inl (PlainError ''Amount input string too long'')"
    using assms(3) by (simp add: convAmountToUnits_exact)
  ultimately show ?thesis
    using assms(1,2) by (simp add: create_payment_def insert_txn_def submit_http_status_def problem_status)
qed

theorem valid_amount_can_be_a_server_error_witness:
  "submit_http_status (fst (create_payment (\<lambda>_. ''h1'')
      [(''customerId'', JStr ''c1''), (''sourceAccount'', JStr ''a1''), (''destinationAccount'', JStr ''a2''),
       (''amount'', JStr ''000000000000000000012.50'')] (Some ''k1'') ''r1'' demo_env empty_db)) = 500"
proof -
  let ?fs = "[(''customerId'', JStr ''c1''), (''sourceAccount'', JStr ''a1''), (''destinationAccount'', JStr ''a2''),
       (''amount'', JStr ''000000000000000000012.50'')]"
  have "match_amount (''000000000000000000012'' @ ''.'' @ ''50'') = Some (''000000000000000000012'', Some ''50'')"
    by (simp add: match_amount_Some is_digit_def)
  then have "pipe_create_payment ?fs = Inr (demo_dto\<lparr>dto_amount := ''000000000000000000012.50''\<rparr>)"
    by (simp add: pipe_create_payment_def validate_def create_payment_checks_def is_absent_def
        to_create_payment_def demo_dto_def)
  from valid_amount_can_be_a_server_error [OF this] show ?thesis by simp
qed

text \<open>C33: with positive base and a cap in the safe range, the delay of
  every attempt is a number between half of the capped exponential and all of it, and the
  exponential never decreases; an attempt below one is an error.\<close>

theorem backoff_is_bounded_and_grows:
  assumes "0 < base" "cap \<le> 2 ^ 53" "0 \<le> x" "x \<le> 1"
  shows "if attempt < 1 then \<exists>e. computeBackoffMs (of_nat base) (of_nat cap) x attempt = Inl e
    else (\<exists>ms. computeBackoffMs (of_nat base) (of_nat cap) x attempt = Inr (Fin ms)
        \<and> of_nat (backoff_exp base cap attempt) / 2 \<le> ms \<and> ms \<le> of_nat (backoff_exp base cap attempt))
      \<and> backoff_exp base cap attempt \<le> backoff_exp base cap (attempt + 1)"
proof (cases "attempt < 1")
  case False
  then have "1 \<le> attempt" by simp
  from computeBackoffMs_bounds [OF assms(1,2) this assms(3,4)] backoff_exp_mono [of attempt "attempt + 1"] False
  show ?thesis by auto
qed (simp add: computeBackoffMs_def)

theorem backoff_is_bounded_and_grows_witness:
  "\<exists>ms. computeBackoffMs (of_nat 1000) (of_nat 30000) (1/4) 9 = Inr (Fin ms) \<and> 15000 \<le> ms \<and> ms \<le> 30000"
  using backoff_is_bounded_and_grows [of 1000 30000 "1/4" 9] by (auto simp: backoff_exp_def)

text \<open>C34: following the cursors of the payment list from the start,
  with any page size, yields all the payments of the asked status, newest first, in pages no
  longer than the size.\<close>

theorem payment_pages_list_everything:
  assumes "ids_wf d" "1 \<le> psize"
  shows "\<exists>ps. follow (\<lambda>c. controller_list \<lparr>lq_status = st, lq_cursor = c, lq_limit = psize\<rparr> d)
      (Suc (length (status_rows st d))) None = Some ps
    \<and> concat ps = status_rows st d \<and> (\<forall>p \<in> set ps. length p \<le> psize)"
  using payment_pages.follow_from_start [OF assms, of st] by (simp add: controller_list_def del: follow.simps)

theorem payment_pages_list_everything_witness:
  "\<exists>ps. follow (\<lambda>c. controller_list \<lparr>lq_status = None, lq_cursor = c, lq_limit = 1\<rparr> demo_d2) 2 None = Some ps
    \<and> concat ps = [demo_row]"
proof -
  have wf: "ids_wf demo_d2" by (simp add: ids_wf_def demo_d2_tables)
  have "status_rows None demo_d2 = [demo_row]"
    by (simp add: status_rows_def select_where_def order_by_desc_def demo_d2_tables)
  with payment_pages_list_everything [OF wf, of 1 None] show ?thesis
    by (auto simp: numeral_2_eq_2 simp del: follow.simps)
qed

text \<open>C35: an environment that loads gives a configuration whose every
  bound holds and whose bank adapter is registered, in production with the database, queue and
  origins set explicitly.\<close>

theorem loaded_configuration_is_sound:
  assumes "load_config e = Inr c"
  shows "config_wf c
    \<and> bank_provider c = Inr \<lparr>provide = ''BANK'', useClass = Own SimulatedBankAdapter\<rparr>
    \<and> (is_prod e \<longrightarrow> e ''DATABASE_URL'' = Some (databaseUrl c)
    \<and> e ''REDIS_URL'' = Some (redisUrl c) \<and> (\<exists>s. e ''CORS_ORIGIN'' = Some s \<and> corsOrigins c = parse_origins s))"
  using load_config_sound [OF assms] bank_provider_loaded [OF assms]
    load_config_production [OF assms] by simp

theorem loaded_configuration_is_sound_witness:
  "\<exists>c. load_config (\<lambda>_. None) = Inr c \<and> config_wf c"
proof -
  have "\<exists>c. load_config (\<lambda>_. None) = Inr c"
    by (simp add: load_config_def load_worker_def load_bank_def load_relay_def load_webhooks_def
        num_unset env_def is_prod_def BANK_ADAPTERS_def Let_def)
  then show ?thesis using loaded_configuration_is_sound by blast
qed

section \<open>Outbox partitions\<close>

text \<open>The name of the partition of a UTC day between 1970 and 9999
  matches the cleanup's pattern and reads as that day.\<close>

theorem partition_names_parse_back:
  assumes "0 \<le> z" "z < 2932897"
  shows "partition_day (partition_name z) = Some z"
  by (rule partition_day_name [OF assms])

theorem partition_names_parse_back_witness: "partition_day (partition_name 20000) = Some 20000"
  by (rule partition_names_parse_back) simp_all

text \<open>C38: dropping deletes exactly the rows of partitions named
  for a day before the retention, whether published or not, and so keeps every row created
  since.\<close>

theorem cleanup_drops_expired_partitions_only:
  assumes "canonical st"
  shows "rows_of (dropExpired ret now st)
      = filter (\<lambda>r. \<not> (\<exists>p \<in> set (parts st). expired (utcDay now (- ret)) p \<and> in_part p r)) (rows_of st)
    \<and> (\<forall>r \<in> set (rows_of st). utcDay now (- ret) * MS_PER_DAY \<le> o_createdAt r
        \<longrightarrow> r \<in> set (rows_of (dropExpired ret now st)))"
  using dropExpired_rows [OF assms] dropExpired_keeps [OF assms] by blast

theorem cleanup_drops_expired_partitions_only_witness:
  "rows_of (dropExpired 7 (30 * MS_PER_DAY) \<lparr>parts = [day_part 1], rows_of =
      [(submitted_outbox demo_row ''r1'' demo_env)\<lparr>o_createdAt := MS_PER_DAY + 5\<rparr>]\<rparr>) = []"
proof -
  let ?r = "(submitted_outbox demo_row ''r1'' demo_env)\<lparr>o_createdAt := MS_PER_DAY + 5\<rparr>"
  have n: "partition_day (part_name (day_part 1)) = Some 1" by (simp add: day_part_def partition_day_name)
  then have "canonical \<lparr>parts = [day_part 1], rows_of = [?r]\<rparr>" by (simp add: canonical_def)
  moreover have "expired (utcDay (30 * MS_PER_DAY) (- 7)) (day_part 1)"
    using n by (simp add: expired_def utcDay_def MS_PER_DAY_def)
  moreover have "in_part (day_part 1) ?r" by (simp add: in_part_def day_part_def MS_PER_DAY_def)
  ultimately show ?thesis using cleanup_drops_expired_partitions_only by simp
qed

text \<open>After a pass that met no error, every moment from the start
  of today to the end of the seventh day after has a partition.\<close>

theorem partitions_cover_the_week_ahead:
  assumes "canonical st" "0 \<le> now div MS_PER_DAY" "now div MS_PER_DAY + 7 < 2932897"
    and "ensurePartitions now st = (Inr (), st')"
    and "utcDay now 0 * MS_PER_DAY \<le> t" "t < utcDay now 8 * MS_PER_DAY"
  shows "\<exists>p \<in> set (parts st'). part_from p \<le> t \<and> t < part_to p"
  by (rule ensurePartitions_covers [OF assms])

theorem partitions_cover_the_week_ahead_witness:
  "\<exists>st'. ensurePartitions 0 \<lparr>parts = map day_part [0..7], rows_of = []\<rparr> = (Inr (), st')
    \<and> (\<exists>p \<in> set (parts st'). part_from p \<le> 5 * MS_PER_DAY + 1 \<and> 5 * MS_PER_DAY + 1 < part_to p)"
proof -
  let ?st = "\<lparr>parts = map day_part [0..7], rows_of = []\<rparr>"
  have names: "partition_day (part_name (day_part z)) = Some z" if "z \<in> set [0..7]" for z
    using that by (auto simp: day_part_def intro!: partition_day_name)
  then have inj: "inj_on (part_name \<circ> day_part) (set [0..7])" by (auto intro!: inj_onI) (metis atLeastAtMost_iff option.inject)
  have c: "canonical ?st" unfolding canonical_def
    using names inj by (auto simp: distinct_map)
  have "create_partition (day_part z) ?st = Inr ?st" if "z \<in> set [0..7]" for z
    using that by (auto simp: create_partition_def)
  then have days: "create_days zs ?st = (Inr (), ?st)" if "set zs \<subseteq> set [0..7]" for zs
    using that by (induction zs) auto
  have e: "ensurePartitions 0 ?st = (Inr (), ?st)" unfolding ensurePartitions_def
    by (rule days) (auto simp: utcDay_def AHEAD_DAYS_def)
  from partitions_cover_the_week_ahead [OF c _ _ e, of "5 * MS_PER_DAY + 1"] e show ?thesis
    by (simp add: utcDay_def MS_PER_DAY_def)
qed

section \<open>The web console\<close>

text \<open>C39: a form the API accepts, submitted from an allowed origin with an
  unused key, creates one payment and shows it as new; submitted again with that key, whatever
  became of the payment in between, it shows the same payment as a replay and changes nothing.
  The trace id is shown only to a page of the API's own origin.\<close>

theorem second_click_is_a_replay:
  assumes "pipe_create_payment (input_fields (form_input (fs_form s))) = Inr dto"
    and "convAmountToUnits (dto_amount dto) = Inr c"
    and "http_trim (fs_key s) = k" "k \<noteq> []" "\<not> fs_submitting s" "origin_allowed og"
    and "submit_env_fresh en d" "find_key (dto_customerId dto) k d = None"
    and "Some (JStr (se_id en)) \<notin> set (fs_createdIds s)"
    and "form_click og hash fresh en s d = (s1, d1)"
    and "find_key (dto_customerId dto) k d' = find_key (dto_customerId dto) k d1"
  shows "payments d1 = payments d @ [payment_row dto \<lfloor>c\<rfloor> en]
    \<and> fs_result s1 = Some (ResNew (Some (JStr (se_id en))) (Some (JStr ''PENDING'')) (readable_trace og fresh))
    \<and> snd (form_click og hash fresh' en' s1 d') = d'
    \<and> fs_result (fst (form_click og hash fresh' en' s1 d'))
      = Some (ResReplay (Some (JStr (se_id en))) (Some (JStr ''PENDING'')) (readable_trace og fresh'))"
proof -
  note first = form_click_new [where hash = hash and fresh = fresh, OF assms(1-9)]
  have s1: "s1 = s\<lparr>fs_createdIds := Some (JStr (se_id en)) # fs_createdIds s,
      fs_result := Some (ResNew (Some (JStr (se_id en))) (Some (JStr ''PENDING'')) (readable_trace og fresh)),
      fs_submitting := False\<rparr>"
    and d1: "d1 = submitted_db dto \<lfloor>c\<rfloor> k (hash dto) fresh en d"
    using first assms(10) by auto
  have "find_key (dto_customerId dto) k d'
      = Some (idem_row dto k (hash dto) (payment_row dto \<lfloor>c\<rfloor> en) en)"
    using assms(8,11) by (simp add: d1 find_key_submitted_db)
  then have "form_click og hash fresh' en' s1 d' = (submit_end (Inr (payment_json
      (payment_row dto \<lfloor>c\<rfloor> en), readable_trace og fresh')) (submit_begin s1), d')"
    using form_click_replay [where s = s1 and hash = hash and fresh = fresh', OF _ assms(2) _ assms(4) _ assms(6)]
      assms(1,3) by (simp add: s1)
  then show ?thesis by (simp add: s1 d1 submitted_db_def Let_def submit_end_def submit_begin_def)
qed

theorem second_click_is_a_replay_witness:
  "\<exists>s1 d1. form_click demo_origins (\<lambda>_. ''h1'') ''r1'' demo_env demo_form empty_db = (s1, d1)
    \<and> fs_result (fst (form_click demo_origins (\<lambda>_. ''h1'') ''r2'' demo_env s1 d1))
      = Some (ResReplay (Some (JStr ''p1'')) (Some (JStr ''PENDING'')) None)"
proof -
  obtain s1 d1 where "form_click demo_origins (\<lambda>_. ''h1'') ''r1'' demo_env demo_form empty_db = (s1, d1)"
    by fastforce
  from second_click_is_a_replay [OF demo_form_pipe demo_form_amount demo_form_key _ demo_form_fresh(1)
      demo_origins_allowed demo_fresh demo_no_key _ this refl, of "''r2''" demo_env] this
  show ?thesis by (auto simp: demo_trace demo_form_fresh demo_env_def)
qed

text \<open>The fallback id has the layout of a version 4 UUID, its
  digits are the random bytes with version and variant stamped in, and two ids are equal just
  when the 122 bits that are not stamped are.\<close>

theorem fallback_ids_are_version_4_uuids:
  assumes "length b = 16" "length c = 16"
  shows "uuid_v4 (randomId None b)
    \<and> unhex (filter (\<lambda>x. x \<noteq> CHR ''-'') (randomId None b)) = stamp_version b
    \<and> (randomId None b = randomId None c \<longleftrightarrow> random_bits b = random_bits c)"
  using randomId_shape [OF assms(1)] randomId_bytes [OF assms(1)] randomId_eq_iff [OF assms] by simp

theorem fallback_ids_are_version_4_uuids_witness:
  "uuid_v4 (randomId None (replicate 16 0)) \<and> randomId None (replicate 16 0) \<noteq> randomId None (replicate 16 1)"
proof -
  have "random_bits (replicate 16 0) ! 0 \<noteq> random_bits (replicate 16 1) ! 0" by (simp add: random_bits_def)
  then have "random_bits (replicate 16 0) \<noteq> random_bits (replicate 16 1)" by metis
  then show ?thesis using fallback_ids_are_version_4_uuids [of "replicate 16 0" "replicate 16 1"] by simp
qed

section \<open>Stored types and job ids\<close>

text \<open>C19: the amount of every payment in every reachable state is a
  safe non-negative number of cents in US dollars, so it prints as an amount string that
  converts back to it.\<close>

theorem stored_payments_are_well_typed:
  assumes "reachable cfg s" "p \<in> set (payments (s_db s))"
  shows "0 \<le> amountCents p \<and> amountCents p \<le> 2 ^ 53 - 1 \<and> currency p = ''USD''
    \<and> (\<exists>str. convUnitsToAmount (of_int (amountCents p)) = Inr str
         \<and> convAmountToUnits str = Inr (of_int (amountCents p)))"
proof -
  have t: "0 \<le> amountCents p" "amountCents p \<le> 2 ^ 53 - 1" "currency p = ''USD''"
    using reachable_rows_typed [OF assms(1)] assms(2) by (auto simp: rows_typed_def row_typed_def)
  define n where "n = nat (amountCents p)"
  have n: "of_int (amountCents p) = (of_nat n :: rat)" "n \<le> 2 ^ 53 - 1"
    using t(1,2) by (simp_all add: n_def nat_le_iff)
  then show ?thesis
    using t convUnitsToAmount_nat [OF n(2)] convAmountToUnits_amount_str [OF n(2)] by simp
qed

theorem stored_payments_are_well_typed_witness:
  "amountCents demo_final = 1250 \<and> currency demo_final = ''USD''"
  using stored_payments_are_well_typed [OF demo_s3_reachable, of demo_final]
  by (simp add: demo_final_def final_row_def claim_row_def demo_row_def)

text \<open>In every reachable state the retry jobs ever added to the queue
  have pairwise different ids, each made of its payment and an attempt the payment has spent,
  so the queue's deduplication by id loses no retry.\<close>

theorem retry_job_ids_never_repeat:
  assumes "reachable cfg s"
  shows "distinct (map job_id (retry_jobs (s_queue s)))
    \<and> (\<forall>j \<in> set (retry_jobs (s_queue s)). \<exists>p \<in> set (payments (s_db s)). \<exists>n \<le> attemptCount p.
         p_id p = jd_paymentId (job_payload j) \<and> job_id j = p_id p @ '':retry:'' @ nat_str n)"
proof -
  have "\<exists>p \<in> set (payments (s_db s)). \<exists>n \<le> attemptCount p.
         p_id p = jd_paymentId (job_payload j) \<and> job_id j = p_id p @ '':retry:'' @ nat_str n"
    if "retry_of (s_db s) j" for j
    using that unfolding retry_of_def retry_id_def by blast
  then show ?thesis using reachable_retry_ids [OF assms] by (simp add: retry_ids_ok_def)
qed

theorem retry_job_ids_never_repeat_witness: "distinct (map job_id (retry_jobs (s_queue demo_s3)))"
  using retry_job_ids_never_repeat [OF demo_s3_reachable] by simp

section \<open>Poll loops\<close>

text \<open>A service that polls in a timer loop has at any time either one
  armed timer or one running poll until it is shut down, whatever its polls throw; polls never
  overlap, also after a shutdown.\<close>

theorem poll_loops_survive_errors:
  assumes "l = onModuleInit w \<or> l = eager_init w"
  shows "length (pl_armed (loop_run poll sgs l)) + pl_running (loop_run poll sgs l) \<le> 1
    \<and> (Shutdown \<notin> set sgs \<longrightarrow>
         length (pl_armed (loop_run poll sgs l)) + pl_running (loop_run poll sgs l) = 1)"
proof -
  have ok: "loop_ok l" "loop_alive l" using assms by auto
  show ?thesis
    using loop_ok_run [OF ok(1), of poll sgs] loop_alive_run [OF ok, of sgs poll]
    by (simp add: loop_ok_def loop_alive_def)
qed

theorem poll_loops_survive_errors_witness:
  "let l = loop_run (\<lambda>_ w. (Inl (PlainError ''down'') :: unit result, w)) [Fires 0, PollEnds (), Fires 1] (onModuleInit (0 :: nat))
   in length (pl_armed l) + pl_running l = 1"
  using poll_loops_survive_errors [of "onModuleInit (0 :: nat)" 0 "\<lambda>_ w. (Inl (PlainError ''down'') :: unit result, w)"
      "[Fires 0, PollEnds (), Fires 1]"]
  by (simp add: Let_def)

text \<open>A shutdown that finds the loop waiting ends it; one that
  arrives while a poll runs clears a timer that has fired already, and the end of the tick arms
  the next, after which the service polls again.\<close>

theorem shutdown_during_a_poll_is_lost:
  assumes "l = loop_run poll sgs (onModuleInit w) \<or> l = loop_run poll sgs (eager_init w)"
  shows "(pl_running l = 0 \<longrightarrow> pl_world (loop_run poll (Shutdown # sgs') l) = pl_world l)
    \<and> (pl_running l = 1 \<longrightarrow> pl_armed (loop_run poll [Shutdown, PollEnds e] l) = [pl_next l]
        \<and> pl_world (loop_run poll [Shutdown, PollEnds e, Fires (pl_next l), PollEnds e'] l)
          = snd (poll e' (snd (poll e (pl_world l)))))"
proof -
  have ok: "loop_ok l" using assms by (auto intro: loop_ok_run)
  show ?thesis using shutdown_waiting [OF ok, of poll sgs'] shutdown_polling [OF ok, of poll e e'] by blast
qed

theorem shutdown_during_a_poll_is_lost_witness:
  "pl_world (loop_run (\<lambda>_ n. (Inr () :: unit result, Suc n)) [Fires 0, Shutdown, PollEnds (), Fires 1, PollEnds ()]
     (onModuleInit 0)) = 2"
proof -
  let ?poll = "\<lambda>(_ :: unit) n. (Inr () :: unit result, Suc n)"
  define l where "l = loop_run ?poll [Fires 0] (onModuleInit 0)"
  have "pl_running l = 1" "pl_next l = 1" "pl_world l = 0"
    by (simp_all add: l_def onModuleInit_def scheduleNext_def new_loop_def tick_begin_def)
  with shutdown_during_a_poll_is_lost [of l ?poll "[Fires 0]" 0 "[]" "()" "()"]
  have "pl_world (loop_run ?poll [Shutdown, PollEnds (), Fires 1, PollEnds ()] l) = 2"
    by (simp add: l_def)
  moreover have "loop_run ?poll [Fires 0, Shutdown, PollEnds (), Fires 1, PollEnds ()] (onModuleInit 0)
      = loop_run ?poll [Shutdown, PollEnds (), Fires 1, PollEnds ()] l"
    by (simp add: l_def)
  ultimately show ?thesis by simp
qed

text \<open>C29: values in range that an operator applies on the chaos page
  are those the worker's bank runs with after the next successful sync, with its failure counter
  reset and its charges kept, and the page shows no unsaved change.\<close>

theorem applied_chaos_reaches_the_bank:
  assumes "0 \<le> ch_latencyMs pg" "ch_latencyMs pg \<le> 30000" "0 \<le> ch_failN pg" "ch_failN pg \<le> 100"
    and "bank_config_get d = Some row" "\<And>t. fst st = Some t \<Longrightarrow> t < now"
    and "chaos_apply now pg d = (pg', d')"
  shows "\<not> chaos_dirty pg'
    \<and> (case sync_service d' st of (r, applied, b) \<Rightarrow>
         r = Inr () \<and> applied = Some now \<and> sb_mode b = ch_mode pg \<and> sb_latencyMs b = ch_latencyMs pg
         \<and> int (sb_failN b) = ch_failN pg \<and> failCount b = 0
         \<and> store b = store (snd st) \<and> charges b = charges (snd st))"
proof -
  obtain row' where row': "bank_config_get d' = Some row'" "mode row' = ch_mode pg"
    "latencyMs row' = ch_latencyMs pg" "int (failN row') = ch_failN pg" "b_updatedAt row' = now"
    "\<not> chaos_dirty pg'"
    using chaos_apply_row [OF assms(1-5), of now] assms(7) by auto
  have "sync_tick d' st = (Some now, setConfig (Some (mode row')) (Some (failN row')) (Some (latencyMs row')) (snd st))"
    using sync_applies [OF row'(1), of st] assms(6) row'(5) by simp
  moreover have "sync_once d' st = Inr (sync_tick d' st)" by (simp add: sync_tick_def sync_once_def row'(1))
  ultimately show ?thesis
    using row' by (auto simp: sync_service_def setConfig_def split: sum.splits)
qed

theorem applied_chaos_reaches_the_bank_witness:
  "\<exists>pg' d'. chaos_apply 9000 (new_chaos\<lparr>ch_mode := Always_error\<rparr>) (empty_db\<lparr>bankConfig := [demo_config_row]\<rparr>) = (pg', d')
    \<and> sb_mode (snd (snd (sync_service d' (None, new_bank)))) = Always_error"
proof -
  let ?d = "empty_db\<lparr>bankConfig := [demo_config_row]\<rparr>" and ?pg = "new_chaos\<lparr>ch_mode := Always_error\<rparr>"
  have get: "bank_config_get ?d = Some demo_config_row"
    by (simp add: bank_config_get_def select_where_def demo_config_row_def)
  obtain pg' d' where ap: "chaos_apply 9000 ?pg ?d = (pg', d')" by fastforce
  from applied_chaos_reaches_the_bank [OF _ _ _ _ get _ ap, of "(None, new_bank)"] ap show ?thesis
    by (auto simp: new_chaos_def split: prod.splits)
qed

section \<open>Signed deliveries at a receiver\<close>

text \<open>C22: jobs of one delivery run against the demo receiver that
  holds the endpoint's secret leave one receipt per request, each with a valid signature, the
  delivery's event and the next attempt number; a path other than \<open>/fail\<close> is delivered by the
  first request, and \<open>/fail\<close> uses the budget up and ends dead.\<close>

theorem signed_deliveries_are_validated:
  assumes cfg: "backoff_wf cfg base cap" and rnd: "\<forall>e \<in> set es. 0 \<le> ae_rnd (fst e) \<and> ae_rnd (fst e) \<le> 1"
    and rd: "webhook_read i d = Inr (Some (r, ep))" and budget: "attempts r < MAX_WEBHOOK_ATTEMPTS cfg"
    and ep: "url ep = host @ p" "map_of secrets p = Some (secret ep)" "secret ep \<noteq> []"
    and h: "\<And>m. hmac (secret ep) m \<noteq> []"
  shows "\<exists>d' s' r' new. delivery_runs cfg hmac str parse secrets host es i (d, s) = (d', s')
    \<and> rv_log s' = rv_log s @ new \<and> (\<forall>e \<in> set new. rl_signature e = VALID \<and> rl_eventId e = eventId r)
    \<and> map rl_attempt new = [Suc (seen s (eventId r))..<Suc (seen s (eventId r)) + length new]
    \<and> find_delivery i d' = Some r' \<and> attempts r' = attempts r + length new
    \<and> (if p \<noteq> ''/fail'' then es \<noteq> [] \<longrightarrow> d_status r' = Delivered \<and> length new = 1
       else if MAX_WEBHOOK_ATTEMPTS cfg \<le> attempts r + length es
       then d_status r' = Dead \<and> attempts r' = MAX_WEBHOOK_ATTEMPTS cfg else length new = length es)"
proof -
  let ?as = "map (\<lambda>(en, tm). (Response (receive_status p), en)) es"
  have fd: "find_delivery i d = Some r" using webhook_read_SomeD(1) [OF rd] .
  have op: "d_status r \<noteq> Delivered" "d_status r \<noteq> Dead"
    using rd fd by (auto simp: webhook_read_def find_delivery_def split: option.splits if_splits)
  have kn: "endpoint_known r d"
    using first_row_Some_in [OF webhook_read_SomeD(2) [OF rd]] by (auto simp: endpoint_known_def intro!: rev_image_eqI [of ep])
  have rnd': "\<forall>a \<in> set ?as. 0 \<le> ae_rnd (snd a) \<and> ae_rnd (snd a) \<le> 1" using rnd by auto
  have k: "length (takeWhile (\<lambda>a. \<not> response_ok (fst a)) ?as) = (if p = ''/fail'' then length es else 0)"
  proof (cases "p = ''/fail''")
    case True
    then have *: "takeWhile (\<lambda>a. \<not> response_ok (fst a)) ?as = ?as"
      by (subst takeWhile_eq_all_conv) (auto simp: receive_status_def)
    show ?thesis unfolding * using True by simp
  qed (cases es; auto simp: receive_status_def)
  obtain n d' r' where w: "webhook_runs cfg hmac str ?as i d = (n, d')" "find_delivery i d' = Some r'"
      "attempts r' = attempts r + n"
      "if MAX_WEBHOOK_ATTEMPTS cfg \<le> attempts r + (if p = ''/fail'' then length es else 0)
       then d_status r' = Dead \<and> attempts r' = MAX_WEBHOOK_ATTEMPTS cfg
       else if (if p = ''/fail'' then length es else 0) < length es
         then d_status r' = Delivered \<and> n = (if p = ''/fail'' then length es else 0) + 1
       else n = (if p = ''/fail'' then length es else 0) \<and> d_status r' = (if ?as = [] then d_status r else Failed)"
    using webhook_runs_spec [OF cfg rnd' fd op kn budget, of hmac str] unfolding k length_map by blast
  have "aimed i (host @ p) (secret ep) (eventId r) d" using rd ep(1) by (auto simp: aimed_def)
  from delivery_runs_spec [OF ep(2,3) h this w(1), of parse s] obtain s' new where
    g: "delivery_runs cfg hmac str parse secrets host es i (d, s) = (d', s')" "rv_log s' = rv_log s @ new"
      "length new = n" "receipts_ok p (eventId r) (seen s (eventId r)) new" by blast
  show ?thesis
    using g w budget receipts_ok_all [OF g(4)] receipts_ok_attempts [OF g(4)]
    by (intro exI [of _ d'] exI [of _ s'] exI [of _ r'] exI [of _ new] conjI) (auto split: if_splits)
qed

theorem signed_deliveries_are_validated_witness:
  "\<exists>d' s' r' new. delivery_runs demo_wcfg (\<lambda>k m. k @ m) (\<lambda>e. ''{}'') (\<lambda>_. None) (SECRETS None (Some ''s1'')) ''http://x''
      (replicate 3 (demo_aenv, ''t'')) ''d1'' (demo_sent, \<lparr>rv_attempts = Map.empty, rv_log = []\<rparr>) = (d', s')
    \<and> rv_log s' = new \<and> map rl_attempt new = [1, 2] \<and> (\<forall>e \<in> set new. rl_signature e = VALID)
    \<and> find_delivery ''d1'' d' = Some r' \<and> d_status r' = Dead"
proof -
  have rd: "webhook_read ''d1'' demo_sent = Inr (Some (demo_delivery, demo_endpoint))"
    using demo_find by (simp add: webhook_read_def find_delivery_def select_where_def demo_sent_tables)
  have "\<forall>e \<in> set (replicate 3 (demo_aenv, ''t'')). 0 \<le> ae_rnd (fst e) \<and> ae_rnd (fst e) \<le> 1"
    by (simp add: demo_aenv_def)
  from signed_deliveries_are_validated [OF demo_backoff_wf this rd, of "''http://x''" "''/fail''"
      "SECRETS None (Some ''s1'')" "\<lambda>k m. k @ m" "\<lambda>e. ''{}''" "\<lambda>_. None" "\<lparr>rv_attempts = Map.empty, rv_log = []\<rparr>"]
  show ?thesis
    by (auto simp: demo_wcfg_def SECRETS_def demo_endpoint_def new_endpoint_def seen_def upt_rec
        simp del: delivery_runs.simps)
qed

section \<open>The deliveries of an event\<close>

text \<open>C20: in any run of all processes, at the step that marks an event of the outbox
  dispatched, the event is terminal and has no delivery yet; in every later state its deliveries are
  one to each endpoint active at that step and no other, whatever endpoints were registered or
  deleted since and however often polls ran. No two deliveries have the same event and
  endpoint, and every queued job names a stored delivery. Outbox ids are assumed not to repeat.\<close>

theorem events_fan_out_once:
  assumes r: "hook_reachable cfg wcfg hmac str w" and st: "hook_step cfg wcfg hmac str w w1"
    and sts: "(hook_step cfg wcfg hmac str)\<^sup>*\<^sup>* w1 w2"
    and ids: "distinct (map o_id (outbox (hk_db w2)))"
    and e: "e \<in> set (outbox (hk_db w))" "webhookDispatchedAt e = None"
    and e1: "e1 \<in> set (outbox (hk_db w1))" "o_id e1 = o_id e" "webhookDispatchedAt e1 \<noteq> None"
  shows "eventType e \<in> {''payment.completed'', ''payment.failed''}
    \<and> (\<forall>x \<in> set (webhookDeliveries (hk_db w)). eventId x \<noteq> o_id e)
    \<and> endpointId ` {x \<in> set (webhookDeliveries (hk_db w2)). eventId x = o_id e}
        = w_id ` {ep \<in> set (webhookEndpoints (hk_db w)). active ep}
    \<and> distinct (map (\<lambda>x. (eventId x, endpointId x)) (webhookDeliveries (hk_db w2)))
    \<and> job_payload ` set (hk_jobs w2) \<subseteq> d_id ` set (webhookDeliveries (hk_db w2))"
proof -
  note ids1 = hook_steps_distinct [OF sts ids]
  have m: "marked (hk_db w1) (o_id e)" using e1 marked_row by fastforce
  have r2: "hook_reachable cfg wcfg hmac str w2"
    by (rule hook_steps_reachable [OF sts hook_next [OF r st]])
  show ?thesis
    using marking_step [OF st r ids1 e m] fan_frozen [OF sts ids m] reachable_fan_inv [OF r2]
    by (auto simp: fan_alt fan_inv_def deliveries_unique_def jobs_name_deliveries_def terminal_type_def)
qed

text \<open>An endpoint registered after the dispatch gets no delivery of the event.\<close>

theorem events_fan_out_once_witness:
  "\<exists>w2. hook_reachable demo_cfg demo_wcfg demo_hmac demo_str w2
    \<and> map w_id (filter active (webhookEndpoints (hk_db w2))) = [''w1'', ''w2'']
    \<and> endpointId ` {x \<in> set (webhookDeliveries (hk_db w2)). eventId x = ''o2''} = {''w1''}"
proof -
  let ?w0 = "unhooked demo_s3"
  let ?w = "set_hk_db demo_hooked ?w0"
  let ?w1 = "set_hk_db demo_dispatched ?w\<lparr>hk_jobs := hk_jobs ?w @ [dispatch_job demo_delivery]\<rparr>"
  let ?d2 = "demo_dispatched\<lparr>webhookEndpoints := [demo_endpoint, new_endpoint ''http://y'' ''w2'' ''s2'' 9000]\<rparr>"
  let ?w2 = "set_hk_db ?d2 ?w1"
  let ?f = "final_outbox demo_jd demo_dis (settle_env demo_penv)"
  have r: "hook_reachable demo_cfg demo_wcfg demo_hmac demo_str ?w"
    by (rule hook_next [OF reachable_unhooked [OF demo_s3_reachable] hook_create])
      (use demo_create in \<open>simp add: unhooked_def\<close>)
  have st: "hook_step demo_cfg demo_wcfg demo_hmac demo_str ?w ?w1"
    by (rule hook_dispatch [where adds = "[dispatch_job demo_delivery]"]) (use demo_dispatch_once in simp_all)
  have "create_endpoint (\<lambda>_. True) [(''url'', JStr ''http://y'')] ''w2'' ''s2'' 9000 demo_dispatched
      = (Inr (new_endpoint ''http://y'' ''w2'' ''s2'' 9000), ?d2)"
    by (simp add: create_endpoint_def validate_def create_endpoint_checks_def is_absent_def insert_endpoint_def
        insert_row_def demo_dispatched_def demo_hooked_tables demo_endpoint_def new_endpoint_def)
  then have st2: "hook_step demo_cfg demo_wcfg demo_hmac demo_str ?w1 ?w2" by (intro hook_create) simp
  have ob: "outbox ?d2 = poll_mark dispatch_pending (dispatch_mark 5001) {} (outbox demo_hooked)"
    by (simp add: demo_dispatched_def)
  have ids: "distinct (map o_id (outbox ?d2))"
    unfolding ob dispatch.poll_mark_ids
    by (simp add: demo_hooked_tables demo_d3_outbox submitted_outbox_def final_outbox_def demo_env_def demo_penv_def)
  have f: "?f \<in> set (outbox demo_hooked)" by (simp add: demo_hooked_tables demo_d3_outbox)
  have "o_id ?f \<in> o_id ` set (claim_rows dispatch_pending {} (outbox demo_hooked))" by (simp add: demo_claim)
  then have f1: "dispatch_mark 5001 ?f \<in> set (outbox demo_dispatched)"
    using f by (auto simp: demo_dispatched_def poll_mark_def mark_rows_def in_update_where)
  have eps: "{ep \<in> set (webhookEndpoints (hk_db ?w)). active ep} = {demo_endpoint}"
    by (auto simp: demo_hooked_tables demo_endpoint_def new_endpoint_def)
  have "hook_reachable demo_cfg demo_wcfg demo_hmac demo_str ?w2"
    by (rule hook_next [OF hook_next [OF r st] st2])
  moreover have "endpointId ` {x \<in> set (webhookDeliveries (hk_db ?w2)). eventId x = o_id ?f} = {''w1''}"
  proof -
    from events_fan_out_once [OF r st r_into_rtranclp [of "hook_step demo_cfg demo_wcfg demo_hmac demo_str", OF st2], of ?f "dispatch_mark 5001 ?f"]
    have "endpointId ` {x \<in> set (webhookDeliveries (hk_db ?w2)). eventId x = o_id ?f} = w_id ` {demo_endpoint}"
      unfolding eps using ids f f1 by (simp add: final_outbox_def)
    then show ?thesis by (simp add: demo_endpoint_def new_endpoint_def)
  qed
  ultimately show ?thesis
    by (intro exI [of _ ?w2]) (simp add: final_outbox_def demo_penv_def demo_endpoint_def new_endpoint_def)
qed

section \<open>All processes together\<close>

text \<open>C10: with the webhook services running on the same database,
  every reachable state is one of the payment processes alone once the webhook tables and marks
  are erased; payments, events, keys, queue, banks and charges are the same.\<close>

theorem webhooks_refine_the_payment_system:
  assumes "hook_reachable cfg wcfg hmac str w"
  shows "reachable cfg (core_sys (hk_sys w))
    \<and> payments (s_db (core_sys (hk_sys w))) = payments (hk_db w)
    \<and> paymentEvents (s_db (core_sys (hk_sys w))) = paymentEvents (hk_db w)
    \<and> idempotencyKeys (s_db (core_sys (hk_sys w))) = idempotencyKeys (hk_db w)
    \<and> s_queue (core_sys (hk_sys w)) = s_queue (hk_sys w) \<and> s_banks (core_sys (hk_sys w)) = s_banks (hk_sys w)
    \<and> s_charged (core_sys (hk_sys w)) = s_charged (hk_sys w)"
  using hook_reachable_core [OF assms] by simp

theorem webhooks_refine_the_payment_system_witness:
  "reachable demo_cfg (core_sys (hk_sys demo_hk))"
  using webhooks_refine_the_payment_system [OF demo_hk_reachable] by simp

text \<open>C11: every request an endpoint ever got, among all interleavings,
  crashes and repetitions, is signed with the secret of a registered endpoint of that URL and
  announces a payment with its id, amount and currency in the status it has; a payment announced
  as completed has been charged.\<close>

theorem webhooks_tell_the_truth:
  assumes "hook_reachable cfg wcfg hmac str w" "(q, res) \<in> set (hk_sent w)"
  shows "\<exists>p \<in> set (payments (hk_db w)). \<exists>ep \<in> set (webhookEndpoints (hk_db w)). \<exists>ty created data.
      hr_url q = url ep \<and> hr_signature q = hmac (secret ep) (hr_timestamp q @ ''.'' @ hr_body q)
    \<and> hr_body q = str \<lparr>env_id = hr_webhook_id q, env_type = ty, env_created = created, env_data = data\<rparr>
    \<and> jd_paymentId data = p_id p \<and> jd_amountCents data = amountCents p \<and> jd_currency data = currency p
    \<and> jd_status data = Some (status p)
    \<and> (if ty = ''payment.completed'' then status p = COMPLETED \<and> p_id p \<in> charged (hk_sys w)
       else status p = FAILED)"
proof -
  have "announces hmac str (hk_db w) q"
    using reachable_hook_inv [OF assms(1)] assms(2) by (auto simp: hook_inv_def)
  then obtain r i sec created where a: "has_event (hk_db w) r" "target_of (hk_db w) i (hr_url q) sec"
    "hr_webhook_id q = eventId r"
    "hr_body q = str \<lparr>env_id = eventId r, env_type = d_eventType r, env_created = created, env_data = d_payload r\<rparr>"
    "hr_signature q = hmac sec (hr_timestamp q @ ''.'' @ hr_body q)" by (auto simp: announces_def)
  obtain ep where ep: "ep \<in> set (webhookEndpoints (hk_db w))" "hr_url q = url ep" "secret ep = sec"
    using a(2) by (auto simp: target_of_def)
  obtain p where p: "p \<in> set (payments (hk_db w))" "p_id p = jd_paymentId (d_payload r)"
    "amountCents p = jd_amountCents (d_payload r)" "currency p = jd_currency (d_payload r)"
    "jd_status (d_payload r) = Some (status p)" "status p = type_status (d_eventType r)"
    "status p = COMPLETED \<longrightarrow> p_id p \<in> charged (hk_sys w)"
    using hook_event_payment [OF assms(1) a(1)] by blast
  show ?thesis
    by (rule bexI [OF _ p(1)], rule bexI [OF _ ep(1)], rule exI [of _ "d_eventType r"], rule exI [of _ created],
        rule exI [of _ "d_payload r"]) (use a ep p in \<open>auto simp: type_status_def\<close>)
qed

theorem webhooks_tell_the_truth_witness:
  "\<exists>created data. hr_body demo_request = demo_str \<lparr>env_id = hr_webhook_id demo_request,
      env_type = ''payment.completed'', env_created = created, env_data = data\<rparr>
    \<and> jd_paymentId data = ''p1'' \<and> ''p1'' \<in> charged (hk_sys demo_hk)"
proof -
  from webhooks_tell_the_truth [OF demo_hk_reachable demo_hk_sent] obtain ty created data where
    "hr_body demo_request = demo_str \<lparr>env_id = hr_webhook_id demo_request, env_type = ty,
      env_created = created, env_data = data\<rparr>" "jd_paymentId data = ''p1''"
    "if ty = ''payment.completed'' then ''p1'' \<in> charged (hk_sys demo_hk) else COMPLETED = FAILED"
    by (auto simp: demo_hk_db demo_sent_payments split: if_splits)
  then show ?thesis by (auto split: if_splits)
qed

text \<open>C12: in every reachable state a delivery is marked delivered only if its
  endpoint has answered a request with this event id with a success.\<close>

theorem delivered_means_accepted:
  assumes "hook_reachable cfg wcfg hmac str w" "r \<in> set (webhookDeliveries (hk_db w))" "d_status r = Delivered"
  shows "\<exists>ep \<in> set (webhookEndpoints (hk_db w)). w_id ep = endpointId r
    \<and> (\<exists>(q, res) \<in> set (hk_sent w). response_ok res \<and> hr_webhook_id q = eventId r \<and> hr_url q = url ep)"
proof -
  have "was_accepted (hk_db w) (hk_sent w) r"
    using reachable_hook_inv [OF assms(1)] assms(2,3) by (simp add: hook_inv_def)
  then obtain u sec where u: "target_of (hk_db w) (endpointId r) u sec" "accepted (hk_sent w) (eventId r) u"
    by (auto simp: was_accepted_def)
  then show ?thesis unfolding target_of_def accepted_def by blast
qed

theorem delivered_means_accepted_witness:
  "\<exists>(q, res) \<in> set (hk_sent demo_hk). response_ok res \<and> hr_webhook_id q = ''o2''"
proof -
  have "eventId demo_delivered = ''o2''" "d_status demo_delivered = Delivered"
    by (simp_all add: demo_delivered_def demo_delivery_def new_delivery_def demo_last)
  with delivered_means_accepted [OF demo_hk_reachable, of demo_delivered] show ?thesis
    by (auto simp: demo_hk_db demo_sent_db_def)
qed

section \<open>The console\<close>

text \<open>Deleting an endpoint does not stop its open deliveries:
  the worker still reads them, with the address and the secret of the deleted endpoint, and sends
  the same request.\<close>

theorem deleted_endpoint_still_receives:
  assumes "webhook_read i d = Inr (Some (r, ep))"
  shows "\<exists>row d' ep'. delete_endpoint (w_id ep) d = (Inr row, d') \<and> \<not> active row
    \<and> webhook_read i d' = Inr (Some (r, ep')) \<and> \<not> active ep'
    \<and> webhook_request hmac stringify created now r ep' = webhook_request hmac stringify created now r ep"
proof -
  obtain d' where d': "delete_endpoint (w_id ep) d = (Inr (ep\<lparr>active := False\<rparr>), d')"
    "webhook_read i d' = Inr (Some (r, ep\<lparr>active := False\<rparr>))" using webhook_read_deleted [OF assms] by blast
  have "webhook_request hmac stringify created now r (ep\<lparr>active := False\<rparr>) = webhook_request hmac stringify created now r ep"
    by (simp add: webhook_request_def)
  with d' show ?thesis by (intro exI [of _ "ep\<lparr>active := False\<rparr>"] exI [of _ d'] conjI) simp_all
qed

theorem deleted_endpoint_still_receives_witness:
  "\<exists>row d' ep'. delete_endpoint ''w1'' demo_sent = (Inr row, d') \<and> \<not> active ep'
    \<and> webhook_read ''d1'' d' = Inr (Some (demo_delivery, ep'))"
proof -
  have "webhook_read ''d1'' demo_sent = Inr (Some (demo_delivery, demo_endpoint))"
    by (simp add: webhook_read_def demo_sent_tables select_where_def)
  from deleted_endpoint_still_receives [OF this, of "\<lambda>k m. []" "\<lambda>v. []" 0 0] show ?thesis by auto
qed

text \<open>C40: an amount below 100 times $2^{46}$ cents is shown with exactly its
  digits, grouped, as the API prints it; the cent after that bound is shown one too high, although
  it is a safe integer the API stores.\<close>

theorem money_is_shown_exactly:
  "(n < 100 * 2 ^ 46 \<longrightarrow> formatMoney intl (int n) ''USD'' = usd_str n)
    \<and> filter (\<lambda>c. c \<noteq> CHR '','') (usd_str n) = CHR ''$'' # amount_str n
    \<and> formatMoney intl (100 * 2 ^ 46 + 1) ''USD'' = usd_str (100 * 2 ^ 46 + 2)
    \<and> (100 * 2 ^ 46 + 1 :: int) \<le> 2 ^ 53 - 1"
  using formatMoney_exact [of n intl] formatMoney_first_off [of intl] by (simp add: usd_str_amount)

theorem money_is_shown_exactly_witness:
  "formatMoney (\<lambda>c x. []) 123456789 ''USD'' = ''$1,234,567.89''"
proof -
  have "usd_str 123456789 = ''$1,234,567.89''"
    by (simp add: usd_str_def group_thousands_def nat_str.simps pad_start_def digit_char_def) code_simp
  then show ?thesis using money_is_shown_exactly [of 123456789 "\<lambda>c x. []"] by simp
qed

text \<open>The drawer submits by the button of its footer, whenever no
  submission is under way and whatever its fields hold; Enter in a field does nothing, and a
  submission of the form itself, which would refuse an empty required field, never happens.\<close>

theorem drawer_skips_its_checks:
  "(offers re (SubmitPaymentForm child s) SubmitForm \<longleftrightarrow> \<not> fs_submitting s)
    \<and> (\<forall>a. \<not> entered re (SubmitPaymentForm child s) a)
    \<and> (in_customerId (fs_form s) = [] \<longrightarrow> form_submit re [OnSubmit SubmitForm] (form_fields (fs_form s) @ ns) = [])"
  by (simp add: drawer_submit_button drawer_enter drawer_form_refuses)

theorem drawer_skips_its_checks_witness:
  "offers (\<lambda>p v. True) (SubmitPaymentForm (\<lambda>v. []) ((new_form ''k'')\<lparr>fs_form := DEFAULTS\<lparr>in_customerId := []\<rparr>\<rparr>)) SubmitForm
    \<and> form_submit (\<lambda>p v. True) [OnSubmit SubmitForm] (form_fields (DEFAULTS\<lparr>in_customerId := []\<rparr>)) = []"
  using drawer_skips_its_checks [of "\<lambda>p v. True" "\<lambda>v. []" "(new_form ''k'')\<lparr>fs_form := DEFAULTS\<lparr>in_customerId := []\<rparr>\<rparr>" "[]"]
  by (simp add: new_form_def)

text \<open>After a refresh the dashboard links to the newest hundred payments
  of the database in order and to nothing else, counts them by status in the rail, and keeps them
  when a later refresh fails.\<close>

theorem dashboard_shows_the_newest:
  assumes "controller_list \<lparr>lq_status = None, lq_cursor = None, lq_limit = 100\<rparr> d = (ps, cur)"
  shows "ps = take 100 (order_by_desc p_id (payments d))
    \<and> links (DashboardPage L child (dashboard_refresh (Inr ps) t s) drawer) = map (\<lambda>p. ''/payments/'' @ p_id p) ps
    \<and> links (DashboardPage L child (dashboard_refresh (Inl e) t' (dashboard_refresh (Inr ps) t s)) drawer)
        = map (\<lambda>p. ''/payments/'' @ p_id p) ps
    \<and> texts (PipelineRail ps) = concat (map (\<lambda>(st, label). [[Lit label], [Lit (nat_str (count_where (\<lambda>p. status p = st) ps))]]) STATES)"
  using first_page [OF assms] by (simp add: dashboard_links dashboard_refresh_def rail_texts)

theorem dashboard_shows_the_newest_witness:
  "links (DashboardPage \<lparr>lo_midnight = ''24'', lo_zone = (\<lambda>t. 0), lo_intl = (\<lambda>c x. [])\<rparr> (\<lambda>v. [])
    (dashboard_refresh (Inr [demo_row]) ''now'' new_dashboard) None) = [''/payments/p1'']"
proof -
  have "controller_list \<lparr>lq_status = None, lq_cursor = None, lq_limit = 100\<rparr> demo_d2 = ([demo_row], None)"
    by (simp add: controller_list_def list_payments_def page_of_def limit_def select_where_def order_by_desc_def demo_d2_tables)
  from dashboard_shows_the_newest [OF this, of "\<lparr>lo_midnight = ''24'', lo_zone = (\<lambda>t. 0), lo_intl = (\<lambda>c x. [])\<rparr>" "\<lambda>v. []" "''now''" new_dashboard None OtherThrown "''now''"]
  have "links (DashboardPage \<lparr>lo_midnight = ''24'', lo_zone = (\<lambda>t. 0), lo_intl = (\<lambda>c x. [])\<rparr> (\<lambda>v. [])
    (dashboard_refresh (Inr [demo_row]) ''now'' new_dashboard) None) = map (\<lambda>p. ''/payments/'' @ p_id p) [demo_row]"
    by blast
  then show ?thesis by simp
qed
section \<open>Late answers and restarts\<close>

text \<open>C25: while the bank is asked on behalf of a payment whose attempts
  are used up, the timeout can fire before the bank's authorization takes effect: the payment ends
  FAILED, and in every state from then on it is FAILED and has been charged by that process.\<close>

theorem failed_payment_is_charged_late:
  assumes "reachable cfg s"
    and "s_workers s i = Waiting jd" "(i, authorize_request jd) \<in> set (s_calls s)"
    and "p \<in> set (payments (s_db s))" "p_id p = jd_paymentId jd" "status p = PROCESSING"
      "MAX_RETRIES cfg \<le> attemptCount p"
    and "authorize (authorize_request jd) (s_banks s i) = (Authorized bref, b')"
  shows "\<exists>s' q n. reachable cfg s' \<and> (sys_step cfg)\<^sup>*\<^sup>* s s' \<and> p_id q = p_id p \<and> status q = FAILED
    \<and> (\<forall>s''. (sys_step cfg)\<^sup>*\<^sup>* s' s'' \<longrightarrow> q \<in> set (payments (s_db s'')) \<and> (i, n, p_id p) \<in> s_charged s'')"
proof -
  obtain s' q where s': "(sys_step cfg)\<^sup>*\<^sup>* s s'" "(i, s_lives s' i, p_id p) \<in> s_charged s'"
    "q \<in> set (payments (s_db s'))" "p_id q = p_id p" "status q = FAILED"
    using late_charge [OF assms] by blast
  have r: "reachable cfg s'" using steps_reachable [OF s'(1) assms(1)] .
  have "q \<in> set (payments (s_db s'')) \<and> (i, s_lives s' i, p_id p) \<in> s_charged s''" if "(sys_step cfg)\<^sup>*\<^sup>* s' s''" for s''
    using steps_terminal [OF that r s'(3)] steps_history [OF that r] s'(2,5) by (auto simp: is_terminal_def)
  with r s' show ?thesis by blast
qed

theorem failed_payment_is_charged_late_witness:
  "\<exists>s' q. reachable late_cfg s' \<and> p_id q = ''p1'' \<and> status q = FAILED \<and> q \<in> set (payments (s_db s'))
    \<and> ''p1'' \<in> charged s'"
proof -
  have a: "authorize (authorize_request demo_jd) (s_banks late_s 0) = (Authorized ''bank_p1'', demo_bank)"
    using demo_authorize by (simp add: late_s_def)
  have w: "s_workers late_s 0 = Waiting demo_jd" "(0, authorize_request demo_jd) \<in> set (s_calls late_s)"
    "claim_row 3000 demo_row \<in> set (payments (s_db late_s))" "p_id (claim_row 3000 demo_row) = jd_paymentId demo_jd"
    "status (claim_row 3000 demo_row) = PROCESSING" "MAX_RETRIES late_cfg \<le> attemptCount (claim_row 3000 demo_row)"
    by (simp_all add: late_s_def late_db_def late_cfg_def)
  from failed_payment_is_charged_late [OF late_s_reachable w a] obtain s' q n where
    s': "reachable late_cfg s'" "p_id q = p_id (claim_row 3000 demo_row)" "status q = FAILED"
    "\<forall>s''. (sys_step late_cfg)\<^sup>*\<^sup>* s' s'' \<longrightarrow> q \<in> set (payments (s_db s'')) \<and> (0, n, p_id (claim_row 3000 demo_row)) \<in> s_charged s''" by blast
  from s'(4) have "q \<in> set (payments (s_db s'))" "(0, n, ''p1'') \<in> s_charged s'" by auto
  with s' show ?thesis using in_charged by (intro exI [of _ s'] exI [of _ q]) auto
qed

text \<open>C9: an unfinished payment that some process has charged already
  can be charged a second time: a worker restarted since then has an empty adapter, takes a job of
  the payment, is authorized and completes it, with two charges of the one payment on record.\<close>

theorem restarted_worker_charges_again:
  assumes "reachable cfg s" "distinct (map o_id (outbox (s_db s)))"
    and "p \<in> set (payments (s_db s))" "\<not> is_terminal (status p)" "(i, n, p_id p) \<in> s_charged s"
  shows "\<exists>s' q m. (sys_step cfg)\<^sup>*\<^sup>* s s' \<and> q \<in> set (payments (s_db s')) \<and> same_terms p q \<and> status q = COMPLETED
    \<and> n < m \<and> {(i, n, p_id p), (i, m, p_id p)} \<subseteq> s_charged s' \<and> card (charged s') < s_charge_count s'"
proof -
  obtain s' q where q: "(sys_step cfg)\<^sup>*\<^sup>* s s'" "q \<in> set (payments (s_db s'))" "same_terms p q" "status q = COMPLETED"
    and m: "(i, s_lives s' i, p_id p) \<in> s_charged s'" "s_lives s i < s_lives s' i"
    using can_complete [OF assms(1-4)] .
  have h: "history_ok s" "history_ok s'"
    using reachable_history_ok assms(1) steps_reachable [OF q(1) assms(1)] by blast+
  have lt: "n < s_lives s' i" using h(1) assms(5) m(2) by (fastforce simp: history_ok_def)
  have old: "(i, n, p_id p) \<in> s_charged s'" using steps_history [OF q(1) assms(1)] assms(5) by blast
  have "card (charged s') < card (s_charged s')"
  proof (rule ccontr)
    assume "\<not> card (charged s') < card (s_charged s')"
    then have "card (charged s') = card (s_charged s')"
      using card_image_le [of "s_charged s'" "\<lambda>(i, n, k). k"] h(2) by (simp add: charged_def history_ok_def)
    then have "inj_on (\<lambda>(i, n, k). k) (s_charged s')"
      using h(2) by (intro eq_card_imp_inj_on) (simp_all add: charged_def history_ok_def)
    from inj_onD [OF this _ old m(1)] lt show False by simp
  qed
  then have "card (charged s') < s_charge_count s'" using h(2) by (simp add: history_ok_def)
  then show ?thesis using q m lt old by blast
qed

text \<open>The payment of the scenario, charged by a worker that has not settled it yet.\<close>

theorem restarted_worker_charges_again_witness:
  "\<exists>s' q. reachable demo_cfg s' \<and> q \<in> set (payments (s_db s')) \<and> p_id q = ''p1'' \<and> status q = COMPLETED
    \<and> 2 \<le> card {(i, n). (i, n, ''p1'') \<in> s_charged s'}"
proof -
  let ?br = "cb_record (breaker_cfg demo_cfg) 3200 True (new_breaker 0)"
  let ?s = "set_worker 0 (Settling demo_jd demo_dis) (set_breaker 0 ?br (set_bank 0 demo_bank (late_s\<lparr>s_calls := []\<rparr>)))"
  have d: "disposition_of (Authorized ''bank_p1'') = demo_dis" by (simp add: demo_dis_def)
  have "sys_step demo_cfg late_s (set_worker 0 (Settling demo_jd demo_dis) (set_breaker 0
      (cb_record (breaker_cfg demo_cfg) 3200 (\<not> is_retry demo_dis) (s_breakers late_s 0))
      (set_bank 0 demo_bank (late_s\<lparr>s_calls := remove1 (0, authorize_request demo_jd) (s_calls late_s)\<rparr>))))"
    by (rule step_answer [where out = "Authorized ''bank_p1''"]) (use demo_authorize d in \<open>simp_all add: late_s_def\<close>)
  then have "sys_step demo_cfg late_s ?s" by (simp add: demo_dis_def late_s_def)
  then have r: "reachable demo_cfg ?s" using late_s_reachable reach_step by blast
  have c: "(0, 0, ''p1'') \<in> s_charged ?s"
    by (simp add: set_bank_def set_worker_def set_breaker_def late_s_def demo_s2_def demo_s1_def initial_def demo_charged_keys)
  have p: "claim_row 3000 demo_row \<in> set (payments (s_db ?s))" "\<not> is_terminal (status (claim_row 3000 demo_row))"
    "distinct (map o_id (outbox (s_db ?s)))"
    by (simp_all add: late_s_def late_db_def is_terminal_def demo_d2_tables)
  from restarted_worker_charges_again [OF r p(3,1,2), of 0 0] c obtain s' q m where
    s': "(sys_step demo_cfg)\<^sup>*\<^sup>* ?s s'" "q \<in> set (payments (s_db s'))" "same_terms (claim_row 3000 demo_row) q" "status q = COMPLETED"
    "0 < m" "{(0, 0, ''p1''), (0, m, ''p1'')} \<subseteq> s_charged s'" by (auto simp: claim_row_def)
  have r': "reachable demo_cfg s'" using steps_reachable [OF s'(1) r] .
  have "finite {(i, n). (i, n, ''p1'') \<in> s_charged s'}"
  proof (rule finite_subset)
    show "{(i, n). (i, n, ''p1'') \<in> s_charged s'} \<subseteq> (\<lambda>(i, n, k). (i, n)) ` s_charged s'" by force
  qed (use reachable_history_ok [OF r'] in \<open>simp add: history_ok_def\<close>)
  moreover have "{(0, 0), (0, m)} \<subseteq> {(i, n). (i, n, ''p1'') \<in> s_charged s'}" using s'(6) by simp
  ultimately have "card {(0 :: nat, 0 :: nat), (0, m)} \<le> card {(i, n). (i, n, ''p1'') \<in> s_charged s'}" by (rule card_mono)
  then show ?thesis using r' s'(2-5) by (intro exI [of _ s'] exI [of _ q]) (auto simp: same_terms_def)
qed
text \<open>In the step relation, where any job that was ever added may be delivered,
  and as long as outbox ids do not repeat, every payment of a reachable state has a job in the queue
  or an unpublished submission row, and an unfinished one can still be completed, charged, on its
  own terms, by a poll of the relay, a pass of the reaper, a worker started afresh and a bank that
  authorizes: nothing the processes did before and no crash strands it for good.\<close>

theorem unfinished_payments_can_complete:
  assumes "reachable cfg s" "distinct (map o_id (outbox (s_db s)))"
    and "p \<in> set (payments (s_db s))" "\<not> is_terminal (status p)"
  shows "covered s (p_id p) \<and> (\<exists>s' q. (sys_step cfg)\<^sup>*\<^sup>* s s' \<and> q \<in> set (payments (s_db s')) \<and> same_terms p q
    \<and> status q = COMPLETED \<and> p_id q \<in> charged s')"
proof -
  obtain s' q where q: "(sys_step cfg)\<^sup>*\<^sup>* s s'" "q \<in> set (payments (s_db s'))" "same_terms p q" "status q = COMPLETED"
    using can_complete [OF assms] .
  have "p_id q \<in> charged s'"
    using reachable_completed [OF steps_reachable [OF q(1) assms(1)]] q(2,4) by (simp add: completed_in_def)
  with q reachable_nothing_lost [OF assms(1)] assms(2-4) show ?thesis by (auto simp: nothing_lost_def)
qed

theorem unfinished_payments_can_complete_witness:
  "\<exists>s' q. reachable demo_cfg s' \<and> q \<in> set (payments (s_db s')) \<and> p_id q = ''p1'' \<and> status q = COMPLETED"
proof -
  have d: "distinct (map o_id (outbox (s_db demo_s1)))" "demo_row \<in> set (payments (s_db demo_s1))"
    "\<not> is_terminal (status demo_row)"
    by (simp_all add: demo_s1_def demo_d1_def submitted_db_def empty_db_def demo_row_def demo_cfg_def is_terminal_def Let_def)
  from unfinished_payments_can_complete [OF demo_s1_reachable d] obtain s' q where
    "(sys_step demo_cfg)\<^sup>*\<^sup>* demo_s1 s'" "q \<in> set (payments (s_db s'))" "same_terms demo_row q" "status q = COMPLETED"
    by blast
  moreover from this(1) have "reachable demo_cfg s'" using steps_reachable demo_s1_reachable by blast
  ultimately show ?thesis by (auto simp: same_terms_def)
qed

text \<open>C4: over any job store that behaves as
  documented (additions under a held id are ignored, settled jobs of the payments queue are kept,
  a job is tried once), an unfinished payment of a reachable state can still be completed, by the
  relay, the reaper, a worker and a bank that authorizes, exactly if it is not stranded: PENDING,
  with no row whose job the store would accept, no job that could still be delivered and no
  worker at work on it. A payment that was claimed once is never stranded.\<close>

theorem unfinished_completes_unless_stranded:
  assumes "payments_queue Q mx" "live_reachable Q cfg l"
    and "distinct (map o_id (outbox (q_db l)))" "p \<in> set (payments (q_db l))" "\<not> is_terminal (status p)"
  shows "(\<exists>l' q. (live_step Q cfg)\<^sup>*\<^sup>* l l' \<and> q \<in> set (payments (q_db l')) \<and> same_terms p q \<and> status q = COMPLETED)
    \<longleftrightarrow> \<not> stranded Q mx l p"
  using payments_queue.completable_iff [OF assms] by (simp add: completable_def)

theorem unfinished_completes_unless_stranded_witness:
  "\<exists>l' q. (live_step demo_queue demo_cfg)\<^sup>*\<^sup>* demo_l3 l' \<and> q \<in> set (payments (q_db l'))
    \<and> same_terms demo_row q \<and> status q = COMPLETED"
proof -
  have d: "distinct (map o_id (outbox (q_db demo_l3)))"
    "demo_row \<in> set (payments (q_db demo_l3))" "\<not> is_terminal (status demo_row)"
    by (simp_all add: demo_cfg_def demo_l3_def demo_d2_tables is_terminal_def)
  have "\<not> stranded demo_queue 1 demo_l3 demo_row"
    by (auto simp: stranded_def demo_l3_def job_of_def)
  with unfinished_completes_unless_stranded [OF demo_queue demo_l3_reachable d] show ?thesis by blast
qed

text \<open>C5: when the handler of the only job of a
  PENDING payment throws before its claim has committed (the database is away for a moment), the
  payment stays PENDING in every later state: the job is failed and kept under its id, its outbox
  row is published already, and the reaper looks at PROCESSING and RETRYING only.\<close>

theorem thrown_first_job_strands_the_payment:
  assumes "payments_queue Q mx" "live_reachable Q cfg l"
    and "p \<in> set (payments (q_db l))" "status p = PENDING"
    and "q_held l i = Some k" "q_find Q l k = Some e" "en_state e = Active i"
    and "\<forall>k' e'. q_find Q l k' = Some e' \<and> job_of (p_id p) (job_payload (en_job e')) \<longrightarrow> k' = k"
    and "\<forall>i' jd. pc_job (s_workers (q_sys l) i') = Some jd \<and> job_of (p_id p) jd \<longrightarrow> i' = i"
    and "\<forall>x \<in> set (outbox (q_db l)). relay_pending x \<longrightarrow> \<not> job_of (p_id p) (payload x)"
  shows "live_step Q cfg l (finish_job Q i k False l)
    \<and> (\<forall>l'. (live_step Q cfg)\<^sup>*\<^sup>* (finish_job Q i k False l) l' \<longrightarrow> p \<in> set (payments (q_db l')))"
proof -
  have t: "live_step Q cfg l (finish_job Q i k False l)" "stranded Q mx (finish_job Q i k False l) p"
    using payments_queue.throw_strands [OF assms(1,3-10), of cfg] by simp_all
  have "p \<in> set (payments (q_db l'))" if "(live_step Q cfg)\<^sup>*\<^sup>* (finish_job Q i k False l) l'" for l'
    using payments_queue.stranded_steps [OF assms(1) that live_next [OF assms(2) t(1)] t(2)] unfolding stranded_def by (rule conjunct1)
  with t(1) show ?thesis by blast
qed

theorem thrown_first_job_strands_the_payment_witness:
  "{l'. (live_step demo_queue demo_cfg)\<^sup>*\<^sup>* (finish_job demo_queue 0 ''o1'' False demo_l3) l'}
    \<subseteq> {l'. demo_row \<in> set (payments (q_db l'))}"
proof -
  let ?e = "(new_entry demo_job)\<lparr>en_state := Active 0\<rparr>"
  have 1: "demo_row \<in> set (payments (q_db demo_l3))" "status demo_row = PENDING" "q_held demo_l3 0 = Some ''o1''"
    "q_find demo_queue demo_l3 ''o1'' = Some ?e" "en_state ?e = Active 0"
    by (simp_all add: demo_l3_def demo_d2_tables)
  have 2: "\<forall>k' e'. q_find demo_queue demo_l3 k' = Some e' \<and> job_of (p_id demo_row) (job_payload (en_job e')) \<longrightarrow> k' = ''o1''"
    by (simp add: demo_l3_def)
  have 3: "\<forall>i' jd. pc_job (s_workers (q_sys demo_l3) i') = Some jd \<and> job_of (p_id demo_row) jd \<longrightarrow> i' = 0"
    by (simp add: demo_l3_def)
  have 4: "\<forall>x \<in> set (outbox (q_db demo_l3)). relay_pending x \<longrightarrow> \<not> job_of (p_id demo_row) (payload x)"
    by (simp add: demo_l3_def demo_d2_tables relay_pending_def)
  from thrown_first_job_strands_the_payment [OF demo_queue demo_l3_reachable 1 2 3 4, of demo_cfg] show ?thesis by blast
qed

text \<open>C6: a retry job that a settling
  attempt schedules is under an id the store does not hold, whatever jobs it has kept, so the
  queue accepts it: retries have ids of their own. Assumed is only that no job of the relay or
  of the reaper has an id of that form, as ids are ULIDs; and every run over the store is a run of the
  system in which any job ever added may be delivered.\<close>

theorem retries_are_accepted_by_the_queue:
  assumes "payments_queue Q mx" "live_reachable Q cfg l" "s_workers (q_sys l) i = Settling jd dis"
    and "settle cfg en jd dis (q_db l) = (Inr (), d', [j])"
    and "\<forall>x \<in> set (s_queue (q_sys l)). \<not> is_retry_job x \<longrightarrow> job_id x \<noteq> job_id j"
  shows "q_find Q l (job_id j) = None \<and> q_find Q (commit_adds Q d' [j] l) (job_id j) = Some (new_entry j)
    \<and> reachable cfg (q_sys l)"
  using payments_queue.retry_accepted [OF assms] payments_queue.live_sys_reachable [OF assms(1,2)] by simp

theorem retries_are_accepted_by_the_queue_witness:
  "\<exists>d'. map_of (q_store demo_l4) ''p1:retry:1'' = None
    \<and> map_of (q_store (commit_adds demo_queue d' [retry_job demo_jd 1 (Fin 750)] demo_l4)) ''p1:retry:1''
      = Some (new_entry (retry_job demo_jd 1 (Fin 750)))"
proof -
  obtain d' where s: "settle demo_cfg (demo_penv\<lparr>rnd := 1 / 2\<rparr>) demo_jd (Retry ''bank_timeout'') (q_db demo_l4)
      = (Inr (), d', [retry_job demo_jd 1 (Fin 750)])"
    using demo_retry by (auto simp: demo_l4_def late_s_def)
  have w: "s_workers (q_sys demo_l4) 0 = Settling demo_jd (Retry ''bank_timeout'')" by (simp add: demo_l4_def)
  have id: "job_id (retry_job demo_jd 1 (Fin 750)) = ''p1:retry:1''"
    by (simp add: retry_job_def) code_simp
  have "\<forall>x \<in> set (s_queue (q_sys demo_l4)). \<not> is_retry_job x \<longrightarrow> job_id x \<noteq> job_id (retry_job demo_jd 1 (Fin 750))"
    unfolding id by (simp add: demo_l4_def late_s_def demo_job_def)
  from retries_are_accepted_by_the_queue [OF demo_queue demo_l4_reachable w s this]
  show ?thesis unfolding id by auto
qed

text \<open>C13: in every state all processes reach over a
  webhooks queue that behaves as documented, with its settled jobs removed, every delivery that is pending or failed can
  still be delivered: whatever was lost, failed or is stuck under its job id can leave it, the delivery reaper adds the
  job again, and an endpoint that answers with a success is believed. The state it ends in is one
  of the webhook system, so the endpoint was really asked.\<close>

theorem open_deliveries_can_be_delivered:
  assumes "webhooks_queue W mx" "hq_reachable W cfg wcfg hmac str l"
    and "r \<in> set (webhookDeliveries (h_db l))" "d_status r \<in> {Pending, Failed}"
  shows "\<exists>l' r'. (hq_step W cfg wcfg hmac str)\<^sup>*\<^sup>* l l' \<and> hook_reachable cfg wcfg hmac str (h_hk l')
    \<and> r' \<in> set (webhookDeliveries (h_db l')) \<and> d_id r' = d_id r \<and> d_status r' = Delivered
    \<and> was_accepted (h_db l') (hk_sent (h_hk l')) r'"
proof -
  from assms(4) have "open_delivery r" by (simp add: open_delivery_def)
  with webhooks_queue.open_deliverable [OF assms(1-3)] obtain l' r' where
    l: "(hq_step W cfg wcfg hmac str)\<^sup>*\<^sup>* l l'" "r' \<in> set (webhookDeliveries (h_db l'))" "d_id r' = d_id r" "d_status r' = Delivered"
    by (auto simp: deliverable_def)
  have h: "hook_reachable cfg wcfg hmac str (h_hk l')"
    using webhooks_queue.hq_hook_reachable [OF assms(1)] steps_hq_reachable [OF l(1) assms(2)] by blast
  with l show ?thesis using reachable_hook_inv [OF h] by (auto simp: hook_inv_def)
qed

theorem open_deliveries_can_be_delivered_witness:
  "\<exists>l r. hq_reachable demo_hooks demo_cfg demo_wcfg demo_hmac demo_str l
    \<and> r \<in> set (webhookDeliveries (h_db l)) \<and> d_id r = ''d1'' \<and> d_status r = Delivered"
proof -
  have "demo_delivery \<in> set (webhookDeliveries (h_db demo_lost))"
    by (simp add: demo_lost_def demo_dispatched_def)
  from open_deliveries_can_be_delivered [OF demo_hooks demo_lost_reachable this]
  obtain l r where l: "(hq_step demo_hooks demo_cfg demo_wcfg demo_hmac demo_str)\<^sup>*\<^sup>* demo_lost l"
    "r \<in> set (webhookDeliveries (h_db l))" "d_id r = ''d1''" "d_status r = Delivered"
    by auto
  with steps_hq_reachable [OF l(1) demo_lost_reachable] show ?thesis by blast
qed

section \<open>Services and processes\<close>

text \<open>C36: two polls of a service start at least one
  timer apart, the one at start-up included, whatever its polls throw and however late timers fire,
  and the first poll of a service that does not poll at start-up comes a timer after the start. The timer is the
  configured interval to the millisecond, at least 100, as long as that is below 24.8 days; a
  longer one, which every configuration may name, is a timer of one millisecond.\<close>

theorem loops_keep_their_interval:
  assumes "load_config e = Inr c" "sv \<in> set (loop_services c)" "sorted (map fst evs)" "\<forall>ev \<in> set evs. t \<le> fst ev"
    and "d = timer_delay (ls_interval sv)"
  shows "sorted_wrt (\<lambda>x y. x + d \<le> y) (service_polls sv poll evs t w)
    \<and> (ls_eager sv \<or> (\<forall>x \<in> set (service_polls sv poll evs t w). t + d \<le> x))
    \<and> (if ls_interval sv \<le> 2147483647 then 100 \<le> d \<and> of_int d \<le> ls_interval sv \<and> ls_interval sv < of_int d + 1
       else d = 1)"
  using service_starts [OF assms(3-5), where poll = poll and w = w]
    timer_delay_range [OF loop_services_interval [OF assms(1,2)], folded assms(5)] by blast

theorem loops_keep_their_interval_witness:
  "\<exists>c. load_config (\<lambda>_. None) = Inr c \<and> timer_delay (ls_interval (ReaperService c)) = 10000
    \<and> service_polls (ReaperService c) (\<lambda>e w. (Inr e, w))
        [(4, Fires 0), (10500, Fires 0), (10600, PollEnds ()), (20700, Fires 1)] 0 () = [10500, 20700]
    \<and> sorted_wrt (\<lambda>x y. x + 10000 \<le> y) [10500, 20700 :: int]"
proof -
  let ?evs = "[(4 :: int, Fires 0), (10500, Fires 0), (10600, PollEnds ()), (20700, Fires 1)]"
  obtain c where c: "load_config (\<lambda>_. None) = Inr c" and i: "reaperIntervalMs (relay c) = 10000"
    by (simp add: load_config_def load_worker_def load_bank_def load_relay_def load_webhooks_def
        num_unset env_def is_prod_def BANK_ADAPTERS_def Let_def)
  have d: "10000 = timer_delay (ls_interval (ReaperService c))"
    by (simp add: ReaperService_def i timer_delay_def)
  have starts: "service_polls (ReaperService c) (\<lambda>e w. (Inr e, w)) ?evs 0 () = [10500, 20700]"
    by (simp add: service_polls_def timed_init_def d [symmetric]) (simp add: ReaperService_def onModuleInit_def scheduleNext_def new_loop_def
        tick_begin_def tick_end_def)
  have "ReaperService c \<in> set (loop_services c)" by (simp add: loop_services_def)
  from loops_keep_their_interval [OF c this _ _ d, of ?evs 0 "\<lambda>e w. (Inr e, w)" "()", unfolded starts]
  have "sorted_wrt (\<lambda>x y. x + 10000 \<le> y) [10500, 20700 :: int]" by simp
  then show ?thesis using c d [symmetric] starts by (intro exI [of _ c] conjI)
qed

text \<open>A month written in milliseconds is such an interval, and it is accepted.\<close>

theorem long_interval_makes_the_cleanup_spin:
  "\<exists>c. load_config ((\<lambda>_. None)(''OUTBOX_CLEANUP_INTERVAL_MS'' \<mapsto> ''2592000000'')) = Inr c
    \<and> timer_delay (ls_interval (OutboxCleanupService c)) = 1"
proof -
  let ?e = "(\<lambda>_. None)(''OUTBOX_CLEANUP_INTERVAL_MS'' \<mapsto> ''2592000000'') :: process_env"
  have "js_trim ''2592000000'' = ''2592000000''" by code_simp
  moreover have "unsigned_decimal ''2592000000'' = Some 2592000000"
    by (simp add: unsigned_decimal_def is_digit_def digits_val_def digit_val_def)
  ultimately have "to_number ''2592000000'' = Fin 2592000000"
    by (simp add: to_number_def decimal_literal_def js_finite_small [of 2592000000, simplified])
  then have n: "num ?e ''OUTBOX_CLEANUP_INTERVAL_MS'' 3600000 (Some 1000) None = (2592000000, [])"
    by (simp add: num_def)
  have u: "num ?e name fb mn mx = (fb, [])" if "name \<noteq> ''OUTBOX_CLEANUP_INTERVAL_MS''" for name fb mn mx
    using that by (simp add: num_unset)
  have v: "env ?e name fb req None = (fb, [])" if "name \<noteq> ''OUTBOX_CLEANUP_INTERVAL_MS''" "req \<noteq> Some True" for name fb req
    using that by (cases req) (auto simp: env_def is_prod_def)
  have w: "\<exists>x. load_worker ?e = (x, [])" by (simp add: load_worker_def u Let_def)
  have b: "\<exists>x. load_bank ?e = (x, [])" by (simp add: load_bank_def u env_def is_prod_def BANK_ADAPTERS_def Let_def)
  have h: "\<exists>x. load_webhooks ?e = (x, [])" by (simp add: load_webhooks_def u Let_def)
  have r: "\<exists>x. load_relay ?e = (x, []) \<and> outboxCleanupIntervalMs x = 2592000000" by (simp add: load_relay_def u n Let_def)
  from w b h r obtain c where "load_config ?e = Inr c" "outboxCleanupIntervalMs (relay c) = 2592000000"
    by (auto simp: load_config_def u v Let_def)
  then show ?thesis by (intro exI [of _ c]) (simp add: OutboxCleanupService_def timer_delay_def)
qed

text \<open>C37: with any configuration that loads, and a container that
  follows the documented rule, every dependency that a module of the three processes declares is
  found; the worker's payment processor, its metrics and the chaos sync get the bank and the
  breaker of one module. Each of the six loops and the consumer of each
  registered queue runs in exactly one process, and a process with loops has its shutdown hooks on.\<close>

theorem processes_are_wired:
  assumes "load_config e = Inr c" "nest_container gives finds"
  shows "\<exists>w bm. worker_bootstrap c = Inr w \<and> BankModule c = Inr bm
    \<and> (\<forall>p \<in> {main_bootstrap c, relay_bootstrap c, w}.
        (\<forall>m \<in> set (modules (pr_root p)). \<forall>t \<in> set (needs m). finds (pr_root p) m t \<noteq> None)
        \<and> (process_loops (pr_root p) \<noteq> [] \<longrightarrow> pr_shutdown_hooks p))
    \<and> finds (pr_root w) (pr_root w) BANK = Some bm \<and> finds (pr_root w) (pr_root w) BREAKER = Some bm
    \<and> concat (map (\<lambda>p. process_loops (pr_root p)) [main_bootstrap c, relay_bootstrap c, w]) = loop_services c
    \<and> concat (map (\<lambda>p. process_consumes (pr_root p)) [main_bootstrap c, relay_bootstrap c, w]) = map fst registered_queues"
proof -
  obtain bm where bm: "BankModule c = Inr bm"
    using bank_provider_loaded [OF assms(1)] by (simp add: BankModule_def)
  obtain r where r: "WorkerModule c = Inr r" using bm by (simp add: WorkerModule_def)
  obtain w where w: "worker_bootstrap c = Inr w" "pr_root w = r" "pr_shutdown_hooks w" using r by (simp add: worker_bootstrap_def)
  note found = nest_container.satisfied_finds [OF assms(2)]
  have "finds (AppModule c) m t \<noteq> None" if "m \<in> set (modules (AppModule c))" "t \<in> set (needs m)" for m t
    using nest_container.main_satisfied [OF assms(2), of c] that by (intro found) blast
  moreover have "finds (RelayModule c) m t \<noteq> None" if "m \<in> set (modules (RelayModule c))" "t \<in> set (needs m)" for m t
    using nest_container.relay_satisfied [OF assms(2), of c] that by (intro found) blast
  moreover have "finds r m t \<noteq> None" if "m \<in> set (modules r)" "t \<in> set (needs m)" for m t
    using nest_container.worker_satisfied [OF assms(2,1) r] that by (intro found) blast
  ultimately show ?thesis
    using w bm nest_container.worker_shares(2) [OF assms(2,1) r bm]
    by (simp add: main_bootstrap_def relay_bootstrap_def process_services worker_services [OF assms(1) r]
        loop_services_def registered_queues_def)
qed

theorem processes_are_wired_witness:
  "\<exists>c w. load_config (\<lambda>_. None) = Inr c \<and> worker_bootstrap c = Inr w
    \<and> map_option Inr (search (pr_root w) (pr_root w) BREAKER) = Some (BankModule c)"
proof -
  obtain c where c: "load_config (\<lambda>_. None) = Inr c"
    by (simp add: load_config_def load_worker_def load_bank_def load_relay_def load_webhooks_def
        num_unset env_def is_prod_def BANK_ADAPTERS_def Let_def)
  from processes_are_wired [OF c searching.nest_container_axioms] show ?thesis using c by auto
qed

end
